(* ===== verification/Prelude.thy ===== *)
theory Prelude
  imports Main "HOL-Library.Char_ord" "HOL-Library.List_Lexorder"
begin

text \<open>
  Shared vocabulary of the development: the collections of rewrite rules the component proofs use,
  the parts of Go's run time the controller relies on (maps that may be nil, saturating time
  arithmetic), and the generic facts on lists and maps.

  Go's byte strings are \<open>string\<close>; their order \<open><\<close> is the bytewise lexicographic one of
  \<open>Char_ord\<close> and \<open>List_Lexorder\<close>, as in Go.
\<close>

named_theorems go_map_simps "how the operations on Go maps act"
named_theorems handler_simps "branch equations of the handlers"

section \<open>Go maps\<close>

text \<open>
  A \<open>map[string]string\<close> is nil (\<open>None\<close>) or an allocated map. Reading a missing key gives the zero
  value, the empty string; deleting from a nil map does nothing; assigning to a nil map panics,
  which \<open>map_assign\<close> reports as \<open>None\<close>.
\<close>

type_synonym go_map = "(string \<rightharpoonup> string) option"

definition map_index :: "go_map \<Rightarrow> string \<Rightarrow> string" where
  "map_index m k = (case m of None \<Rightarrow> '''' | Some f \<Rightarrow> (case f k of None \<Rightarrow> '''' | Some v \<Rightarrow> v))"

definition map_has :: "go_map \<Rightarrow> string \<Rightarrow> bool" where
  "map_has m k = (case m of None \<Rightarrow> False | Some f \<Rightarrow> f k \<noteq> None)"

definition map_assign :: "go_map \<Rightarrow> string \<Rightarrow> string \<Rightarrow> go_map option" where
  "map_assign m k v = (case m of None \<Rightarrow> None | Some f \<Rightarrow> Some (Some (f(k \<mapsto> v))))"

definition map_delete :: "go_map \<Rightarrow> string \<Rightarrow> go_map" where
  "map_delete m k = (case m of None \<Rightarrow> None | Some f \<Rightarrow> Some (f(k := None)))"

lemma map_index_nil [go_map_simps, simp]: "map_index None k = ''''"
  by (simp add: map_index_def)

lemma map_index_Some [go_map_simps]:
  "map_index (Some f) k = (case f k of None \<Rightarrow> '''' | Some v \<Rightarrow> v)"
  by (simp add: map_index_def)

lemma map_has_nil [go_map_simps, simp]: "\<not> map_has None k"
  by (simp add: map_has_def)

lemma map_has_Some [go_map_simps]: "map_has (Some f) k \<longleftrightarrow> f k \<noteq> None"
  by (simp add: map_has_def)

lemma map_assign_nil [go_map_simps, simp]: "map_assign None k v = None"
  by (simp add: map_assign_def)

lemma map_assign_Some [go_map_simps, simp]: "map_assign (Some f) k v = Some (Some (f(k \<mapsto> v)))"
  by (simp add: map_assign_def)

lemma map_delete_nil [go_map_simps, simp]: "map_delete None k = None"
  by (simp add: map_delete_def)

lemma map_delete_Some [go_map_simps]: "map_delete (Some f) k = Some (f(k := None))"
  by (simp add: map_delete_def)

lemma map_index_delete [go_map_simps]:
  "map_index (map_delete m k) k' = (if k' = k then '''' else map_index m k')"
  by (cases m) (auto simp: map_index_def map_delete_def)

lemma map_has_delete [go_map_simps]: "map_has (map_delete m k) k' \<longleftrightarrow> k' \<noteq> k \<and> map_has m k'"
  by (cases m) (auto simp: map_has_def map_delete_def)

lemma map_index_has: "map_index m k \<noteq> '''' \<Longrightarrow> map_has m k"
  by (auto simp: map_index_def map_has_def split: option.splits)

section \<open>Time\<close>

text \<open>
  Instants are nanoseconds since a fixed epoch. A \<open>time.Duration\<close> is an \<open>int64\<close> of nanoseconds and
  \<open>time.Since\<close> saturates at its ends, so \<open>time_Since\<close> clamps.
\<close>

type_synonym instant = int
type_synonym duration = int

definition Second :: duration where "Second = 1000000000"
definition Minute :: duration where "Minute = 60 * Second"
definition maxDuration :: duration where "maxDuration = 2 ^ 63 - 1"
definition minDuration :: duration where "minDuration = - (2 ^ 63)"

definition time_Since :: "instant \<Rightarrow> instant \<Rightarrow> duration" where
  "time_Since now t = max minDuration (min maxDuration (now - t))"

text \<open>Saturation never changes a comparison with a duration that is itself in range.\<close>

lemma time_Since_less:
  assumes "minDuration < d" "d \<le> maxDuration"
  shows "time_Since now t < d \<longleftrightarrow> now - t < d"
  using assms by (auto simp: time_Since_def minDuration_def maxDuration_def)

lemma time_Since_bounds: "minDuration \<le> time_Since now t \<and> time_Since now t \<le> maxDuration"
  by (auto simp: time_Since_def minDuration_def maxDuration_def)

section \<open>Lists and maps\<close>

lemma find_Some_in: "find p xs = Some x \<Longrightarrow> x \<in> set xs \<and> p x"
  by (auto simp: find_Some_iff)

lemma distinct_map_eq: "distinct (map f xs) \<Longrightarrow> x \<in> set xs \<Longrightarrow> y \<in> set xs \<Longrightarrow> f x = f y \<Longrightarrow> x = y"
  by (metis distinct_map inj_onD)

lemma distinct_map_filter_key:
  "distinct (map f xs) \<Longrightarrow> distinct (map f (filter p xs))"
  by (simp add: distinct_map_filter)

section \<open>Collections of objects\<close>

text \<open>
  A collection of API objects is a list; \<open>key\<close> is what the API addresses them by. \<open>lookup_by\<close> reads
  the collection as a map, \<open>put_by\<close> stores an object under its key, \<open>drop_by\<close> removes a key and
  \<open>set_by\<close> does either.
\<close>

definition lookup_by :: "('a \<Rightarrow> 'k) \<Rightarrow> 'a list \<Rightarrow> 'k \<rightharpoonup> 'a" where
  "lookup_by key xs k = find (\<lambda>x. key x = k) xs"

fun put_by :: "('a \<Rightarrow> 'k) \<Rightarrow> 'a \<Rightarrow> 'a list \<Rightarrow> 'a list" where
  "put_by key x [] = [x]"
| "put_by key x (y # ys) = (if key y = key x then x # ys else y # put_by key x ys)"

definition drop_by :: "('a \<Rightarrow> 'k) \<Rightarrow> 'k \<Rightarrow> 'a list \<Rightarrow> 'a list" where
  "drop_by key k xs = filter (\<lambda>x. key x \<noteq> k) xs"

definition set_by :: "('a \<Rightarrow> 'k) \<Rightarrow> 'k \<Rightarrow> 'a option \<Rightarrow> 'a list \<Rightarrow> 'a list" where
  "set_by key k r xs = (case r of None \<Rightarrow> drop_by key k xs | Some x \<Rightarrow> put_by key x xs)"

lemma lookup_by_simps [simp]:
  "lookup_by key [] = Map.empty"
  "lookup_by key (x # xs) = (\<lambda>k. if key x = k then Some x else lookup_by key xs k)"
  by (simp_all add: lookup_by_def fun_eq_iff)

lemma lookup_by_key: "lookup_by key xs k = Some x \<Longrightarrow> key x = k"
  by (auto simp: lookup_by_def dest: find_Some_in)

lemma lookup_by_mem: "lookup_by key xs k = Some x \<Longrightarrow> x \<in> set xs"
  by (auto simp: lookup_by_def dest: find_Some_in)

lemma ran_lookup_by: "ran (lookup_by key xs) \<subseteq> set xs"
  by (auto simp: ran_def dest: lookup_by_mem)

lemma lookup_by_None: "lookup_by key xs k = None \<longleftrightarrow> k \<notin> key ` set xs"
  by (auto simp: lookup_by_def find_None_iff)

lemma lookup_by_distinct:
  "distinct (map key xs) \<Longrightarrow> lookup_by key xs k = Some x \<longleftrightarrow> x \<in> set xs \<and> key x = k"
  by (induction xs) (auto split: if_splits)

lemma lookup_by_put [simp]: "lookup_by key (put_by key x xs) = (lookup_by key xs)(key x \<mapsto> x)"
  by (induction xs) (auto simp: fun_eq_iff)

lemma lookup_by_drop [simp]: "lookup_by key (drop_by key k xs) = (lookup_by key xs)(k := None)"
  by (induction xs) (auto simp: fun_eq_iff drop_by_def)

lemma lookup_by_set:
  "(\<And>x. r = Some x \<Longrightarrow> key x = k) \<Longrightarrow> lookup_by key (set_by key k r xs) = (lookup_by key xs)(k := r)"
  by (auto simp: set_by_def split: option.splits)

lemma put_by_fresh: "key x \<notin> key ` set xs \<Longrightarrow> put_by key x xs = xs @ [x]"
  by (induction xs) auto

lemma put_by_mem: "x \<in> set (put_by key x xs)"
  by (induction xs) auto

lemma put_by_twice: "put_by key x (put_by key x xs) = put_by key x xs"
  by (induction xs) auto

lemma filter_put_by: "k \<noteq> key x \<Longrightarrow> filter (\<lambda>y. key y = k) (put_by key x xs) = filter (\<lambda>y. key y = k) xs"
  by (induction xs) auto

lemma keys_put: "key ` set (put_by key x xs) = insert (key x) (key ` set xs)"
  by (induction xs) auto

lemma distinct_put: "distinct (map key xs) \<Longrightarrow> distinct (map key (put_by key x xs))"
  by (induction xs) (auto simp: keys_put)

lemma distinct_drop: "distinct (map key xs) \<Longrightarrow> distinct (map key (drop_by key k xs))"
  by (simp add: drop_by_def distinct_map_filter_key)

lemma distinct_set_by: "distinct (map key xs) \<Longrightarrow> distinct (map key (set_by key k r xs))"
  by (simp add: set_by_def distinct_put distinct_drop split: option.split)

text \<open>The list of a collection: of several objects with one key the first, which \<open>lookup_by\<close> returns.\<close>

fun firsts_by :: "('a \<Rightarrow> 'k) \<Rightarrow> 'k list \<Rightarrow> 'a list \<Rightarrow> 'a list" where
  "firsts_by key seen [] = []"
| "firsts_by key seen (x # xs) =
     (if key x \<in> set seen then firsts_by key seen xs else x # firsts_by key (key x # seen) xs)"

lemma set_firsts_seen: "x \<in> set (firsts_by key seen xs) \<longleftrightarrow> key x \<notin> set seen \<and> lookup_by key xs (key x) = Some x"
  by (induction xs arbitrary: seen) auto

lemma set_firsts_by: "set (firsts_by key [] xs) = ran (lookup_by key xs)"
  by (auto simp: set_firsts_seen ran_def) (metis lookup_by_key)

lemma set_put:
  "distinct (map key xs) \<Longrightarrow> set (put_by key x xs) = insert x {y \<in> set xs. key y \<noteq> key x}"
  by (induction xs) (auto simp: image_iff)

end
