(* ===== verification/Netip.thy ===== *)
theory Netip
  imports Prelude "HOL-Library.Word"
begin

text \<open>
  What the controller uses of Go's \<^verbatim>\<open>net/netip\<close>: \<open>ParseAddr\<close> on IPv4 and IPv6 texts, \<open>Is4\<close>,
  \<open>Compare\<close> and the use of addresses as map keys (structural equality). A parse failure is \<open>None\<close>;
  the callers only ask whether there was an error. IPv6 is modelled too: the pool webhook must reject
  such addresses, and the comparison of interfaces orders them after all IPv4 addresses.

  The main facts: an IPv4 text parses exactly if it is a dotted quad of decimal octets without
  leading zeros (\<open>ParseAddr_Addr4_iff\<close>), so equal addresses have equal texts, and \<open>Compare\<close> is a
  linear order (an instance of \<open>linorder\<close>).
\<close>

datatype Addr = Addr4 "32 word" | Addr6 "128 word" string

fun Is4 :: "Addr \<Rightarrow> bool" where
  "Is4 (Addr4 _) = True"
| "Is4 (Addr6 _ _) = False"

section \<open>IPv4 texts\<close>

definition is_digit :: "char \<Rightarrow> bool" where
  "is_digit c \<longleftrightarrow> CHR ''0'' \<le> c \<and> c \<le> CHR ''9''"

definition digit_val :: "char \<Rightarrow> int" where
  "digit_val c = of_char c - 48"

text \<open>
  The loop of \<open>parseIPv4Fields\<close>: \<open>prev\<close> is the character before the current one, \<open>fields\<close> the
  octets completed so far.
\<close>

fun parseIPv4Fields :: "char option \<Rightarrow> int \<Rightarrow> nat \<Rightarrow> int list \<Rightarrow> string \<Rightarrow> int list option" where
  "parseIPv4Fields prev val digLen fields [] =
     (if length fields < 3 then None else Some (fields @ [val]))"
| "parseIPv4Fields prev val digLen fields (c # cs) =
     (if is_digit c then
        if digLen = 1 \<and> val = 0 then None
        else if val * 10 + digit_val c > 255 then None
        else parseIPv4Fields (Some c) (val * 10 + digit_val c) (digLen + 1) fields cs
      else if c = CHR ''.'' then
        if prev = None \<or> cs = [] \<or> prev = Some (CHR ''.'') then None
        else if length fields = 3 then None
        else parseIPv4Fields (Some c) 0 0 (fields @ [val]) cs
      else None)"

definition bytes_to_int :: "int list \<Rightarrow> int" where
  "bytes_to_int = foldl (\<lambda>n b. n * 256 + b) 0"

definition parseIPv4 :: "string \<Rightarrow> Addr option" where
  "parseIPv4 s = (case parseIPv4Fields None 0 0 [] s of
     None \<Rightarrow> None | Some fields \<Rightarrow> Some (Addr4 (word_of_int (bytes_to_int fields))))"

section \<open>IPv6 texts\<close>

definition hex_val :: "char \<Rightarrow> int option" where
  "hex_val c =
     (if is_digit c then Some (digit_val c)
      else if CHR ''a'' \<le> c \<and> c \<le> CHR ''f'' then Some (of_char c - 97 + 10)
      else if CHR ''A'' \<le> c \<and> c \<le> CHR ''F'' then Some (of_char c - 65 + 10)
      else None)"

text \<open>One group of hexadecimal digits: its value, its number of digits and what follows it.\<close>

fun hex_group :: "nat \<Rightarrow> int \<Rightarrow> string \<Rightarrow> (int \<times> nat \<times> string) option" where
  "hex_group off acc [] = Some (acc, off, [])"
| "hex_group off acc (c # cs) = (case hex_val c of
     None \<Rightarrow> Some (acc, off, c # cs)
   | Some v \<Rightarrow>
       if off > 3 then None
       else if acc * 16 + v > 65535 then None
       else hex_group (off + 1) (acc * 16 + v) cs)"

text \<open>
  The main loop of \<open>parseIPv6\<close>: the bytes so far, the position of the ellipsis and the rest of the
  text; it returns them when the loop stops.
\<close>

function parse6_loop ::
  "int list \<Rightarrow> nat option \<Rightarrow> string \<Rightarrow> (int list \<times> nat option \<times> string) option" where
  "parse6_loop ip ell s =
     (if length ip \<ge> 16 then Some (ip, ell, s)
      else case hex_group 0 0 s of
        None \<Rightarrow> None
      | Some (acc, off, r) \<Rightarrow>
          if off = 0 then None
          else if r \<noteq> [] \<and> hd r = CHR ''.'' then
            if ell = None \<and> length ip \<noteq> 12 then None
            else if length ip + 4 > 16 then None
            else (case parseIPv4Fields None 0 0 [] s of
                None \<Rightarrow> None | Some fields \<Rightarrow> Some (ip @ fields, ell, []))
          else
            let ip' = ip @ [acc div 256, acc mod 256] in
            case r of
              [] \<Rightarrow> Some (ip', ell, [])
            | c # r1 \<Rightarrow>
                if c \<noteq> CHR '':'' \<or> r1 = [] then None
                else if hd r1 = CHR '':'' then
                  if ell \<noteq> None then None
                  else if tl r1 = [] then Some (ip', Some (length ip'), [])
                  else parse6_loop ip' (Some (length ip')) (tl r1)
                else parse6_loop ip' ell r1)"
  by pat_completeness auto
termination
  by (relation "measure (\<lambda>(ip, ell, s). 16 - length ip)") auto

declare parse6_loop.simps [simp del]

definition parse6_finish :: "int list \<times> nat option \<times> string \<Rightarrow> int list option" where
  "parse6_finish r = (case r of (ip, ell, s) \<Rightarrow>
     if s \<noteq> [] then None
     else if length ip < 16 then
       (case ell of None \<Rightarrow> None
        | Some e \<Rightarrow> Some (take e ip @ replicate (16 - length ip) 0 @ drop e ip))
     else if ell \<noteq> None then None
     else Some ip)"

definition parseIPv6 :: "string \<Rightarrow> Addr option" where
  "parseIPv6 txt =
     (let s = takeWhile (\<lambda>c. c \<noteq> CHR ''%'') txt;
          rest = dropWhile (\<lambda>c. c \<noteq> CHR ''%'') txt;
          zone = tl rest
      in if rest \<noteq> [] \<and> zone = [] then None
         else if take 2 s = ''::'' \<and> drop 2 s = [] then Some (Addr6 0 zone)
         else
           let start = (if take 2 s = ''::'' then parse6_loop [] (Some 0) (drop 2 s)
                        else parse6_loop [] None s)
           in case start of None \<Rightarrow> None
              | Some r \<Rightarrow> (case parse6_finish r of None \<Rightarrow> None
                  | Some ip \<Rightarrow> Some (Addr6 (word_of_int (bytes_to_int ip)) zone)))"

section \<open>ParseAddr\<close>

text \<open>The first of the three separators decides which syntax the text is read in.\<close>

fun ParseAddr_scan :: "string \<Rightarrow> string \<Rightarrow> Addr option" where
  "ParseAddr_scan s [] = None"
| "ParseAddr_scan s (c # cs) =
     (if c = CHR ''.'' then parseIPv4 s
      else if c = CHR '':'' then parseIPv6 s
      else if c = CHR ''%'' then None
      else ParseAddr_scan s cs)"

definition ParseAddr :: "string \<Rightarrow> Addr option" where
  "ParseAddr s = ParseAddr_scan s s"

lemma parseIPv4_not_Addr6: "parseIPv4 s \<noteq> Some (Addr6 w z)"
  by (simp add: parseIPv4_def split: option.splits)

lemma parseIPv6_not_Addr4: "parseIPv6 s \<noteq> Some (Addr4 w)"
  by (auto simp: parseIPv6_def Let_def split: option.splits)

lemma ParseAddr_scan_Addr4: "ParseAddr_scan s t = Some (Addr4 w) \<Longrightarrow> parseIPv4 s = Some (Addr4 w)"
  by (induction t) (auto simp: parseIPv6_not_Addr4 split: if_splits)

section \<open>Which texts are IPv4 addresses\<close>

text \<open>Decimal notation without leading zeros, and dotted quads of it.\<close>

definition digit_char :: "int \<Rightarrow> char" where
  "digit_char d = char_of (48 + d)"

function decimal :: "int \<Rightarrow> string" where
  "decimal n = (if n < 10 then [digit_char n] else decimal (n div 10) @ [digit_char (n mod 10)])"
  by pat_completeness auto
termination
  by (relation "measure nat") auto

declare decimal.simps [simp del]

definition octet :: "int \<Rightarrow> bool" where
  "octet n \<longleftrightarrow> 0 \<le> n \<and> n \<le> 255"

fun dotted :: "int list \<Rightarrow> string" where
  "dotted [] = []"
| "dotted [n] = decimal n"
| "dotted (n # ns) = decimal n @ CHR ''.'' # dotted ns"

lemma digit_cases:
  assumes "0 \<le> d" "d < (10::int)"
  obtains "d = 0" | "d = 1" | "d = 2" | "d = 3" | "d = 4" | "d = 5" | "d = 6" | "d = 7" | "d = 8" | "d = 9"
proof -
  from assms have "d = 0 \<or> d = 1 \<or> d = 2 \<or> d = 3 \<or> d = 4 \<or> d = 5 \<or> d = 6 \<or> d = 7 \<or> d = 8 \<or> d = 9"
    by presburger
  with that show thesis by blast
qed

lemma is_digit_of_char: "is_digit c \<longleftrightarrow> 48 \<le> (of_char c :: int) \<and> (of_char c :: int) \<le> 57"
proof -
  have "(CHR ''0'' \<le> c) = ((of_char (CHR ''0'') :: nat) \<le> of_char c)"
    and "(c \<le> CHR ''9'') = ((of_char c :: nat) \<le> of_char (CHR ''9''))"
    by (simp_all only: less_eq_char_def)
  moreover have "(of_char c :: int) = int (of_char c)"
    by (rule of_nat_of_char [symmetric])
  ultimately show ?thesis
    by (simp add: is_digit_def del: of_nat_of_char)
qed

lemma digit_val_bounds: "is_digit c \<Longrightarrow> 0 \<le> digit_val c \<and> digit_val c < 10"
  by (simp add: is_digit_of_char digit_val_def)

lemma digit_char_val: "is_digit c \<Longrightarrow> digit_char (digit_val c) = c"
  by (simp add: digit_char_def digit_val_def)

lemma digit_char_props:
  assumes "0 \<le> d" "d < 10"
  shows "is_digit (digit_char d)" "digit_val (digit_char d) = d"
  using assms by (auto elim!: digit_cases simp: digit_char_def is_digit_of_char digit_val_def)

lemma separators_not_digit [simp]:
  "\<not> is_digit (CHR ''.'')" "\<not> is_digit (CHR '':'')" "\<not> is_digit (CHR ''%'')"
  by (simp_all add: is_digit_def)

lemma decimal_small: "n < 10 \<Longrightarrow> decimal n = [digit_char n]"
  by (simp add: decimal.simps)

lemma decimal_snoc:
  assumes "1 \<le> n" "0 \<le> d" "d < 10"
  shows "decimal (n * 10 + d) = decimal n @ [digit_char d]"
  using assms by (subst decimal.simps) (simp add: decimal_small)

lemma decimal_nonempty: "decimal n \<noteq> []"
  by (subst decimal.simps) simp

text \<open>Reading a decimal number that fits an octet.\<close>

lemma read_decimal:
  assumes "octet n"
  shows "\<exists>c. is_digit c \<and> parseIPv4Fields prev 0 0 fs (decimal n @ r) =
     parseIPv4Fields (Some c) n (length (decimal n)) fs r"
  using assms
proof (induction n arbitrary: r rule: decimal.induct)
  case (1 n)
  show ?case
  proof (cases "n < 10")
    case True
    with "1.prems" have "0 \<le> n" by (simp add: octet_def)
    with True show ?thesis
      by (intro exI [of _ "digit_char n"]) (simp add: decimal_small digit_char_props octet_def)
  next
    case False
    let ?q = "n div 10" and ?c = "digit_char (n mod 10)"
    from False "1.prems" have q: "1 \<le> ?q" "octet ?q" by (auto simp: octet_def)
    have c: "is_digit ?c" "digit_val ?c = n mod 10" by (simp_all add: digit_char_props)
    from "1.IH" [OF False q(2), of "?c # r"]
    have "parseIPv4Fields prev 0 0 fs (decimal n @ r) =
        parseIPv4Fields (Some ?c) n (length (decimal n)) fs r"
      using False q c "1.prems"
      by (subst (1 2) decimal.simps) (auto simp: octet_def)
    with c show ?thesis by blast
  qed
qed

lemma decimal_starts_digit:
  "0 \<le> n \<Longrightarrow> \<exists>c r. decimal n = c # r \<and> is_digit c"
proof (induction n rule: decimal.induct)
  case (1 n)
  show ?case
  proof (cases "n < 10")
    case True
    with "1.prems" show ?thesis by (simp add: decimal_small digit_char_props)
  next
    case False
    from "1.prems" have "0 \<le> n div 10" by simp
    with False "1.IH" obtain c r where "decimal (n div 10) = c # r" "is_digit c" by blast
    with False show ?thesis by (simp add: decimal.simps [of n])
  qed
qed

text \<open>Reading a dotted quad: each octet in turn, the dot needing a digit before and text after it.\<close>

lemma parse_dotted:
  assumes "octet a" "octet b" "octet c" "octet d"
  shows "parseIPv4Fields None 0 0 [] (dotted [a, b, c, d]) = Some [a, b, c, d]"
proof -
  have next_octet: "parseIPv4Fields (Some x) n k fs (CHR ''.'' # decimal m @ r) =
      parseIPv4Fields (Some (CHR ''.'')) 0 0 (fs @ [n]) (decimal m @ r)"
    if "is_digit x" "length fs < 3" for x n k fs m r
    using that by (auto simp: decimal_nonempty)
  have step: "\<exists>y. is_digit y \<and> parseIPv4Fields (Some x) n k fs (CHR ''.'' # decimal m @ r) =
      parseIPv4Fields (Some y) m (length (decimal m)) (fs @ [n]) r"
    if "is_digit x" "length fs < 3" "octet m" for x n k fs m r
    using read_decimal [OF that(3)] next_octet [OF that(1,2)] by auto
  obtain x where x: "is_digit x" "parseIPv4Fields None 0 0 [] (dotted [a, b, c, d]) =
      parseIPv4Fields (Some x) a (length (decimal a)) []
        (CHR ''.'' # decimal b @ CHR ''.'' # decimal c @ CHR ''.'' # decimal d)"
    using read_decimal [OF assms(1), of None "[]" "CHR ''.'' # decimal b @ CHR ''.'' # decimal c @ CHR ''.'' # decimal d"]
    by (auto simp del: parseIPv4Fields.simps)
  obtain y where y: "is_digit y" "parseIPv4Fields None 0 0 [] (dotted [a, b, c, d]) =
      parseIPv4Fields (Some y) b (length (decimal b)) [a] (CHR ''.'' # decimal c @ CHR ''.'' # decimal d)"
    using step [OF x(1) _ assms(2), of "[]" a "length (decimal a)" "CHR ''.'' # decimal c @ CHR ''.'' # decimal d"] x(2)
    by (auto simp del: parseIPv4Fields.simps)
  obtain z where z: "is_digit z" "parseIPv4Fields None 0 0 [] (dotted [a, b, c, d]) =
      parseIPv4Fields (Some z) c (length (decimal c)) [a, b] (CHR ''.'' # decimal d @ [])"
    using step [OF y(1) _ assms(3), of "[a]" b "length (decimal b)" "CHR ''.'' # decimal d"] y(2)
    by (auto simp del: parseIPv4Fields.simps)
  obtain u where "parseIPv4Fields None 0 0 [] (dotted [a, b, c, d]) =
      parseIPv4Fields (Some u) d (length (decimal d)) [a, b, c] []"
    using step [OF z(1) _ assms(4), of "[a, b]" c "length (decimal c)" "[]"] z(2)
    by (auto simp del: parseIPv4Fields.simps)
  then show ?thesis by simp
qed

text \<open>
  Conversely, what the loop accepts is a dotted quad. The octet being read is either empty (at the
  start or after a dot) or the decimal text of \<open>val\<close>.
\<close>

definition reading :: "char option \<Rightarrow> int \<Rightarrow> nat \<Rightarrow> string \<Rightarrow> bool" where
  "reading prev val digLen ds \<longleftrightarrow>
     (digLen = 0 \<and> val = 0 \<and> ds = [] \<and> (prev = None \<or> prev = Some (CHR ''.''))) \<or>
     (digLen = length ds \<and> 0 < digLen \<and> octet val \<and> ds = decimal val \<and>
      (\<exists>c. prev = Some c \<and> is_digit c))"

lemma reading_digit:
  assumes "reading prev val digLen ds" "is_digit c" "\<not> (digLen = 1 \<and> val = 0)"
    "val * 10 + digit_val c \<le> 255"
  shows "reading (Some c) (val * 10 + digit_val c) (digLen + 1) (ds @ [c])"
proof (cases "digLen = 0")
  case True
  with assms digit_val_bounds [OF assms(2)] show ?thesis
    by (simp add: reading_def octet_def decimal_small digit_char_val)
next
  case False
  with assms(1) have r: "digLen = length ds" "octet val" "ds = decimal val" by (auto simp: reading_def)
  have "val \<noteq> 0"
  proof
    assume "val = 0"
    with r have "digLen = 1" by (simp add: decimal_small)
    with \<open>val = 0\<close> assms(3) show False by simp
  qed
  with r digit_val_bounds [OF assms(2)] decimal_snoc [of val "digit_val c"] assms(2,4) show ?thesis
    by (auto simp: reading_def octet_def digit_char_val)
qed

lemma parse_accepts_dotted:
  assumes "parseIPv4Fields prev val digLen fs s = Some gs" "reading prev val digLen ds"
    "length fs \<le> 3" "digLen = 0 \<Longrightarrow> s = [] \<Longrightarrow> length fs < 3"
  shows "\<exists>ns. gs = fs @ ns \<and> length gs = 4 \<and> list_all octet ns \<and> ds @ s = dotted ns"
  using assms
proof (induction prev val digLen fs s arbitrary: ds rule: parseIPv4Fields.induct)
  case (1 prev val digLen fs)
  then have "length fs = 3" "gs = fs @ [val]" "digLen \<noteq> 0" by (auto split: if_splits)
  with "1.prems"(2) show ?case
    by (intro exI [of _ "[val]"]) (simp add: reading_def)
next
  case (2 prev val digLen fs c cs)
  show ?case
  proof (cases "is_digit c")
    case True
    with "2.prems"(1) have c: "\<not> (digLen = 1 \<and> val = 0)" "\<not> val * 10 + digit_val c > 255"
      "parseIPv4Fields (Some c) (val * 10 + digit_val c) (digLen + 1) fs cs = Some gs"
      by (auto split: if_splits)
    from "2.IH"(1) [OF True c(1,2,3) reading_digit [OF "2.prems"(2) True c(1)]] c(2) "2.prems"(3)
    show ?thesis by auto
  next
    case False
    with "2.prems"(1) have c: "c = CHR ''.''" "\<not> (prev = None \<or> cs = [] \<or> prev = Some (CHR ''.''))"
      "length fs \<noteq> 3" "parseIPv4Fields (Some c) 0 0 (fs @ [val]) cs = Some gs"
      by (auto split: if_splits)
    have "reading (Some c) 0 0 []" using c(1) by (simp add: reading_def)
    from "2.IH"(2) [OF False c(1,2,3,4) this] c(2,3) "2.prems"(3)
    obtain ns where ns: "gs = (fs @ [val]) @ ns" "length gs = 4" "list_all octet ns" "cs = dotted ns"
      by auto
    from c(2) "2.prems"(2) have val: "octet val" "ds = decimal val" by (auto simp: reading_def)
    from ns(1,2) c(3) "2.prems"(3) have "ns \<noteq> []" by auto
    then have "dotted (val # ns) = decimal val @ CHR ''.'' # dotted ns" by (cases ns) simp_all
    with ns val c(1) show ?thesis by (intro exI [of _ "val # ns"]) simp
  qed
qed

lemma ParseAddr_scan_decimal:
  "0 \<le> n \<Longrightarrow> ParseAddr_scan s (decimal n @ r) = ParseAddr_scan s r"
proof (induction n arbitrary: r rule: decimal.induct)
  case (1 n)
  have digit: "ParseAddr_scan s (digit_char d # r) = ParseAddr_scan s r" if "0 \<le> d" "d < 10" for d r
    using digit_char_props(1) [OF that] by auto
  show ?case
  proof (cases "n < 10")
    case True
    from digit [OF "1.prems" True] True show ?thesis
      by (simp add: decimal_small del: ParseAddr_scan.simps)
  next
    case False
    then have q: "0 \<le> n div 10" by simp
    have "ParseAddr_scan s (decimal n @ r) = ParseAddr_scan s (decimal (n div 10) @ digit_char (n mod 10) # r)"
      using False by (simp add: decimal.simps [of n])
    also have "\<dots> = ParseAddr_scan s (digit_char (n mod 10) # r)" by (rule "1.IH" [OF False q])
    also have "\<dots> = ParseAddr_scan s r" by (rule digit) simp_all
    finally show ?thesis .
  qed
qed

theorem ParseAddr_Addr4_iff:
  "ParseAddr s = Some (Addr4 w) \<longleftrightarrow>
     (\<exists>ns. length ns = 4 \<and> list_all octet ns \<and> s = dotted ns \<and> w = word_of_int (bytes_to_int ns))"
proof
  assume "ParseAddr s = Some (Addr4 w)"
  then have "parseIPv4 s = Some (Addr4 w)" by (simp add: ParseAddr_def ParseAddr_scan_Addr4)
  then obtain gs where gs: "parseIPv4Fields None 0 0 [] s = Some gs" "w = word_of_int (bytes_to_int gs)"
    by (auto simp: parseIPv4_def split: option.splits)
  have "reading None 0 0 []" by (simp add: reading_def)
  from parse_accepts_dotted [OF gs(1) this] gs(2)
  show "\<exists>ns. length ns = 4 \<and> list_all octet ns \<and> s = dotted ns \<and> w = word_of_int (bytes_to_int ns)"
    by auto
next
  assume "\<exists>ns. length ns = 4 \<and> list_all octet ns \<and> s = dotted ns \<and> w = word_of_int (bytes_to_int ns)"
  then obtain ns where len: "length ns = 4" and ns: "list_all octet ns" "s = dotted ns"
    "w = word_of_int (bytes_to_int ns)" by blast
  from len obtain a b c d where abcd: "ns = [a, b, c, d]"
    by (auto simp: length_Suc_conv numeral_eq_Suc)
  with ns have "parseIPv4 s = Some (Addr4 w)" by (simp add: parseIPv4_def parse_dotted del: dotted.simps)
  moreover from ns(1) abcd have "0 \<le> a" by (simp add: octet_def)
  then have "ParseAddr_scan s s = parseIPv4 s" using ns(2) abcd by (simp add: ParseAddr_scan_decimal)
  ultimately show "ParseAddr s = Some (Addr4 w)" by (simp add: ParseAddr_def)
qed

section \<open>Addresses as numbers\<close>

lemma bytes_to_int_4: "bytes_to_int [a, b, c, d] = ((a * 256 + b) * 256 + c) * 256 + d"
  by (simp add: bytes_to_int_def)

lemma length_4_conv: "length ns = 4 \<longleftrightarrow> (\<exists>a b c d. ns = [a, b, c, d])"
  by (auto simp: length_Suc_conv numeral_eq_Suc)

lemma uint_quad:
  assumes "length ns = 4" "list_all octet ns"
  shows "uint (word_of_int (bytes_to_int ns) :: 32 word) = bytes_to_int ns"
proof -
  from assms obtain a b c d where ns: "ns = [a, b, c, d]" "octet a" "octet b" "octet c" "octet d"
    by (auto simp: length_4_conv)
  then have "0 \<le> bytes_to_int ns" "bytes_to_int ns < 2 ^ 32" by (simp_all add: bytes_to_int_4 octet_def)
  then show ?thesis by (simp add: uint_word_of_int take_bit_int_eq_self)
qed

text \<open>The big-endian number of a quad orders as the octets do, first octet first.\<close>

lemma quad_less_iff:
  assumes "length ns = 4" "list_all octet ns" "length ms = 4" "list_all octet ms"
  shows "bytes_to_int ns < bytes_to_int ms \<longleftrightarrow> ns < ms"
proof -
  from assms obtain a b c d where ns: "ns = [a, b, c, d]" "octet a" "octet b" "octet c" "octet d"
    by (auto simp: length_4_conv)
  from assms obtain a' b' c' d' where ms: "ms = [a', b', c', d']" "octet a'" "octet b'" "octet c'" "octet d'"
    by (auto simp: length_4_conv)
  from ns ms show ?thesis by (auto simp: bytes_to_int_4 octet_def)
qed

lemma quad_inj:
  assumes "length ns = 4" "list_all octet ns" "length ms = 4" "list_all octet ms"
    "bytes_to_int ns = bytes_to_int ms"
  shows "ns = ms"
  using quad_less_iff [OF assms(1-4)] quad_less_iff [OF assms(3,4,1,2)] assms(5) by simp

lemma ParseAddr_Addr4_inj:
  assumes "ParseAddr s = Some (Addr4 w)" "ParseAddr t = Some (Addr4 w)"
  shows "s = t"
proof -
  obtain ns ms where ns: "length ns = 4" "list_all octet ns" "s = dotted ns" "w = word_of_int (bytes_to_int ns)"
    and ms: "length ms = 4" "list_all octet ms" "t = dotted ms" "w = word_of_int (bytes_to_int ms)"
    using assms by (auto simp: ParseAddr_Addr4_iff)
  from ns(4) ms(4) uint_quad [OF ns(1,2)] uint_quad [OF ms(1,2)] have "bytes_to_int ns = bytes_to_int ms" by simp
  with quad_inj [OF ns(1,2) ms(1,2)] ns(3) ms(3) show ?thesis by simp
qed

section \<open>Comparison\<close>

definition cmp3 :: "'a::linorder \<Rightarrow> 'a \<Rightarrow> int" where
  "cmp3 a b = (if a < b then -1 else if b < a then 1 else 0)"

lemma cmp3_neg [simp]: "cmp3 a b < 0 \<longleftrightarrow> a < b"
  by (auto simp: cmp3_def)

text \<open>\<open>Addr.Compare\<close>: by bit length, then by value, then (IPv6) by zone.\<close>

fun Addr_Compare :: "Addr \<Rightarrow> Addr \<Rightarrow> int" where
  "Addr_Compare (Addr4 v) (Addr4 w) = cmp3 v w"
| "Addr_Compare (Addr4 _) (Addr6 _ _) = -1"
| "Addr_Compare (Addr6 _ _) (Addr4 _) = 1"
| "Addr_Compare (Addr6 v z) (Addr6 w z') = (if v \<noteq> w then cmp3 v w else cmp3 z z')"

instantiation Addr :: linorder
begin

definition less_eq_Addr :: "Addr \<Rightarrow> Addr \<Rightarrow> bool" where
  "less_eq_Addr a b \<longleftrightarrow> Addr_Compare a b \<le> 0"

definition less_Addr :: "Addr \<Rightarrow> Addr \<Rightarrow> bool" where
  "less_Addr a b \<longleftrightarrow> Addr_Compare a b < 0"

instance
proof
  fix a b c :: Addr
  show "a < b \<longleftrightarrow> a \<le> b \<and> \<not> b \<le> a"
    by (cases a; cases b) (auto simp: less_eq_Addr_def less_Addr_def cmp3_def)
  show "a \<le> a" by (cases a) (auto simp: less_eq_Addr_def cmp3_def)
  show "a \<le> b \<Longrightarrow> b \<le> c \<Longrightarrow> a \<le> c"
    by (cases a; cases b; cases c) (auto simp: less_eq_Addr_def cmp3_def split: if_splits)
  show "a \<le> b \<Longrightarrow> b \<le> a \<Longrightarrow> a = b"
    by (cases a; cases b) (auto simp: less_eq_Addr_def cmp3_def split: if_splits)
  show "a \<le> b \<or> b \<le> a"
    by (cases a; cases b) (auto simp: less_eq_Addr_def cmp3_def split: if_splits)
qed

end

lemma Addr4_less_iff [simp]: "Addr4 v < Addr4 w \<longleftrightarrow> v < w"
  by (simp add: less_Addr_def cmp3_def)

lemma Addr_Compare_neg: "Addr_Compare a b < 0 \<longleftrightarrow> a < b"
  by (simp add: less_Addr_def)

lemma Addr4_quad_less:
  assumes "length ns = 4" "list_all octet ns" "length ms = 4" "list_all octet ms"
  shows "Addr4 (word_of_int (bytes_to_int ns)) < Addr4 (word_of_int (bytes_to_int ms)) \<longleftrightarrow> ns < ms"
  using uint_quad [OF assms(1,2)] uint_quad [OF assms(3,4)] quad_less_iff [OF assms]
  by (simp add: word_less_def)

end
