(* ===== verification/Api_Types.thy ===== *)
theory Api_Types
  imports Prelude
begin

text \<open>
  The data of the API group \<^verbatim>\<open>networking.dcn.ssu.ac.kr/v1alpha1\<close>
  (\<^verbatim>\<open>api/v1alpha1/eniclaim_types.go\<close>, \<^verbatim>\<open>enipool_types.go\<close>, \<^verbatim>\<open>constants.go\<close>), the
  validation its kubebuilder markers put on the CRDs, and the fields of the Kubernetes and Cluster
  API objects the controller reads or writes. Go struct values are records, so \<open>DeepCopy\<close> and
  assignment of a struct are the identity here; \<open>Generated_Copies\<close> and \<open>Go_Slices\<close> treat the places where backing
  arrays are shared. Open string enums (\<open>ExhaustionPolicy\<close>, \<open>ENIClaimPhase\<close>, \<open>ENIState\<close>) stay
  strings, because the code compares them as strings and has default branches for other values.
\<close>

section \<open>Constants\<close>

definition AllocateFromPoolAnnotation :: string where
  "AllocateFromPoolAnnotation = ''eni.dcn.ssu.ac.kr/allocate-from-pool''"
definition InterfaceKeyAnnotation :: string where
  "InterfaceKeyAnnotation = ''eni.dcn.ssu.ac.kr/interface-key''"
definition AllocatorPausedAnnotation :: string where
  "AllocatorPausedAnnotation = ''eni.dcn.ssu.ac.kr/allocator-paused''"
definition AllocationResultAnnotation :: string where
  "AllocationResultAnnotation = ''eni.dcn.ssu.ac.kr/allocation-result''"
definition AllocationReasonAnnotation :: string where
  "AllocationReasonAnnotation = ''eni.dcn.ssu.ac.kr/allocation-reason''"
definition CAPPausedAnnotation :: string where
  "CAPPausedAnnotation = ''cluster.x-k8s.io/paused''"
definition ClaimFinalizer :: string where
  "ClaimFinalizer = ''eniclaim.networking.dcn.ssu.ac.kr''"

definition AllocationResultAllocated :: string where
  "AllocationResultAllocated = ''Allocated''"
definition AllocationResultDynamicFallback :: string where
  "AllocationResultDynamicFallback = ''DynamicFallback''"
definition AllocationResultFailed :: string where
  "AllocationResultFailed = ''Failed''"

lemmas annotation_defs =
  AllocateFromPoolAnnotation_def InterfaceKeyAnnotation_def AllocatorPausedAnnotation_def
  AllocationResultAnnotation_def AllocationReasonAnnotation_def CAPPausedAnnotation_def

lemmas result_defs =
  AllocationResultAllocated_def AllocationResultDynamicFallback_def AllocationResultFailed_def

text \<open>The keys are pairwise different, so writing one annotation never disturbs another.\<close>

lemma annotation_keys_distinct:
  "distinct [AllocateFromPoolAnnotation, InterfaceKeyAnnotation, AllocatorPausedAnnotation,
     AllocationResultAnnotation, AllocationReasonAnnotation, CAPPausedAnnotation]"
  by (simp add: annotation_defs)

lemma annotation_keys_neq [simp]:
  "AllocateFromPoolAnnotation \<noteq> InterfaceKeyAnnotation"
  "AllocateFromPoolAnnotation \<noteq> AllocatorPausedAnnotation"
  "AllocateFromPoolAnnotation \<noteq> AllocationResultAnnotation"
  "AllocateFromPoolAnnotation \<noteq> AllocationReasonAnnotation"
  "AllocateFromPoolAnnotation \<noteq> CAPPausedAnnotation"
  "InterfaceKeyAnnotation \<noteq> AllocatorPausedAnnotation"
  "InterfaceKeyAnnotation \<noteq> AllocationResultAnnotation"
  "InterfaceKeyAnnotation \<noteq> AllocationReasonAnnotation"
  "InterfaceKeyAnnotation \<noteq> CAPPausedAnnotation"
  "AllocatorPausedAnnotation \<noteq> AllocationResultAnnotation"
  "AllocatorPausedAnnotation \<noteq> AllocationReasonAnnotation"
  "AllocatorPausedAnnotation \<noteq> CAPPausedAnnotation"
  "AllocationResultAnnotation \<noteq> AllocationReasonAnnotation"
  "AllocationResultAnnotation \<noteq> CAPPausedAnnotation"
  "AllocationReasonAnnotation \<noteq> CAPPausedAnnotation"
  using annotation_keys_distinct by auto

lemmas annotation_keys_neq_sym [simp] = annotation_keys_neq [symmetric]

lemma result_values_neq [simp]:
  "AllocationResultAllocated \<noteq> ''''"
  "AllocationResultDynamicFallback \<noteq> ''''"
  "AllocationResultFailed \<noteq> ''''"
  "AllocationResultAllocated \<noteq> AllocationResultDynamicFallback"
  "AllocationResultAllocated \<noteq> AllocationResultFailed"
  "AllocationResultDynamicFallback \<noteq> AllocationResultFailed"
  by (simp_all add: result_defs)

section \<open>Object metadata and conditions\<close>

text \<open>The fields of \<^verbatim>\<open>metav1.ObjectMeta\<close>, \<^verbatim>\<open>metav1.OwnerReference\<close> and \<^verbatim>\<open>metav1.Condition\<close> in use.\<close>

record OwnerReference =
  owner_APIVersion :: string
  owner_Kind :: string
  owner_Name :: string

record ObjectMeta =
  m_name :: string
  m_namespace :: string
  m_generation :: int
  m_creationTimestamp :: instant
  m_deletionTimestamp :: "instant option"
  m_annotations :: go_map
  m_labels :: go_map
  m_finalizers :: "string list"
  m_ownerReferences :: "OwnerReference list"

definition ConditionTrue :: string where "ConditionTrue = ''True''"
definition ConditionFalse :: string where "ConditionFalse = ''False''"

record Condition =
  cond_Type :: string
  cond_Status :: string
  cond_Reason :: string
  cond_Message :: string
  cond_ObservedGeneration :: int

section \<open>ENIClaim\<close>

record NamespacedObjectReference =
  nref_namespace :: string
  nref_name :: string

record ClusterObjectReference =
  cref_name :: string

record ENIClaimSpec =
  cs_machineRef :: NamespacedObjectReference
  cs_poolRef :: ClusterObjectReference
  cs_eniID :: string

type_synonym ENIClaimPhase = string

definition ENIClaimPhasePending :: ENIClaimPhase where "ENIClaimPhasePending = ''Pending''"
definition ENIClaimPhaseBound :: ENIClaimPhase where "ENIClaimPhaseBound = ''Bound''"
definition ENIClaimPhaseReleasing :: ENIClaimPhase where "ENIClaimPhaseReleasing = ''Releasing''"
definition ENIClaimPhaseFailed :: ENIClaimPhase where "ENIClaimPhaseFailed = ''Failed''"

record ENIClaimStatus =
  cst_phase :: ENIClaimPhase
  cst_privateIP :: string
  cst_conditions :: "Condition list"

record ENIClaim =
  claim_meta :: ObjectMeta
  claim_spec :: ENIClaimSpec
  claim_status :: ENIClaimStatus

abbreviation claim_name :: "ENIClaim \<Rightarrow> string" where
  "claim_name c \<equiv> m_name (claim_meta c)"
abbreviation claim_eni :: "ENIClaim \<Rightarrow> string" where
  "claim_eni c \<equiv> cs_eniID (claim_spec c)"
abbreviation claim_machine :: "ENIClaim \<Rightarrow> NamespacedObjectReference" where
  "claim_machine c \<equiv> cs_machineRef (claim_spec c)"
abbreviation claim_pool :: "ENIClaim \<Rightarrow> string" where
  "claim_pool c \<equiv> cref_name (cs_poolRef (claim_spec c))"
abbreviation claim_finalizers :: "ENIClaim \<Rightarrow> string list" where
  "claim_finalizers c \<equiv> m_finalizers (claim_meta c)"

section \<open>ENIPool\<close>

record ENIReference =
  ref_key :: string
  ref_id :: string
  ref_privateIP :: string

type_synonym ExhaustionPolicy = string

definition ExhaustionPolicyDynamic :: ExhaustionPolicy where "ExhaustionPolicyDynamic = ''Dynamic''"
definition ExhaustionPolicyWait :: ExhaustionPolicy where "ExhaustionPolicyWait = ''Wait''"
definition ExhaustionPolicyFail :: ExhaustionPolicy where "ExhaustionPolicyFail = ''Fail''"

record ENIPoolSpec =
  ps_region :: string
  ps_vpcID :: string
  ps_interfaces :: "ENIReference list"
  ps_exhaustionPolicy :: ExhaustionPolicy

type_synonym ENIState = string

definition ENIStateAvailable :: ENIState where "ENIStateAvailable = ''Available''"
definition ENIStateClaimed :: ENIState where "ENIStateClaimed = ''Claimed''"
definition ENIStateInvalid :: ENIState where "ENIStateInvalid = ''Invalid''"

record ENIObservation =
  obs_key :: string
  obs_id :: string
  obs_availabilityZone :: string
  obs_subnetID :: string
  obs_privateIP :: string
  obs_state :: ENIState
  obs_claimRef :: "NamespacedObjectReference option"
  obs_message :: string

record ENIPoolStatus =
  pst_observedGeneration :: int
  pst_interfaces :: "ENIObservation list"
  pst_conditions :: "Condition list"

record ENIPool =
  pool_meta :: ObjectMeta
  pool_spec :: ENIPoolSpec
  pool_status :: ENIPoolStatus

abbreviation pool_name :: "ENIPool \<Rightarrow> string" where
  "pool_name p \<equiv> m_name (pool_meta p)"
abbreviation pool_region :: "ENIPool \<Rightarrow> string" where
  "pool_region p \<equiv> ps_region (pool_spec p)"
abbreviation pool_vpcID :: "ENIPool \<Rightarrow> string" where
  "pool_vpcID p \<equiv> ps_vpcID (pool_spec p)"
abbreviation pool_interfaces :: "ENIPool \<Rightarrow> ENIReference list" where
  "pool_interfaces p \<equiv> ps_interfaces (pool_spec p)"

lemmas policy_defs =
  ExhaustionPolicyDynamic_def ExhaustionPolicyWait_def ExhaustionPolicyFail_def
lemmas phase_defs =
  ENIClaimPhasePending_def ENIClaimPhaseBound_def ENIClaimPhaseReleasing_def ENIClaimPhaseFailed_def
lemmas state_defs = ENIStateAvailable_def ENIStateClaimed_def ENIStateInvalid_def

lemma policy_neq [simp]:
  "ExhaustionPolicyDynamic \<noteq> ''''"
  "ExhaustionPolicyWait \<noteq> ExhaustionPolicyFail" "ExhaustionPolicyFail \<noteq> ExhaustionPolicyWait"
  "ExhaustionPolicyDynamic \<noteq> ExhaustionPolicyWait" "ExhaustionPolicyDynamic \<noteq> ExhaustionPolicyFail"
  by (simp_all add: policy_defs)

lemma phase_neq [simp]:
  "ENIClaimPhaseBound \<noteq> ENIClaimPhaseFailed" "ENIClaimPhaseFailed \<noteq> ENIClaimPhaseBound"
  by (simp_all add: phase_defs)

lemma state_neq [simp]:
  "ENIStateAvailable \<noteq> ENIStateClaimed" "ENIStateClaimed \<noteq> ENIStateAvailable"
  by (simp_all add: state_defs)

section \<open>Validation declared by the kubebuilder markers\<close>

text \<open>
  The API server enforces these on every CREATE and UPDATE: \<^verbatim>\<open>^eni-[0-9a-f]+$\<close>,
  \<^verbatim>\<open>^vpc-[0-9a-f]+$\<close>, the key pattern with its 63 byte limit (the key is optional), the minimal
  lengths and the enumeration of the policies. The marker \<^verbatim>\<open>Format=ipv4\<close> is left to the API server;
  the pool webhook repeats the check (\<open>Pool_Webhook\<close>).
\<close>

definition is_hex_lower :: "char \<Rightarrow> bool" where
  "is_hex_lower c \<longleftrightarrow> (CHR ''0'' \<le> c \<and> c \<le> CHR ''9'') \<or> (CHR ''a'' \<le> c \<and> c \<le> CHR ''f'')"

definition is_alnum :: "char \<Rightarrow> bool" where
  "is_alnum c \<longleftrightarrow> (CHR ''0'' \<le> c \<and> c \<le> CHR ''9'') \<or> (CHR ''a'' \<le> c \<and> c \<le> CHR ''z'') \<or>
     (CHR ''A'' \<le> c \<and> c \<le> CHR ''Z'')"

definition crd_eniID :: "string \<Rightarrow> bool" where
  "crd_eniID s \<longleftrightarrow> take 4 s = ''eni-'' \<and> drop 4 s \<noteq> [] \<and> list_all is_hex_lower (drop 4 s)"

definition crd_vpcID :: "string \<Rightarrow> bool" where
  "crd_vpcID s \<longleftrightarrow> take 4 s = ''vpc-'' \<and> drop 4 s \<noteq> [] \<and> list_all is_hex_lower (drop 4 s)"

definition crd_key :: "string \<Rightarrow> bool" where
  "crd_key s \<longleftrightarrow> s = '''' \<or>
     (length s \<le> 63 \<and> is_alnum (hd s) \<and> is_alnum (last s) \<and>
      list_all (\<lambda>c. is_alnum c \<or> c \<in> set ''._-'') s)"

definition crd_ENIReference :: "ENIReference \<Rightarrow> bool" where
  "crd_ENIReference r \<longleftrightarrow> crd_key (ref_key r) \<and> crd_eniID (ref_id r)"

definition crd_ENIPoolSpec :: "ENIPoolSpec \<Rightarrow> bool" where
  "crd_ENIPoolSpec sp \<longleftrightarrow> ps_region sp \<noteq> '''' \<and> crd_vpcID (ps_vpcID sp) \<and>
     ps_interfaces sp \<noteq> [] \<and> list_all crd_ENIReference (ps_interfaces sp) \<and>
     ps_exhaustionPolicy sp \<in> {ExhaustionPolicyDynamic, ExhaustionPolicyWait, ExhaustionPolicyFail}"

definition crd_ENIClaimSpec :: "ENIClaimSpec \<Rightarrow> bool" where
  "crd_ENIClaimSpec sp \<longleftrightarrow> crd_eniID (cs_eniID sp) \<and> cref_name (cs_poolRef sp) \<noteq> ''''"

lemma crd_vpcID_nonempty: "crd_vpcID s \<Longrightarrow> s \<noteq> ''''"
  by (auto simp: crd_vpcID_def)

section \<open>Cluster API objects\<close>

text \<open>The fields of the CAPI and CAPA objects the controller reads or writes.\<close>

record AWSMachine =
  am_meta :: ObjectMeta
  am_networkInterfaces :: "string list"

record Machine =
  mc_meta :: ObjectMeta
  mc_clusterName :: string

record ContractVersionedObjectReference =
  iref_APIGroup :: string
  iref_Kind :: string
  iref_Name :: string

record Cluster =
  cl_meta :: ObjectMeta
  cl_infrastructureRef :: ContractVersionedObjectReference

record AWSCluster =
  ac_meta :: ObjectMeta
  ac_region :: string
  ac_vpcID :: string

abbreviation am_annotations :: "AWSMachine \<Rightarrow> go_map" where
  "am_annotations m \<equiv> m_annotations (am_meta m)"
abbreviation am_name :: "AWSMachine \<Rightarrow> string" where
  "am_name m \<equiv> m_name (am_meta m)"
abbreviation am_namespace :: "AWSMachine \<Rightarrow> string" where
  "am_namespace m \<equiv> m_namespace (am_meta m)"

text \<open>\<open>set_annotations m a\<close> is \<^verbatim>\<open>obj.SetAnnotations(a)\<close>.\<close>

definition set_annotations :: "AWSMachine \<Rightarrow> go_map \<Rightarrow> AWSMachine" where
  "set_annotations m a = m\<lparr>am_meta := (am_meta m)\<lparr>m_annotations := a\<rparr>\<rparr>"

lemma set_annotations_simps [simp]:
  "am_annotations (set_annotations m a) = a"
  "am_name (set_annotations m a) = am_name m"
  "am_namespace (set_annotations m a) = am_namespace m"
  "am_networkInterfaces (set_annotations m a) = am_networkInterfaces m"
  "set_annotations (set_annotations m a) b = set_annotations m b"
  "set_annotations m (am_annotations m) = m"
  "am_networkInterfaces_update f (set_annotations m a) = set_annotations (am_networkInterfaces_update f m) a"
  by (simp_all add: set_annotations_def)

text \<open>A machine reference as the claims record it.\<close>

definition machine_ref :: "AWSMachine \<Rightarrow> NamespacedObjectReference" where
  "machine_ref m = \<lparr>nref_namespace = am_namespace m, nref_name = am_name m\<rparr>"

lemma machine_ref_eq_iff:
  "machine_ref m = machine_ref m' \<longleftrightarrow> am_namespace m = am_namespace m' \<and> am_name m = am_name m'"
  by (simp add: machine_ref_def)

end
