(* ===== verification/Claim_Webhook.thy ===== *)
theory Claim_Webhook
  imports Api_Types
begin

text \<open>
  The validating webhook of ENIClaim (\<^verbatim>\<open>internal/webhook/v1alpha1/eniclaim_webhook.go\<close>): a claim is
  named after its ENI and its spec never changes. \<open>None\<close> is a nil error; the warnings are always nil.
  \<^verbatim>\<open>reflect.DeepEqual\<close> on the spec, a struct of strings, is equality.
\<close>

datatype claim_denial = NameMismatch | SpecImmutable

definition ValidateCreate_ENIClaim :: "ENIClaim \<Rightarrow> claim_denial option" where
  "ValidateCreate_ENIClaim obj = (if claim_name obj \<noteq> claim_eni obj then Some NameMismatch else None)"

definition ValidateUpdate_ENIClaim :: "ENIClaim \<Rightarrow> ENIClaim \<Rightarrow> claim_denial option" where
  "ValidateUpdate_ENIClaim oldObj newObj =
     (if claim_spec oldObj \<noteq> claim_spec newObj then Some SpecImmutable else None)"

definition ValidateDelete_ENIClaim :: "ENIClaim \<Rightarrow> claim_denial option" where
  "ValidateDelete_ENIClaim obj = None"

definition claim_named :: "ENIClaim \<Rightarrow> bool" where
  "claim_named c \<longleftrightarrow> claim_name c = claim_eni c"

lemma ValidateCreate_ENIClaim_iff: "ValidateCreate_ENIClaim c = None \<longleftrightarrow> claim_named c"
  by (simp add: ValidateCreate_ENIClaim_def claim_named_def)

lemma ValidateUpdate_ENIClaim_iff: "ValidateUpdate_ENIClaim c d = None \<longleftrightarrow> claim_spec c = claim_spec d"
  by (simp add: ValidateUpdate_ENIClaim_def)

text \<open>Every stored claim has the name of its ENI, as the claim webhook ensures.\<close>

definition claims_named :: "(string \<rightharpoonup> ENIClaim) \<Rightarrow> bool" where
  "claims_named cs \<longleftrightarrow> (\<forall>n c. cs n = Some c \<longrightarrow> claim_eni c = n)"

end
