(* ===== verification/Ports.thy ===== *)
theory Ports
  imports Api_Types
begin

text \<open>
  Everything the controller calls that is not in this repository: the Kubernetes API through the
  controller-runtime client, the Prometheus vectors, the event recorder and three functions of
  apimachinery and Cluster API. They are the fields of one record \<open>'s ports\<close> over an arbitrary state
  \<open>'s\<close> of the world; reads look at a state (for a cached client, at its cache), writes return the
  next one. What a proof needs of them is the assumptions of a locale.
\<close>

section \<open>Errors and results\<close>

text \<open>The errors of the API that the code tells apart; every other failure is \<open>OtherError\<close>.\<close>

datatype api_error = NotFound | AlreadyExists | Conflict | OtherError string

text \<open>
  The errors the handlers return: an API error as it is, one constructor for each
  \<^verbatim>\<open>fmt.Errorf\<close> of the code with its operands, and \<open>NilMapWrite\<close> for the run-time panic of an
  assignment to a nil map.
\<close>

datatype error =
    ApiError api_error
  | NoClusterLabel
  | NoMachineOwner
  | GetOwnerMachine api_error
  | GetCluster api_error
  | NotAWSCluster
  | GetAWSCluster api_error
  | NetworkNotReady
  | MultiplePools string string
  | GetKeyMachine api_error
  | NoSuchKey string string
  | NilMapWrite

text \<open>\<^verbatim>\<open>ctrl.Result\<close>: the time after which the request comes back, 0 for not at all.\<close>

record Result =
  RequeueAfter :: duration

definition no_requeue :: Result where
  "no_requeue = \<lparr>RequeueAfter = 0\<rparr>"

definition requeue_after :: "duration \<Rightarrow> Result" where
  "requeue_after d = \<lparr>RequeueAfter = d\<rparr>"

text \<open>\<^verbatim>\<open>ctrl.Result{}, client.IgnoreNotFound(err)\<close> and \<^verbatim>\<open>ctrl.Result{}, err\<close>.\<close>

definition IgnoreNotFound :: "api_error \<Rightarrow> error + Result" where
  "IgnoreNotFound e = (if e = NotFound then Inr no_requeue else Inl (ApiError e))"

definition return_err :: "api_error option \<Rightarrow> error + Result" where
  "return_err r = (case r of None \<Rightarrow> Inr no_requeue | Some e \<Rightarrow> Inl (ApiError e))"

lemma return_err_simps [simp]:
  "return_err None = Inr no_requeue" "return_err (Some e) = Inl (ApiError e)"
  by (simp_all add: return_err_def)

section \<open>The ports\<close>

record Event =
  ev_type :: string
  ev_reason :: string
  ev_action :: string
  ev_args :: "string list"

record 's ports =
  p_get_awsmachine :: "'s \<Rightarrow> string \<Rightarrow> string \<Rightarrow> api_error + AWSMachine"
  p_get_machine :: "'s \<Rightarrow> string \<Rightarrow> string \<Rightarrow> api_error + Machine"
  p_get_cluster :: "'s \<Rightarrow> string \<Rightarrow> string \<Rightarrow> api_error + Cluster"
  p_get_awscluster :: "'s \<Rightarrow> string \<Rightarrow> string \<Rightarrow> api_error + AWSCluster"
  p_get_pool :: "'s \<Rightarrow> string \<Rightarrow> api_error + ENIPool"
  p_get_claim :: "'s \<Rightarrow> string \<Rightarrow> api_error + ENIClaim"
  p_list_pools :: "'s \<Rightarrow> api_error + ENIPool list"
  p_list_claims :: "'s \<Rightarrow> api_error + ENIClaim list"
  p_create_claim :: "ENIClaim \<Rightarrow> 's \<Rightarrow> (api_error + ENIClaim) \<times> 's"
  p_patch_awsmachine :: "AWSMachine \<Rightarrow> AWSMachine \<Rightarrow> 's \<Rightarrow> api_error option \<times> 's"
  p_patch_claim :: "ENIClaim \<Rightarrow> ENIClaim \<Rightarrow> 's \<Rightarrow> (api_error + ENIClaim) \<times> 's"
  p_delete_claim :: "ENIClaim \<Rightarrow> 's \<Rightarrow> api_error option \<times> 's"
  p_update_claim_status :: "ENIClaim \<Rightarrow> 's \<Rightarrow> api_error option \<times> 's"
  p_update_pool_status :: "ENIPool \<Rightarrow> 's \<Rightarrow> api_error option \<times> 's"
  p_inc_fallbacks :: "string \<Rightarrow> 's \<Rightarrow> 's"
  p_set_available :: "string \<Rightarrow> string \<Rightarrow> string \<Rightarrow> nat \<Rightarrow> 's \<Rightarrow> 's"
  p_recorder :: "(Event \<Rightarrow> 's \<Rightarrow> 's) option"
  p_parse_group :: "string \<Rightarrow> string option"
  p_ref_defined :: "ContractVersionedObjectReference \<Rightarrow> bool"
  p_set_condition :: "Condition list \<Rightarrow> Condition \<Rightarrow> Condition list"

text \<open>
  \<open>p_parse_group\<close> is the \<^verbatim>\<open>Group\<close> of \<^verbatim>\<open>schema.ParseGroupVersion\<close>, \<open>None\<close> on its error;
  \<open>p_ref_defined\<close> is \<^verbatim>\<open>ContractVersionedObjectReference.IsDefined\<close>; \<open>p_set_condition\<close> is
  \<^verbatim>\<open>meta.SetStatusCondition\<close>. \<open>p_patch_claim base obj\<close> and \<open>p_patch_awsmachine base obj\<close> are
  \<^verbatim>\<open>Patch(ctx, obj, client.MergeFrom(base))\<close>. A recorder that was not set is \<open>None\<close>.
\<close>

definition record_event :: "'s ports \<Rightarrow> Event \<Rightarrow> 's \<Rightarrow> 's" where
  "record_event P ev s = (case p_recorder P of None \<Rightarrow> s | Some rec \<Rightarrow> rec ev s)"

text \<open>\<^verbatim>\<open>clusterv1.GroupVersion.Group\<close> and \<^verbatim>\<open>clusterv1.ClusterNameLabel\<close> of Cluster API.\<close>

definition capi_group :: string where "capi_group = ''cluster.x-k8s.io''"
definition ClusterNameLabel :: string where "ClusterNameLabel = ''cluster.x-k8s.io/cluster-name''"

section \<open>What the claims API promises\<close>

text \<open>
  \<open>claims\<close> is the abstract content: the claim stored under each name. CREATE is atomic on names: it
  succeeds only on a free one and then stores the object, it reports \<open>AlreadyExists\<close> only for a taken
  one, and when it fails the store is as before. It may also fail for other reasons.
\<close>

locale claim_store =
  fixes create :: "ENIClaim \<Rightarrow> 's \<Rightarrow> (api_error + ENIClaim) \<times> 's"
    and claims :: "'s \<Rightarrow> string \<rightharpoonup> ENIClaim"
  assumes create_fresh: "create c s = (Inr c', s') \<Longrightarrow> claims s (claim_name c) = None"
    and create_stores: "create c s = (Inr c', s') \<Longrightarrow> claims s' = (claims s)(claim_name c \<mapsto> c')"
    and create_keeps: "create c s = (Inr c', s') \<Longrightarrow>
          claim_name c' = claim_name c \<and> claim_spec c' = claim_spec c \<and>
          claim_finalizers c' = claim_finalizers c \<and> m_deletionTimestamp (claim_meta c') = None"
    and create_fails: "create c s = (Inl e, s') \<Longrightarrow> claims s' = claims s"
    and create_taken: "create c s = (Inl AlreadyExists, s') \<Longrightarrow> claims s (claim_name c) \<noteq> None"
begin

lemma create_on_taken: "claims s (claim_name c) \<noteq> None \<Longrightarrow> \<exists>e s'. create c s = (Inl e, s')"
  by (metis create_fresh old.sum.exhaust surj_pair)

end

text \<open>
  JSON merge patches as \<^verbatim>\<open>client.MergeFrom\<close> computes them: a field that the caller did not change
  keeps the stored value, a changed one takes the caller's, a list as a whole, a map key by key.
\<close>

definition merge_field :: "'a \<Rightarrow> 'a \<Rightarrow> 'a \<Rightarrow> 'a" where
  "merge_field base new cur = (if base = new then cur else new)"

definition entries :: "go_map \<Rightarrow> string \<rightharpoonup> string" where
  "entries m = (case m of None \<Rightarrow> Map.empty | Some f \<Rightarrow> f)"

definition merge_map :: "go_map \<Rightarrow> go_map \<Rightarrow> go_map \<Rightarrow> go_map" where
  "merge_map base new cur =
     Some (\<lambda>k. merge_field (entries base k) (entries new k) (entries cur k))"

lemma merge_field_same [simp]: "merge_field x new x = new"
  by (simp add: merge_field_def)

lemma map_index_merge_same [simp]: "map_index (merge_map m new m) k = map_index new k"
  by (auto simp: merge_map_def map_index_def entries_def split: option.splits)

lemma map_has_merge_same [simp]: "map_has (merge_map m new m) k \<longleftrightarrow> map_has new k"
  by (auto simp: merge_map_def map_has_def entries_def split: option.splits)

definition merge_claim :: "ENIClaim \<Rightarrow> ENIClaim \<Rightarrow> ENIClaim \<Rightarrow> ENIClaim" where
  "merge_claim base new cur = cur\<lparr>claim_meta := (claim_meta cur)\<lparr>m_finalizers :=
     merge_field (claim_finalizers base) (claim_finalizers new) (claim_finalizers cur)\<rparr>\<rparr>"

definition merge_awsmachine :: "AWSMachine \<Rightarrow> AWSMachine \<Rightarrow> AWSMachine \<Rightarrow> AWSMachine" where
  "merge_awsmachine base new cur =
     set_annotations (cur\<lparr>am_networkInterfaces :=
        merge_field (am_networkInterfaces base) (am_networkInterfaces new) (am_networkInterfaces cur)\<rparr>)
       (merge_map (am_annotations base) (am_annotations new) (am_annotations cur))"

text \<open>
  The life cycle of claims on a coherent API (reads see the store): an object that is being deleted
  and has no finalizer left is removed; DELETE of an object with finalizers only stamps it.
\<close>

definition settle :: "ENIClaim \<Rightarrow> ENIClaim option" where
  "settle c = (if m_deletionTimestamp (claim_meta c) \<noteq> None \<and> claim_finalizers c = [] then None else Some c)"

definition stamp :: "instant \<Rightarrow> ENIClaim \<Rightarrow> ENIClaim" where
  "stamp t c = c\<lparr>claim_meta := (claim_meta c)\<lparr>m_deletionTimestamp :=
     (case m_deletionTimestamp (claim_meta c) of None \<Rightarrow> Some t | Some u \<Rightarrow> Some u)\<rparr>\<rparr>"

locale claim_lifecycle = claim_store create claims
  for create :: "ENIClaim \<Rightarrow> 's \<Rightarrow> (api_error + ENIClaim) \<times> 's"
    and claims :: "'s \<Rightarrow> string \<rightharpoonup> ENIClaim" +
  fixes get :: "'s \<Rightarrow> string \<Rightarrow> api_error + ENIClaim"
    and patch :: "ENIClaim \<Rightarrow> ENIClaim \<Rightarrow> 's \<Rightarrow> (api_error + ENIClaim) \<times> 's"
    and delete :: "ENIClaim \<Rightarrow> 's \<Rightarrow> api_error option \<times> 's"
    and now :: "'s \<Rightarrow> instant"
  assumes get_claims: "get s n = (case claims s n of None \<Rightarrow> Inl NotFound | Some c \<Rightarrow> Inr c)"
    and named: "claims s n = Some c \<Longrightarrow> claim_name c = n"
    and patch_ok: "claims s (claim_name base) = Some cur \<Longrightarrow>
          \<exists>s'. patch base new s = (Inr (merge_claim base new cur), s') \<and>
            claims s' = (claims s)(claim_name base := settle (merge_claim base new cur))"
    and delete_ok: "claims s (claim_name c) = Some cur \<Longrightarrow>
          \<exists>s'. delete c s = (None, s') \<and>
            claims s' = (claims s)(claim_name c := settle (stamp (now s) cur))"

section \<open>What the machine reconciler needs of the API\<close>

definition meta_key :: "ObjectMeta \<Rightarrow> string \<times> string" where
  "meta_key m = (m_namespace m, m_name m)"

abbreviation am_key :: "AWSMachine \<Rightarrow> string \<times> string" where
  "am_key m \<equiv> meta_key (am_meta m)"

text \<open>\<open>machines\<close> is the stored AWSMachine of each namespace and name; a PATCH may fail, and then does nothing.\<close>

locale machine_store =
  fixes get_machine :: "'s \<Rightarrow> string \<Rightarrow> string \<Rightarrow> api_error + AWSMachine"
    and patch_machine :: "AWSMachine \<Rightarrow> AWSMachine \<Rightarrow> 's \<Rightarrow> api_error option \<times> 's"
    and machines :: "'s \<Rightarrow> string \<times> string \<rightharpoonup> AWSMachine"
  assumes get_machines: "get_machine s ns n = (case machines s (ns, n) of None \<Rightarrow> Inl NotFound | Some m \<Rightarrow> Inr m)"
    and machine_named: "machines s k = Some m \<Longrightarrow> am_key m = k"
    and patch_done: "patch_machine base new s = (None, s') \<Longrightarrow> \<exists>cur. machines s (am_key base) = Some cur \<and>
          machines s' = (machines s)(am_key base \<mapsto> merge_awsmachine base new cur)"
    and patch_failed: "patch_machine base new s = (Some e, s') \<Longrightarrow> machines s' = machines s"

locale allocator_api =
  claim_store "p_create_claim P" claims + machine_store "p_get_awsmachine P" "p_patch_awsmachine P" machines
  for P :: "'s ports" and claims :: "'s \<Rightarrow> string \<rightharpoonup> ENIClaim"
    and machines :: "'s \<Rightarrow> string \<times> string \<rightharpoonup> AWSMachine" +
  assumes list_coherent: "p_list_claims P s = Inr cs \<Longrightarrow> set cs = ran (claims s)"
    and create_frame: "machines (snd (p_create_claim P c s)) = machines s"
    and patch_frame: "claims (snd (p_patch_awsmachine P b m s)) = claims s"
    and event_frame: "claims (record_event P e s) = claims s" "machines (record_event P e s) = machines s"
    and metric_frame: "claims (p_inc_fallbacks P r s) = claims s" "machines (p_inc_fallbacks P r s) = machines s"

section \<open>What the claim reconciler needs of the API\<close>

text \<open>
  On top of the life cycle: a status update of a stored claim replaces its status and nothing else, and
  the writes to claims leave the machines and the pools alone.
\<close>

locale claim_api =
  claim_lifecycle "p_create_claim P" claims "p_get_claim P" "p_patch_claim P" "p_delete_claim P" now
  for P :: "'s ports" and claims :: "'s \<Rightarrow> string \<rightharpoonup> ENIClaim" and now :: "'s \<Rightarrow> instant" +
  assumes status_ok: "claims s (claim_name c) = Some cur \<Longrightarrow>
          \<exists>s'. p_update_claim_status P c s = (None, s') \<and>
            claims s' = (claims s)(claim_name c \<mapsto> cur\<lparr>claim_status := claim_status c\<rparr>)"
    and patch_reads: "p_get_awsmachine P (snd (p_patch_claim P b c s)) = p_get_awsmachine P s"
          "p_get_pool P (snd (p_patch_claim P b c s)) = p_get_pool P s"
    and patch_now: "now (snd (p_patch_claim P b c s)) = now s"
    and delete_now: "now (snd (p_delete_claim P c s)) = now s"
    and status_now: "now (snd (p_update_claim_status P c s)) = now s"
    and delete_reads: "p_get_awsmachine P (snd (p_delete_claim P c s)) = p_get_awsmachine P s"
          "p_get_pool P (snd (p_delete_claim P c s)) = p_get_pool P s"
    and status_reads: "p_get_awsmachine P (snd (p_update_claim_status P c s)) = p_get_awsmachine P s"
          "p_get_pool P (snd (p_update_claim_status P c s)) = p_get_pool P s"

section \<open>What the pool reconciler needs of the API\<close>

text \<open>
  \<open>pools\<close> is the stored pool of each name. The list of the claims is the stored ones, a status update
  replaces the status of the stored pool or fails and changes nothing, and neither it nor the metric
  touches a claim or a machine.
\<close>

locale pool_api =
  fixes P :: "'s ports" and claims :: "'s \<Rightarrow> string \<rightharpoonup> ENIClaim" and pools :: "'s \<Rightarrow> string \<rightharpoonup> ENIPool"
  assumes get_pools: "p_get_pool P s n = (case pools s n of None \<Rightarrow> Inl NotFound | Some p \<Rightarrow> Inr p)"
    and pool_named: "pools s n = Some p \<Longrightarrow> pool_name p = n"
    and claims_listed: "p_list_claims P s = Inr cs \<Longrightarrow> set cs = ran (claims s)"
    and pool_status_done: "p_update_pool_status P p s = (None, s') \<Longrightarrow> \<exists>cur. pools s (pool_name p) = Some cur \<and>
          pools s' = (pools s)(pool_name p \<mapsto> cur\<lparr>pool_status := pool_status p\<rparr>)"
    and pool_status_failed: "p_update_pool_status P p s = (Some e, s') \<Longrightarrow> pools s' = pools s"
    and pool_status_frame: "claims (snd (p_update_pool_status P p s)) = claims s"
    and gauge_frame: "claims (p_set_available P n r v k s) = claims s" "pools (p_set_available P n r v k s) = pools s"
    and pool_writes_machines: "p_get_awsmachine P (snd (p_update_pool_status P p s)) = p_get_awsmachine P s"
          "p_get_awsmachine P (p_set_available P n r v k s) = p_get_awsmachine P s"

text \<open>
  \<^verbatim>\<open>meta.SetStatusCondition\<close>: the condition is in the result, the conditions of other types are as they
  were, and setting it again changes nothing. (The transition time it also maintains is not modelled.)
\<close>

locale condition_setter =
  fixes setc :: "Condition list \<Rightarrow> Condition \<Rightarrow> Condition list"
  assumes set_this: "c \<in> set (setc cs c)"
    and set_others: "t \<noteq> cond_Type c \<Longrightarrow>
          filter (\<lambda>d. cond_Type d = t) (setc cs c) = filter (\<lambda>d. cond_Type d = t) cs"
    and set_twice: "setc (setc cs c) c = setc cs c"

end
