(* ===== verification/Ref_Server.thy ===== *)
theory Ref_Server
  imports Claim_Webhook Ports
begin

text \<open>
  A reference instance of the ports: an API server in memory, as the controller-runtime fake client
  of the repository's tests is one. It stores each kind of object as a collection, runs the webhooks
  and the CRD validation of this repository on the writes they apply to, and follows the documented
  semantics of CREATE, merge PATCH, DELETE with finalizers and the status subresource. It
  interprets the claim locales of \<open>Ports\<close> and carries the witnesses of the properties; the
  properties themselves are about any ports.
\<close>

record world =
  w_now :: instant
  w_awsmachines :: "AWSMachine list"
  w_machines :: "Machine list"
  w_clusters :: "Cluster list"
  w_awsclusters :: "AWSCluster list"
  w_pools :: "ENIPool list"
  w_claims :: "ENIClaim list"
  w_fallbacks :: "string \<Rightarrow> nat"
  w_available :: "string \<times> string \<times> string \<Rightarrow> nat"
  w_events :: "Event list"

definition empty_world :: world where
  "empty_world = \<lparr>w_now = 0, w_awsmachines = [], w_machines = [], w_clusters = [], w_awsclusters = [],
     w_pools = [], w_claims = [], w_fallbacks = (\<lambda>_. 0), w_available = (\<lambda>_. 0), w_events = []\<rparr>"


definition or_not_found :: "'a option \<Rightarrow> api_error + 'a" where
  "or_not_found r = (case r of None \<Rightarrow> Inl NotFound | Some x \<Rightarrow> Inr x)"

lemma or_not_found_simps [simp]: "or_not_found None = Inl NotFound" "or_not_found (Some x) = Inr x"
  by (simp_all add: or_not_found_def)

section \<open>Claims\<close>

definition srv_claims :: "world \<Rightarrow> string \<rightharpoonup> ENIClaim" where
  "srv_claims s = lookup_by claim_name (w_claims s)"

definition srv_set_claim :: "string \<Rightarrow> ENIClaim option \<Rightarrow> world \<Rightarrow> world" where
  "srv_set_claim n r s = s\<lparr>w_claims := set_by claim_name n r (w_claims s)\<rparr>"

text \<open>The object as CREATE stores it: server-set metadata, and no status, which is a subresource.\<close>

definition fresh_status :: ENIClaimStatus where
  "fresh_status = \<lparr>cst_phase = '''', cst_privateIP = '''', cst_conditions = []\<rparr>"

definition created_claim :: "instant \<Rightarrow> ENIClaim \<Rightarrow> ENIClaim" where
  "created_claim t c = c\<lparr>claim_meta := (claim_meta c)\<lparr>m_generation := 1, m_creationTimestamp := t,
     m_deletionTimestamp := None\<rparr>, claim_status := fresh_status\<rparr>"

definition srv_create_claim :: "ENIClaim \<Rightarrow> world \<Rightarrow> (api_error + ENIClaim) \<times> world" where
  "srv_create_claim c s =
     (if \<not> crd_ENIClaimSpec (claim_spec c) then (Inl (OtherError ''invalid''), s)
      else if ValidateCreate_ENIClaim c \<noteq> None then (Inl (OtherError ''denied''), s)
      else if srv_claims s (claim_name c) \<noteq> None then (Inl AlreadyExists, s)
      else (Inr (created_claim (w_now s) c),
            srv_set_claim (claim_name c) (Some (created_claim (w_now s) c)) s))"

definition srv_list_claims :: "world \<Rightarrow> ENIClaim list" where
  "srv_list_claims s = firsts_by claim_name [] (w_claims s)"

definition srv_get_claim :: "world \<Rightarrow> string \<Rightarrow> api_error + ENIClaim" where
  "srv_get_claim s n = or_not_found (srv_claims s n)"

definition srv_patch_claim :: "ENIClaim \<Rightarrow> ENIClaim \<Rightarrow> world \<Rightarrow> (api_error + ENIClaim) \<times> world" where
  "srv_patch_claim base new s = (case srv_claims s (claim_name base) of
     None \<Rightarrow> (Inl NotFound, s)
   | Some cur \<Rightarrow>
       if ValidateUpdate_ENIClaim cur (merge_claim base new cur) \<noteq> None then (Inl (OtherError ''denied''), s)
       else (Inr (merge_claim base new cur),
             srv_set_claim (claim_name base) (settle (merge_claim base new cur)) s))"

definition srv_delete_claim :: "ENIClaim \<Rightarrow> world \<Rightarrow> api_error option \<times> world" where
  "srv_delete_claim c s = (case srv_claims s (claim_name c) of
     None \<Rightarrow> (Some NotFound, s)
   | Some cur \<Rightarrow> (None, srv_set_claim (claim_name c) (settle (stamp (w_now s) cur)) s))"

definition srv_update_claim_status :: "ENIClaim \<Rightarrow> world \<Rightarrow> api_error option \<times> world" where
  "srv_update_claim_status c s = (case srv_claims s (claim_name c) of
     None \<Rightarrow> (Some NotFound, s)
   | Some cur \<Rightarrow> (None, srv_set_claim (claim_name c) (Some (cur\<lparr>claim_status := claim_status c\<rparr>)) s))"

section \<open>The other objects\<close>

definition srv_machines :: "world \<Rightarrow> string \<times> string \<rightharpoonup> AWSMachine" where
  "srv_machines s = lookup_by am_key (w_awsmachines s)"

definition srv_get_awsmachine :: "world \<Rightarrow> string \<Rightarrow> string \<Rightarrow> api_error + AWSMachine" where
  "srv_get_awsmachine s ns n = or_not_found (srv_machines s (ns, n))"

definition srv_patch_awsmachine :: "AWSMachine \<Rightarrow> AWSMachine \<Rightarrow> world \<Rightarrow> api_error option \<times> world" where
  "srv_patch_awsmachine base new s = (case srv_machines s (am_key base) of
     None \<Rightarrow> (Some NotFound, s)
   | Some cur \<Rightarrow>
       (None, s\<lparr>w_awsmachines := put_by am_key (merge_awsmachine base new cur) (w_awsmachines s)\<rparr>))"

definition srv_get_pool :: "world \<Rightarrow> string \<Rightarrow> api_error + ENIPool" where
  "srv_get_pool s n = or_not_found (lookup_by pool_name (w_pools s) n)"

definition srv_update_pool_status :: "ENIPool \<Rightarrow> world \<Rightarrow> api_error option \<times> world" where
  "srv_update_pool_status p s = (case lookup_by pool_name (w_pools s) (pool_name p) of
     None \<Rightarrow> (Some NotFound, s)
   | Some cur \<Rightarrow>
       (None, s\<lparr>w_pools := put_by pool_name (cur\<lparr>pool_status := pool_status p\<rparr>) (w_pools s)\<rparr>))"

text \<open>\<^verbatim>\<open>SetStatusCondition\<close>: replace the condition of the same type, or append.\<close>

definition srv_set_condition :: "Condition list \<Rightarrow> Condition \<Rightarrow> Condition list" where
  "srv_set_condition cs c = put_by cond_Type c cs"

definition srv_parse_group :: "string \<Rightarrow> string option" where
  "srv_parse_group gv =
     (if gv = '''' \<or> gv = ''/'' then Some ''''
      else case length (filter (\<lambda>c. c = CHR ''/'') gv) of
        0 \<Rightarrow> Some ''''
      | Suc 0 \<Rightarrow> Some (takeWhile (\<lambda>c. c \<noteq> CHR ''/'') gv)
      | _ \<Rightarrow> None)"

definition srv_ports :: "world ports" where
  "srv_ports = \<lparr>
     p_get_awsmachine = srv_get_awsmachine,
     p_get_machine = (\<lambda>s ns n. or_not_found (lookup_by (\<lambda>m. meta_key (mc_meta m)) (w_machines s) (ns, n))),
     p_get_cluster = (\<lambda>s ns n. or_not_found (lookup_by (\<lambda>m. meta_key (cl_meta m)) (w_clusters s) (ns, n))),
     p_get_awscluster = (\<lambda>s ns n. or_not_found (lookup_by (\<lambda>m. meta_key (ac_meta m)) (w_awsclusters s) (ns, n))),
     p_get_pool = srv_get_pool,
     p_get_claim = srv_get_claim,
     p_list_pools = (\<lambda>s. Inr (w_pools s)),
     p_list_claims = (\<lambda>s. Inr (srv_list_claims s)),
     p_create_claim = srv_create_claim,
     p_patch_awsmachine = srv_patch_awsmachine,
     p_patch_claim = srv_patch_claim,
     p_delete_claim = srv_delete_claim,
     p_update_claim_status = srv_update_claim_status,
     p_update_pool_status = srv_update_pool_status,
     p_inc_fallbacks = (\<lambda>r s. s\<lparr>w_fallbacks := (w_fallbacks s)(r := w_fallbacks s r + 1)\<rparr>),
     p_set_available = (\<lambda>p r v n s. s\<lparr>w_available := (w_available s)((p, r, v) := n)\<rparr>),
     p_recorder = Some (\<lambda>e s. s\<lparr>w_events := w_events s @ [e]\<rparr>),
     p_parse_group = srv_parse_group,
     p_ref_defined = (\<lambda>r. iref_APIGroup r \<noteq> '''' \<or> iref_Kind r \<noteq> '''' \<or> iref_Name r \<noteq> ''''),
     p_set_condition = srv_set_condition\<rparr>"

lemma srv_ports_simps [simp]:
  "p_get_awsmachine srv_ports = srv_get_awsmachine"
  "p_get_pool srv_ports = srv_get_pool"
  "p_get_claim srv_ports = srv_get_claim"
  "p_list_pools srv_ports s = Inr (w_pools s)"
  "p_list_claims srv_ports s = Inr (srv_list_claims s)"
  "p_create_claim srv_ports = srv_create_claim"
  "p_patch_awsmachine srv_ports = srv_patch_awsmachine"
  "p_patch_claim srv_ports = srv_patch_claim"
  "p_delete_claim srv_ports = srv_delete_claim"
  "p_update_claim_status srv_ports = srv_update_claim_status"
  "p_update_pool_status srv_ports = srv_update_pool_status"
  "p_parse_group srv_ports = srv_parse_group"
  "p_set_condition srv_ports = srv_set_condition"
  by (simp_all add: srv_ports_def)

section \<open>The server keeps the contracts\<close>

lemma merge_claim_name [simp]: "claim_name (merge_claim b n c) = claim_name c"
  by (simp add: merge_claim_def)

lemma merge_claim_spec [simp]: "claim_spec (merge_claim b n c) = claim_spec c"
  by (simp add: merge_claim_def)

lemma stamp_simps [simp]: "claim_name (stamp t c) = claim_name c" "claim_spec (stamp t c) = claim_spec c"
  "claim_finalizers (stamp t c) = claim_finalizers c" "m_deletionTimestamp (claim_meta (stamp t c)) \<noteq> None"
  by (simp_all add: stamp_def split: option.split)

lemma settle_Some: "settle c = Some d \<Longrightarrow> d = c"
  by (auto simp: settle_def split: if_splits)

lemma srv_claims_set:
  assumes "\<And>c. r = Some c \<Longrightarrow> claim_name c = n"
  shows "srv_claims (srv_set_claim n r s) = (srv_claims s)(n := r)"
  using lookup_by_set [of r claim_name n, OF assms]
  by (simp add: srv_claims_def srv_set_claim_def)

lemma srv_claims_set_Some:
  "claim_name c = n \<Longrightarrow> srv_claims (srv_set_claim n (Some c) s) = (srv_claims s)(n \<mapsto> c)"
  by (rule srv_claims_set) simp

lemma srv_claims_named: "srv_claims s n = Some c \<Longrightarrow> claim_name c = n"
  by (auto simp: srv_claims_def dest: lookup_by_key)

lemma created_claim_simps [simp]:
  "claim_name (created_claim t c) = claim_name c" "claim_spec (created_claim t c) = claim_spec c"
  "claim_finalizers (created_claim t c) = claim_finalizers c"
  "m_deletionTimestamp (claim_meta (created_claim t c)) = None"
  "m_creationTimestamp (claim_meta (created_claim t c)) = t"
  by (simp_all add: created_claim_def)

lemma srv_create_cases:
  "srv_create_claim c s = (Inr c', s') \<Longrightarrow> srv_claims s (claim_name c) = None \<and> claim_named c \<and>
     c' = created_claim (w_now s) c \<and> s' = srv_set_claim (claim_name c) (Some c') s"
  "srv_create_claim c s = (Inl e, s') \<Longrightarrow> s' = s"
  "srv_create_claim c s = (Inl AlreadyExists, s') \<Longrightarrow> srv_claims s (claim_name c) \<noteq> None"
  by (auto simp: srv_create_claim_def ValidateCreate_ENIClaim_iff split: if_splits)

interpretation srv: claim_lifecycle srv_create_claim srv_claims srv_get_claim srv_patch_claim srv_delete_claim w_now
proof
  fix c c' :: ENIClaim and s s' :: world
  assume ok: "srv_create_claim c s = (Inr c', s')"
  note created = srv_create_cases(1) [OF ok]
  from created show "srv_claims s (claim_name c) = None" by blast
  from created show "srv_claims s' = (srv_claims s)(claim_name c \<mapsto> c')" by (simp add: srv_claims_set_Some)
  from created show "claim_name c' = claim_name c \<and> claim_spec c' = claim_spec c \<and>
    claim_finalizers c' = claim_finalizers c \<and> m_deletionTimestamp (claim_meta c') = None" by simp
next
  fix c e s s'
  assume err: "srv_create_claim c s = (Inl e, s')"
  then show "srv_claims s' = srv_claims s" by (auto dest: srv_create_cases(2))
next
  fix c s s'
  assume "srv_create_claim c s = (Inl AlreadyExists, s')"
  then show "srv_claims s (claim_name c) \<noteq> None" by (rule srv_create_cases(3))
next
  fix s n
  show "srv_get_claim s n = (case srv_claims s n of None \<Rightarrow> Inl NotFound | Some c \<Rightarrow> Inr c)"
    by (simp add: srv_get_claim_def or_not_found_def)
next
  fix s n c
  assume "srv_claims s n = Some c"
  then show "claim_name c = n" by (rule srv_claims_named)
next
  fix s base cur new
  assume cur: "srv_claims s (claim_name base) = Some cur"
  then show "\<exists>s'. srv_patch_claim base new s = (Inr (merge_claim base new cur), s') \<and>
      srv_claims s' = (srv_claims s)(claim_name base := settle (merge_claim base new cur))"
    by (auto simp: srv_patch_claim_def ValidateUpdate_ENIClaim_iff srv_claims_named
        intro!: srv_claims_set dest!: settle_Some)
next
  fix s c cur
  assume cur: "srv_claims s (claim_name c) = Some cur"
  then show "\<exists>s'. srv_delete_claim c s = (None, s') \<and>
      srv_claims s' = (srv_claims s)(claim_name c := settle (stamp (w_now s) cur))"
    by (auto simp: srv_delete_claim_def srv_claims_named intro!: srv_claims_set dest!: settle_Some)
qed

lemma merge_awsmachine_simps [simp]:
  "am_key (merge_awsmachine b n c) = am_key c"
  "am_annotations (merge_awsmachine b n c) = merge_map (am_annotations b) (am_annotations n) (am_annotations c)"
  "am_networkInterfaces (merge_awsmachine b n c) =
     merge_field (am_networkInterfaces b) (am_networkInterfaces n) (am_networkInterfaces c)"
  by (simp_all add: merge_awsmachine_def meta_key_def)

lemma srv_frames [simp]:
  "srv_machines (srv_set_claim n r s) = srv_machines s"
  "srv_claims (s\<lparr>w_awsmachines := ms\<rparr>) = srv_claims s"
  "srv_machines (s\<lparr>w_events := es\<rparr>) = srv_machines s" "srv_claims (s\<lparr>w_events := es\<rparr>) = srv_claims s"
  "srv_machines (s\<lparr>w_fallbacks := f\<rparr>) = srv_machines s" "srv_claims (s\<lparr>w_fallbacks := f\<rparr>) = srv_claims s"
  by (simp_all add: srv_machines_def srv_set_claim_def srv_claims_def)

lemma srv_claim_store: "claim_store (p_create_claim srv_ports) srv_claims"
  using srv.claim_store_axioms by simp

interpretation srv_api: allocator_api srv_ports srv_claims srv_machines
proof (rule allocator_api.intro [OF srv_claim_store], unfold_locales, unfold srv_ports_simps)
  fix s ns n
  show "srv_get_awsmachine s ns n = (case srv_machines s (ns, n) of None \<Rightarrow> Inl NotFound | Some m \<Rightarrow> Inr m)"
    by (simp add: srv_get_awsmachine_def or_not_found_def)
next
  fix s k m
  assume "srv_machines s k = Some m"
  then show "am_key m = k" by (auto simp: srv_machines_def dest: lookup_by_key)
next
  fix base new s s'
  assume "srv_patch_awsmachine base new s = (None, s')"
  then show "\<exists>cur. srv_machines s (am_key base) = Some cur \<and>
      srv_machines s' = (srv_machines s)(am_key base \<mapsto> merge_awsmachine base new cur)"
    by (auto simp: srv_patch_awsmachine_def srv_machines_def split: option.splits dest: lookup_by_key)
next
  fix base new s e s'
  assume "srv_patch_awsmachine base new s = (Some e, s')"
  then show "srv_machines s' = srv_machines s" by (auto simp: srv_patch_awsmachine_def split: option.splits)
qed (auto simp: srv_create_claim_def srv_patch_awsmachine_def record_event_def srv_ports_def srv_list_claims_def
    srv_claims_def set_firsts_by split: option.split dest: srv_create_cases)

lemma srv_claim_lifecycle: "claim_lifecycle (p_create_claim srv_ports) srv_claims (p_get_claim srv_ports)
    (p_patch_claim srv_ports) (p_delete_claim srv_ports) w_now"
  using srv.claim_lifecycle_axioms by simp

lemma srv_set_claim_reads [simp]: "srv_get_awsmachine (srv_set_claim n r s) = srv_get_awsmachine s"
  "srv_get_pool (srv_set_claim n r s) = srv_get_pool s" "w_now (srv_set_claim n r s) = w_now s"
  by (simp_all add: fun_eq_iff srv_get_awsmachine_def srv_get_pool_def) (simp_all add: srv_set_claim_def)

interpretation srv_claim_api: claim_api srv_ports srv_claims w_now
proof (rule claim_api.intro [OF srv_claim_lifecycle], unfold_locales, unfold srv_ports_simps)
  fix c cur s
  assume "srv_claims s (claim_name c) = Some cur"
  then show "\<exists>s'. srv_update_claim_status c s = (None, s') \<and>
      srv_claims s' = (srv_claims s)(claim_name c \<mapsto> cur\<lparr>claim_status := claim_status c\<rparr>)"
    by (simp add: srv_update_claim_status_def srv_claims_set_Some srv_claims_named)
qed (auto simp: srv_patch_claim_def srv_delete_claim_def srv_update_claim_status_def split: option.split)

definition srv_pools :: "world \<Rightarrow> string \<rightharpoonup> ENIPool" where
  "srv_pools s = lookup_by pool_name (w_pools s)"

interpretation srv_pool_api: pool_api srv_ports srv_claims srv_pools
proof (unfold_locales, unfold srv_ports_simps)
  fix s n p
  assume "srv_pools s n = Some p"
  then show "pool_name p = n" by (auto simp: srv_pools_def dest: lookup_by_key)
qed (auto simp: srv_get_pool_def srv_pools_def or_not_found_def srv_list_claims_def set_firsts_by srv_claims_def
    srv_update_pool_status_def srv_ports_def srv_get_awsmachine_def [abs_def] srv_machines_def
    split: option.splits dest: lookup_by_key)

interpretation srv: condition_setter srv_set_condition
proof
  fix c cs t
  show "c \<in> set (srv_set_condition cs c)"
    unfolding srv_set_condition_def by (rule put_by_mem)
  show "srv_set_condition (srv_set_condition cs c) c = srv_set_condition cs c"
    unfolding srv_set_condition_def by (rule put_by_twice)
  assume "t \<noteq> cond_Type c"
  then show "filter (\<lambda>d. cond_Type d = t) (srv_set_condition cs c) = filter (\<lambda>d. cond_Type d = t) cs"
    unfolding srv_set_condition_def by (rule filter_put_by)
qed

text \<open>The writes to claims, as far as names and specs go.\<close>

definition names_kept :: "world \<Rightarrow> world \<Rightarrow> bool" where
  "names_kept s s' \<longleftrightarrow> claims_named (srv_claims s') \<and>
    (\<forall>n d d'. srv_claims s n = Some d \<longrightarrow> srv_claims s' n = Some d' \<longrightarrow> claim_spec d' = claim_spec d)"

lemma names_kept_refl: "claims_named (srv_claims s) \<Longrightarrow> names_kept s s"
  by (simp add: names_kept_def)

lemma names_kept_set:
  assumes "claims_named (srv_claims s)" "\<And>c. r = Some c \<Longrightarrow> claim_name c = n \<and> claim_eni c = n"
    and "\<And>c d. r = Some c \<Longrightarrow> srv_claims s n = Some d \<Longrightarrow> claim_spec c = claim_spec d"
  shows "names_kept s (srv_set_claim n r s)"
proof -
  have "srv_claims (srv_set_claim n r s) = (srv_claims s)(n := r)"
    by (rule srv_claims_set) (rule assms(2) [THEN conjunct1])
  moreover have "claim_eni c = k" if "((srv_claims s)(n := r)) k = Some c" for k c
  proof (cases "k = n")
    case True
    with that have "r = Some c" by simp
    from assms(2) [OF this] True show ?thesis by simp
  next
    case False
    with that have "srv_claims s k = Some c" by simp
    with assms(1) show ?thesis unfolding claims_named_def by blast
  qed
  moreover have "claim_spec c = claim_spec d" if d: "srv_claims s k = Some d" and c: "((srv_claims s)(n := r)) k = Some c" for k c d
  proof (cases "k = n")
    case True
    with c d have "r = Some c" "srv_claims s n = Some d" by simp_all
    then show ?thesis by (rule assms(3))
  next
    case False
    with c d show ?thesis by simp
  qed
  ultimately show ?thesis unfolding names_kept_def claims_named_def by simp
qed

lemma names_kept_writes:
  assumes "claims_named (srv_claims s)"
  shows "names_kept s (snd (srv_create_claim c s))" "names_kept s (snd (srv_patch_claim base new s))"
    "names_kept s (snd (srv_delete_claim c s))" "names_kept s (snd (srv_update_claim_status c s))"
proof -
  have stored: "claim_name d = n" "claim_eni d = n" if "srv_claims s n = Some d" for n d
    using assms srv_claims_named [OF that] that by (simp_all add: claims_named_def)
  have set: "names_kept s (srv_set_claim n r s)" if "srv_claims s n = Some d"
    "\<And>c. r = Some c \<Longrightarrow> claim_name c = claim_name d \<and> claim_spec c = claim_spec d" for n r d
  proof (rule names_kept_set [OF assms])
    fix c e
    assume c: "r = Some c"
    from that(2) [OF c] stored [OF that(1)] show "claim_name c = n \<and> claim_eni c = n" by simp
    assume "srv_claims s n = Some e"
    with that(2) [OF c] that(1) show "claim_spec c = claim_spec e" by simp
  qed
  show "names_kept s (snd (srv_create_claim c s))"
  proof -
    have "names_kept s (srv_set_claim (claim_name c) (Some (created_claim (w_now s) c)) s)"
      if "srv_claims s (claim_name c) = None" "claim_named c"
      using that by (intro names_kept_set [OF assms]) (auto simp: claim_named_def)
    with names_kept_refl [OF assms] show ?thesis by (simp add: srv_create_claim_def ValidateCreate_ENIClaim_iff)
  qed
  show "names_kept s (snd (srv_patch_claim base new s))"
  proof (cases "srv_claims s (claim_name base)")
    case (Some cur)
    have "names_kept s (srv_set_claim (claim_name base) (settle (merge_claim base new cur)) s)"
      by (rule set [OF Some]) (auto dest: settle_Some)
    with Some names_kept_refl [OF assms] show ?thesis by (simp add: srv_patch_claim_def)
  qed (simp add: srv_patch_claim_def names_kept_refl assms)
  show "names_kept s (snd (srv_delete_claim c s))"
  proof (cases "srv_claims s (claim_name c)")
    case (Some cur)
    have "names_kept s (srv_set_claim (claim_name c) (settle (stamp (w_now s) cur)) s)"
      by (rule set [OF Some]) (auto dest: settle_Some)
    with Some show ?thesis by (simp add: srv_delete_claim_def)
  qed (simp add: srv_delete_claim_def names_kept_refl assms)
  show "names_kept s (snd (srv_update_claim_status c s))"
  proof (cases "srv_claims s (claim_name c)")
    case (Some cur)
    have "names_kept s (srv_set_claim (claim_name c) (Some (cur\<lparr>claim_status := claim_status c\<rparr>)) s)"
      by (rule set [OF Some]) auto
    with Some show ?thesis by (simp add: srv_update_claim_status_def)
  qed (simp add: srv_update_claim_status_def names_kept_refl assms)
qed

end
