(* ===== verification/Pool_Webhook.thy ===== *)
theory Pool_Webhook
  imports Netip Ref_Server
begin

text \<open>
  The webhooks of ENIPool (\<^verbatim>\<open>internal/webhook/v1alpha1/enipool_webhook.go\<close>): the defaulter of the
  exhaustion policy and the validator of a pool against itself and against the other pools. Go's
  \<^verbatim>\<open>map[T]struct{}\<close> used as a set is a set; \<open>None\<close> is a nil error. The validator's client may be nil
  (\<open>None\<close>), then the other pools are not looked at.

  \<open>interfaces_ok\<close> and \<open>pools_ok\<close> say what the validator is for: no ENI, address or key twice in a
  pool; no network and no ENI in two pools.
\<close>

definition Default_ENIPool :: "ENIPool \<Rightarrow> ENIPool" where
  "Default_ENIPool obj =
     (if ps_exhaustionPolicy (pool_spec obj) = ''''
      then obj\<lparr>pool_spec := (pool_spec obj)\<lparr>ps_exhaustionPolicy := ExhaustionPolicyDynamic\<rparr>\<rparr>
      else obj)"

datatype pool_denial =
    DuplicateENI string
  | InvalidPrivateIP string
  | DuplicateIP string
  | DuplicateKey string
  | ListPools api_error
  | NetworkOwned string string string
  | ENIRegistered string string

section \<open>The validator\<close>

text \<open>The loop over the pool's own interfaces, with the three sets it fills; it returns \<open>wanted\<close>.\<close>

fun check_interfaces ::
  "string set \<Rightarrow> Addr set \<Rightarrow> string set \<Rightarrow> ENIReference list \<Rightarrow> pool_denial + string set" where
  "check_interfaces wanted wantedIPs wantedKeys [] = Inr wanted"
| "check_interfaces wanted wantedIPs wantedKeys (configured # rest) =
     (if ref_id configured \<in> wanted then Inl (DuplicateENI (ref_id configured))
      else case ParseAddr (ref_privateIP configured) of
        None \<Rightarrow> Inl (InvalidPrivateIP (ref_id configured))
      | Some ip \<Rightarrow>
          if \<not> Is4 ip then Inl (InvalidPrivateIP (ref_id configured))
          else if ip \<in> wantedIPs then Inl (DuplicateIP (ref_privateIP configured))
          else if ref_key configured \<noteq> '''' then
            if ref_key configured \<in> wantedKeys then Inl (DuplicateKey (ref_key configured))
            else check_interfaces (insert (ref_id configured) wanted) (insert ip wantedIPs)
                   (insert (ref_key configured) wantedKeys) rest
          else check_interfaces (insert (ref_id configured) wanted) (insert ip wantedIPs) wantedKeys rest)"

fun first_registered :: "string set \<Rightarrow> ENIReference list \<Rightarrow> string option" where
  "first_registered wanted [] = None"
| "first_registered wanted (configured # rest) =
     (if ref_id configured \<in> wanted then Some (ref_id configured) else first_registered wanted rest)"

text \<open>The loop over the listed pools.\<close>

fun check_others :: "string set \<Rightarrow> ENIPool \<Rightarrow> ENIPool list \<Rightarrow> pool_denial option" where
  "check_others wanted obj [] = None"
| "check_others wanted obj (other # rest) =
     (if pool_name other = pool_name obj then check_others wanted obj rest
      else if pool_region other = pool_region obj \<and> pool_vpcID other = pool_vpcID obj
      then Some (NetworkOwned (pool_name other) (pool_region obj) (pool_vpcID obj))
      else case first_registered wanted (pool_interfaces other) of
        Some i \<Rightarrow> Some (ENIRegistered i (pool_name other))
      | None \<Rightarrow> check_others wanted obj rest)"

definition validate_ENIPool :: "'s ports option \<Rightarrow> ENIPool \<Rightarrow> 's \<Rightarrow> pool_denial option" where
  "validate_ENIPool client obj s =
     (case check_interfaces {} {} {} (pool_interfaces obj) of
        Inl e \<Rightarrow> Some e
      | Inr wanted \<Rightarrow>
          (case client of
             None \<Rightarrow> None
           | Some P \<Rightarrow>
               (case p_list_pools P s of
                  Inl e \<Rightarrow> Some (ListPools e)
                | Inr items \<Rightarrow> check_others wanted obj items)))"

definition ValidateCreate_ENIPool :: "'s ports option \<Rightarrow> ENIPool \<Rightarrow> 's \<Rightarrow> pool_denial option" where
  "ValidateCreate_ENIPool client obj s = validate_ENIPool client obj s"

definition ValidateUpdate_ENIPool :: "'s ports option \<Rightarrow> ENIPool \<Rightarrow> ENIPool \<Rightarrow> 's \<Rightarrow> pool_denial option" where
  "ValidateUpdate_ENIPool client oldObj newObj s = validate_ENIPool client newObj s"

definition ValidateDelete_ENIPool :: "ENIPool \<Rightarrow> pool_denial option" where
  "ValidateDelete_ENIPool obj = None"

section \<open>What a valid pool is\<close>

definition has_ipv4 :: "ENIReference \<Rightarrow> bool" where
  "has_ipv4 r \<longleftrightarrow> (\<exists>w. ParseAddr (ref_privateIP r) = Some (Addr4 w))"

definition nonempty_keys :: "ENIReference list \<Rightarrow> string list" where
  "nonempty_keys refs = filter (\<lambda>k. k \<noteq> '''') (map ref_key refs)"

definition interfaces_ok :: "ENIReference list \<Rightarrow> bool" where
  "interfaces_ok refs \<longleftrightarrow> distinct (map ref_id refs) \<and> list_all has_ipv4 refs \<and>
     distinct (map ref_privateIP refs) \<and> distinct (nonempty_keys refs)"

definition separate_pools :: "ENIPool \<Rightarrow> ENIPool \<Rightarrow> bool" where
  "separate_pools p q \<longleftrightarrow> (pool_region p, pool_vpcID p) \<noteq> (pool_region q, pool_vpcID q) \<and>
     ref_id ` set (pool_interfaces p) \<inter> ref_id ` set (pool_interfaces q) = {}"

definition pools_ok :: "ENIPool list \<Rightarrow> bool" where
  "pools_ok ps \<longleftrightarrow> distinct (map pool_name ps) \<and> list_all (\<lambda>p. interfaces_ok (pool_interfaces p)) ps \<and>
     (\<forall>p\<in>set ps. \<forall>q\<in>set ps. pool_name p \<noteq> pool_name q \<longrightarrow> separate_pools p q)"

section \<open>The loop over the interfaces meets its specification\<close>

text \<open>What is wrong with an interface \<open>r\<close> after the interfaces \<open>pre\<close>, in the order of the checks.\<close>

definition offence :: "ENIReference list \<Rightarrow> ENIReference \<Rightarrow> pool_denial option" where
  "offence pre r =
     (if ref_id r \<in> ref_id ` set pre then Some (DuplicateENI (ref_id r))
      else if \<not> has_ipv4 r then Some (InvalidPrivateIP (ref_id r))
      else if ref_privateIP r \<in> ref_privateIP ` set pre then Some (DuplicateIP (ref_privateIP r))
      else if ref_key r \<noteq> '''' \<and> ref_key r \<in> ref_key ` set pre then Some (DuplicateKey (ref_key r))
      else None)"

lemma nonempty_keys_append [simp]: "nonempty_keys (xs @ ys) = nonempty_keys xs @ nonempty_keys ys"
  by (simp add: nonempty_keys_def)

lemma interfaces_ok_Nil [simp]: "interfaces_ok []"
  by (simp add: interfaces_ok_def nonempty_keys_def)

lemma interfaces_ok_snoc: "interfaces_ok (pre @ [r]) \<longleftrightarrow> interfaces_ok pre \<and> offence pre r = None"
  by (auto simp: interfaces_ok_def offence_def nonempty_keys_def)

lemma interfaces_ok_prefix: "interfaces_ok (xs @ ys) \<Longrightarrow> interfaces_ok xs"
  by (simp add: interfaces_ok_def)

text \<open>The sets the loop has filled after the interfaces \<open>pre\<close>.\<close>

definition seen_addrs :: "ENIReference list \<Rightarrow> Addr set" where
  "seen_addrs pre = {a. \<exists>r\<in>set pre. ParseAddr (ref_privateIP r) = Some a}"

abbreviation check_after :: "ENIReference list \<Rightarrow> ENIReference list \<Rightarrow> pool_denial + string set" where
  "check_after pre \<equiv> check_interfaces (ref_id ` set pre) (seen_addrs pre) (set (nonempty_keys pre))"

lemma seen_addrs_snoc: "ParseAddr (ref_privateIP r) = Some a \<Longrightarrow> seen_addrs (pre @ [r]) = insert a (seen_addrs pre)"
  by (auto simp: seen_addrs_def)

lemma seen_addr_iff:
  assumes "ParseAddr (ref_privateIP r) = Some (Addr4 w)"
  shows "Addr4 w \<in> seen_addrs pre \<longleftrightarrow> ref_privateIP r \<in> ref_privateIP ` set pre"
proof
  assume "Addr4 w \<in> seen_addrs pre"
  then show "ref_privateIP r \<in> ref_privateIP ` set pre"
    using ParseAddr_Addr4_inj [OF assms] by (auto simp: seen_addrs_def)
next
  assume "ref_privateIP r \<in> ref_privateIP ` set pre"
  then obtain q where "q \<in> set pre" "ref_privateIP q = ref_privateIP r" by force
  then show "Addr4 w \<in> seen_addrs pre"
    using assms by (auto simp: seen_addrs_def intro!: bexI [of _ q])
qed

lemma has_ipv4_cases:
  obtains w where "ParseAddr (ref_privateIP r) = Some (Addr4 w)" "has_ipv4 r"
  | "\<not> has_ipv4 r" "\<And>ip. ParseAddr (ref_privateIP r) = Some ip \<Longrightarrow> \<not> Is4 ip"
proof (cases "has_ipv4 r")
  case True
  then show thesis using that(1) by (auto simp: has_ipv4_def)
next
  case False
  then have "\<not> Is4 ip" if "ParseAddr (ref_privateIP r) = Some ip" for ip
    using that by (cases ip) (auto simp: has_ipv4_def)
  with False show thesis by (rule that(2))
qed

lemma mem_nonempty_keys: "k \<noteq> '''' \<Longrightarrow> k \<in> set (nonempty_keys pre) \<longleftrightarrow> k \<in> ref_key ` set pre"
  by (auto simp: nonempty_keys_def)

lemma check_after_offence:
  assumes "offence pre r = Some e"
  shows "check_after pre (r # rest) = Inl e"
proof (cases r rule: has_ipv4_cases)
  case (1 w)
  with assms show ?thesis
    by (auto simp: offence_def seen_addr_iff mem_nonempty_keys split: if_splits)
next
  case 2
  with assms show ?thesis by (auto simp: offence_def split: if_splits option.splits)
qed

lemma check_after_fine:
  assumes "offence pre r = None"
  shows "check_after pre (r # rest) = check_after (pre @ [r]) rest"
proof (cases r rule: has_ipv4_cases)
  case (1 w)
  have keys: "set (nonempty_keys (pre @ [r])) =
      (if ref_key r = '''' then set (nonempty_keys pre) else insert (ref_key r) (set (nonempty_keys pre)))"
    by (auto simp: nonempty_keys_def)
  from 1 assms have "ref_id r \<notin> ref_id ` set pre" "Addr4 w \<notin> seen_addrs pre"
    "ref_key r \<noteq> '''' \<Longrightarrow> ref_key r \<notin> set (nonempty_keys pre)"
    by (auto simp: offence_def seen_addr_iff mem_nonempty_keys split: if_splits)
  with 1(1) show ?thesis
    by (simp add: seen_addrs_snoc keys del: nonempty_keys_append)
next
  case 2
  with assms show ?thesis by (auto simp: offence_def split: if_splits)
qed

lemma check_after_outcome:
  assumes "interfaces_ok pre"
  shows "case check_after pre refs of
      Inr W \<Rightarrow> interfaces_ok (pre @ refs) \<and> W = ref_id ` set (pre @ refs)
    | Inl e \<Rightarrow> \<exists>p r q. refs = p @ r # q \<and> interfaces_ok (pre @ p) \<and> offence (pre @ p) r = Some e"
  using assms
proof (induction refs arbitrary: pre)
  case Nil
  then show ?case by simp
next
  case (Cons r rest)
  show ?case
  proof (cases "offence pre r")
    case None
    with Cons.prems have "interfaces_ok (pre @ [r])" by (simp add: interfaces_ok_snoc)
    note IH = Cons.IH [OF this]
    show ?thesis
    proof (cases "check_after (pre @ [r]) rest")
      case (Inl e)
      with IH obtain p q x where "rest = p @ x # q" "interfaces_ok ((pre @ [r]) @ p)"
        "offence ((pre @ [r]) @ p) x = Some e" by auto
      with Inl show ?thesis unfolding check_after_fine [OF None]
        by (auto intro!: exI [of _ "r # p"])
    next
      case (Inr W)
      with IH show ?thesis unfolding check_after_fine [OF None] by auto
    qed
  next
    case (Some e)
    with Cons.prems show ?thesis unfolding check_after_offence [OF Some]
      by (auto intro!: exI [of _ "[]"])
  qed
qed

lemma check_interfaces_start: "check_interfaces {} {} {} refs = check_after [] refs"
  by (simp add: seen_addrs_def nonempty_keys_def)

lemma check_interfaces_ok_iff:
  "check_interfaces {} {} {} refs = Inr W \<longleftrightarrow> interfaces_ok refs \<and> W = ref_id ` set refs"
proof (cases "check_after [] refs")
  case (Inl e)
  with check_after_outcome [of "[]" refs] obtain p r q
    where "refs = p @ r # q" "interfaces_ok p" "offence p r = Some e" by auto
  then have "\<not> interfaces_ok refs"
    using interfaces_ok_prefix [of "p @ [r]" q] by (auto simp: interfaces_ok_snoc)
  with Inl show ?thesis unfolding check_interfaces_start by simp
next
  case (Inr W')
  with check_after_outcome [of "[]" refs] show ?thesis unfolding check_interfaces_start by auto
qed

lemma check_interfaces_error:
  "check_interfaces {} {} {} refs = Inl e \<Longrightarrow>
     \<exists>p r q. refs = p @ r # q \<and> interfaces_ok p \<and> offence p r = Some e"
  using check_after_outcome [of "[]" refs] unfolding check_interfaces_start by auto

section \<open>The validator meets its specification\<close>

lemma first_registered_None: "first_registered W refs = None \<longleftrightarrow> W \<inter> ref_id ` set refs = {}"
  by (induction refs) auto

lemma first_registered_Some:
  "first_registered W refs = Some i \<Longrightarrow> i \<in> W \<and> i \<in> ref_id ` set refs"
  by (induction refs) (auto split: if_splits)

lemma check_others_Some:
  "check_others W obj items = Some e \<Longrightarrow> \<exists>other\<in>set items. pool_name other \<noteq> pool_name obj \<and>
      (e = NetworkOwned (pool_name other) (pool_region obj) (pool_vpcID obj) \<and>
         pool_region other = pool_region obj \<and> pool_vpcID other = pool_vpcID obj \<or>
       (\<exists>i. e = ENIRegistered i (pool_name other) \<and> i \<in> W \<and> i \<in> ref_id ` set (pool_interfaces other)))"
proof (induction items)
  case (Cons other rest)
  then show ?case
    by (auto split: if_splits option.splits dest: first_registered_Some)
qed simp

lemma check_others_iff:
  "check_others (ref_id ` set (pool_interfaces obj)) obj items = None \<longleftrightarrow>
     (\<forall>other\<in>set items. pool_name other \<noteq> pool_name obj \<longrightarrow> separate_pools obj other)"
proof (induction items)
  case Nil
  then show ?case by simp
next
  case (Cons other rest)
  have "check_others (ref_id ` set (pool_interfaces obj)) obj (other # rest) = None \<longleftrightarrow>
      (pool_name other \<noteq> pool_name obj \<longrightarrow> separate_pools obj other) \<and>
      check_others (ref_id ` set (pool_interfaces obj)) obj rest = None"
    using first_registered_None [of "ref_id ` set (pool_interfaces obj)" "pool_interfaces other"]
    by (cases "first_registered (ref_id ` set (pool_interfaces obj)) (pool_interfaces other)")
      (auto simp: separate_pools_def)
  with Cons.IH show ?case by simp
qed

lemma separate_pools_sym: "separate_pools p q \<Longrightarrow> separate_pools q p"
  by (auto simp: separate_pools_def)

lemma validate_with_client_iff:
  assumes "p_list_pools P s = Inr items"
  shows "validate_ENIPool (Some P) obj s = None \<longleftrightarrow> interfaces_ok (pool_interfaces obj) \<and>
     (\<forall>other\<in>set items. pool_name other \<noteq> pool_name obj \<longrightarrow> separate_pools obj other)"
proof (cases "check_interfaces {} {} {} (pool_interfaces obj)")
  case (Inl e)
  moreover have "\<not> interfaces_ok (pool_interfaces obj)"
    using Inl check_interfaces_ok_iff [of "pool_interfaces obj"] by auto
  ultimately show ?thesis by (simp add: validate_ENIPool_def)
next
  case (Inr W)
  then have "interfaces_ok (pool_interfaces obj)" "W = ref_id ` set (pool_interfaces obj)"
    by (simp_all add: check_interfaces_ok_iff)
  with Inr assms show ?thesis by (simp add: validate_ENIPool_def check_others_iff)
qed

text \<open>Storing a validated pool under its name keeps the pools apart.\<close>

lemma pools_ok_put:
  assumes "pools_ok ps" "interfaces_ok (pool_interfaces obj)"
    "\<forall>other\<in>set ps. pool_name other \<noteq> pool_name obj \<longrightarrow> separate_pools obj other"
  shows "pools_ok (put_by pool_name obj ps)"
proof -
  from assms(1) have d: "distinct (map pool_name ps)" by (simp add: pools_ok_def)
  from assms separate_pools_sym show ?thesis
    by (auto simp: pools_ok_def distinct_put set_put [OF d] list_all_iff)
qed

end
