(* ===== verification/Sort_Slice.thy ===== *)
theory Sort_Slice
  imports Prelude "HOL-Library.Multiset"
begin

text \<open>
  \<^verbatim>\<open>sort.Slice\<close> as the allocator uses it. The documented contract (a permutation, ordered when the
  comparison is a strict weak order, not stable) is the locale \<open>slice_sorter\<close>. \<open>sort_Slice\<close> is the
  insertion sort Go runs on slices of at most twelve elements. On longer slices Go runs pdqsort;
  \<open>slice_sorter.unique\<close> shows that every sorter meeting the contract gives the same list when the
  comparison separates the elements, which is the case on every pool the webhook admits.
\<close>

section \<open>Orders\<close>

definition strict_weak_on :: "('a \<Rightarrow> 'a \<Rightarrow> bool) \<Rightarrow> 'a set \<Rightarrow> bool" where
  "strict_weak_on lt A \<longleftrightarrow>
     (\<forall>x\<in>A. \<not> lt x x) \<and>
     (\<forall>x\<in>A. \<forall>y\<in>A. \<forall>z\<in>A. lt x y \<longrightarrow> lt y z \<longrightarrow> lt x z) \<and>
     (\<forall>x\<in>A. \<forall>y\<in>A. \<forall>z\<in>A. \<not> lt x y \<longrightarrow> \<not> lt y z \<longrightarrow> \<not> lt x z)"

text \<open>The comparison separates the elements of a set: any two different ones are ordered.\<close>

definition separates :: "('a \<Rightarrow> 'a \<Rightarrow> bool) \<Rightarrow> 'a set \<Rightarrow> bool" where
  "separates lt A \<longleftrightarrow> (\<forall>x\<in>A. \<forall>y\<in>A. x \<noteq> y \<longrightarrow> lt x y \<or> lt y x)"

definition ordered_by :: "('a \<Rightarrow> 'a \<Rightarrow> bool) \<Rightarrow> 'a list \<Rightarrow> bool" where
  "ordered_by lt = sorted_wrt (\<lambda>x y. \<not> lt y x)"

lemma strict_weak_on_key:
  fixes f :: "'a \<Rightarrow> 'b::linorder"
  assumes "\<And>x y. x \<in> A \<Longrightarrow> y \<in> A \<Longrightarrow> lt x y \<longleftrightarrow> f x < f y"
  shows "strict_weak_on lt A"
  unfolding strict_weak_on_def using assms by (auto simp: not_less)

lemma strict_weak_asym:
  assumes "strict_weak_on lt A" "x \<in> A" "y \<in> A" "lt x y"
  shows "\<not> lt y x"
  using assms unfolding strict_weak_on_def by blast

lemma strict_weak_negtrans:
  assumes "strict_weak_on lt A" "x \<in> A" "y \<in> A" "z \<in> A" "\<not> lt x y" "\<not> lt y z"
  shows "\<not> lt x z"
  using assms unfolding strict_weak_on_def by blast

lemma strict_weak_on_subset: "strict_weak_on lt A \<Longrightarrow> B \<subseteq> A \<Longrightarrow> strict_weak_on lt B"
  unfolding strict_weak_on_def by blast

lemma separates_subset: "separates lt A \<Longrightarrow> B \<subseteq> A \<Longrightarrow> separates lt B"
  unfolding separates_def by blast

lemma ordered_by_unique:
  assumes "mset xs = mset ys" "ordered_by lt xs" "ordered_by lt ys" "separates lt (set xs)"
  shows "xs = ys"
  using assms
proof (induction xs arbitrary: ys)
  case Nil
  then show ?case by simp
next
  case (Cons x xs)
  then obtain y ys' where ys: "ys = y # ys'" by (cases ys) auto
  from Cons.prems(1) ys have sets: "set (x # xs) = set (y # ys')" by (metis set_mset_mset)
  have "x = y"
  proof (rule ccontr)
    assume "x \<noteq> y"
    with sets have "x \<in> set ys'" "y \<in> set xs" by auto
    with Cons.prems(2,3) ys have "\<not> lt y x" "\<not> lt x y" by (auto simp: ordered_by_def)
    with \<open>x \<noteq> y\<close> \<open>y \<in> set xs\<close> Cons.prems(4) show False by (auto simp: separates_def)
  qed
  moreover have "xs = ys'"
  proof (rule Cons.IH)
    show "mset xs = mset ys'" using Cons.prems(1) ys \<open>x = y\<close> by simp
    show "ordered_by lt xs" "ordered_by lt ys'" using Cons.prems(2,3) ys by (simp_all add: ordered_by_def)
    show "separates lt (set xs)" using Cons.prems(4) by (rule separates_subset) auto
  qed
  ultimately show ?case using ys by simp
qed

section \<open>The contract\<close>

locale slice_sorter =
  fixes srt :: "('a \<Rightarrow> 'a \<Rightarrow> bool) \<Rightarrow> 'a list \<Rightarrow> 'a list"
  assumes permutes: "mset (srt lt xs) = mset xs"
    and orders: "strict_weak_on lt (set xs) \<Longrightarrow> ordered_by lt (srt lt xs)"
begin

lemma set_srt [simp]: "set (srt lt xs) = set xs"
  by (metis permutes set_mset_mset)

lemma length_srt [simp]: "length (srt lt xs) = length xs"
  by (metis permutes size_mset)

lemma srt_Nil_iff [simp]: "srt lt xs = [] \<longleftrightarrow> xs = []"
  by (metis length_srt length_0_conv)

lemma distinct_map_srt: "distinct (map f (srt lt xs)) \<longleftrightarrow> distinct (map f xs)"
  by (metis mset_map permutes mset_eq_imp_distinct_iff)

lemma unique:
  assumes "strict_weak_on lt (set xs)" "separates lt (set xs)"
    and "mset ys = mset xs" "ordered_by lt ys"
  shows "ys = srt lt xs"
proof (rule ordered_by_unique)
  show "mset ys = mset (srt lt xs)" using assms(3) permutes by metis
  show "ordered_by lt ys" by (rule assms(4))
  show "ordered_by lt (srt lt xs)" using assms(1) by (rule orders)
  show "separates lt (set ys)" using assms(2,3) by (metis set_mset_mset)
qed

end

section \<open>Insertion sort\<close>

text \<open>
  \<open>sift_left lt x ps\<close> moves \<open>x\<close> left past the elements it is less than; \<open>ps\<close> is the sorted prefix
  before it, nearest element first. The outer loop does this for every index.
\<close>

fun sift_left :: "('a \<Rightarrow> 'a \<Rightarrow> bool) \<Rightarrow> 'a \<Rightarrow> 'a list \<Rightarrow> 'a list" where
  "sift_left lt x [] = [x]"
| "sift_left lt x (p # ps) = (if lt x p then p # sift_left lt x ps else x # p # ps)"

fun insertion_loop :: "('a \<Rightarrow> 'a \<Rightarrow> bool) \<Rightarrow> 'a list \<Rightarrow> 'a list \<Rightarrow> 'a list" where
  "insertion_loop lt ps [] = rev ps"
| "insertion_loop lt ps (x # xs) = insertion_loop lt (sift_left lt x ps) xs"

definition sort_Slice :: "('a \<Rightarrow> 'a \<Rightarrow> bool) \<Rightarrow> 'a list \<Rightarrow> 'a list" where
  "sort_Slice lt xs = insertion_loop lt [] xs"

lemma mset_sift_left: "mset (sift_left lt x ps) = add_mset x (mset ps)"
  by (induction ps) auto

lemma set_sift_left: "set (sift_left lt x ps) = insert x (set ps)"
  by (induction ps) auto

lemma mset_insertion_loop: "mset (insertion_loop lt ps xs) = mset ps + mset xs"
  by (induction lt ps xs rule: insertion_loop.induct) (auto simp: mset_sift_left)

lemma sift_left_ordered:
  assumes "sorted_wrt (\<lambda>x y. \<not> lt x y) ps" "strict_weak_on lt (insert x (set ps))"
  shows "sorted_wrt (\<lambda>x y. \<not> lt x y) (sift_left lt x ps)"
  using assms
proof (induction ps)
  case Nil
  then show ?case by simp
next
  case (Cons p ps)
  have weak: "strict_weak_on lt (insert x (set ps))"
    using Cons.prems(2) by (rule strict_weak_on_subset) auto
  show ?case
  proof (cases "lt x p")
    case True
    have "\<not> lt p x" by (rule strict_weak_asym [OF Cons.prems(2) _ _ True]) auto
    moreover have "sorted_wrt (\<lambda>x y. \<not> lt x y) (sift_left lt x ps)"
      using Cons.prems(1) by (intro Cons.IH weak) simp
    ultimately show ?thesis using True Cons.prems(1) by (simp add: set_sift_left)
  next
    case False
    have "\<not> lt x q" if "q \<in> set ps" for q
    proof -
      have "\<not> lt p q" using that Cons.prems(1) by simp
      from strict_weak_negtrans [OF Cons.prems(2) _ _ _ False this] that show ?thesis by simp
    qed
    with False Cons.prems(1) show ?thesis by simp
  qed
qed

lemma insertion_loop_ordered:
  assumes "sorted_wrt (\<lambda>x y. \<not> lt x y) ps" "strict_weak_on lt (set ps \<union> set xs)"
  shows "ordered_by lt (insertion_loop lt ps xs)"
  using assms
proof (induction lt ps xs rule: insertion_loop.induct)
  case (1 lt ps)
  then show ?case by (simp add: ordered_by_def sorted_wrt_rev)
next
  case (2 lt ps x xs)
  have "strict_weak_on lt (insert x (set ps))"
    using "2.prems"(2) by (rule strict_weak_on_subset) auto
  with "2.prems" show ?case
    by (auto intro!: "2.IH" sift_left_ordered simp: set_sift_left)
qed

interpretation go_sort: slice_sorter sort_Slice
proof
  show "mset (sort_Slice lt xs) = mset xs" for lt and xs :: "'a list"
    by (simp add: sort_Slice_def mset_insertion_loop)
  show "ordered_by lt (sort_Slice lt xs)" if "strict_weak_on lt (set xs)" for lt and xs :: "'a list"
    using that by (simp add: sort_Slice_def insertion_loop_ordered)
qed

end
