(* ===== verification/Allocator.thy ===== *)
theory Allocator
  imports Pool_Webhook Sort_Slice
begin

text \<open>
  The allocation steps that the AWSMachine webhook and the AWSMachine reconciler both contain, with
  the same code in \<^verbatim>\<open>internal/webhook/v1beta2/awsmachine_webhook.go\<close> and
  \<^verbatim>\<open>internal/controller/awsmachine_controller.go\<close>: matching a pool to a network, reading the
  requested key, ordering the candidates and creating the claim. The two components compose them
  (\<open>AWSMachine_Webhook\<close>, \<open>AWSMachine_Controller\<close>).

  The lemmas: on a validated pool the comparison is the numeric order of the addresses, the result of
  the sort does not depend on the algorithm, and the creation loop takes the first candidate whose
  name is free, against any store that keeps the contract \<open>claim_store\<close>.
\<close>

section \<open>Matching a pool\<close>

fun match_pools :: "string \<Rightarrow> string \<Rightarrow> ENIPool option \<Rightarrow> ENIPool list \<Rightarrow> error + ENIPool option" where
  "match_pools region vpcID found [] = Inr found"
| "match_pools region vpcID found (pool # rest) =
     (if pool_region pool = region \<and> pool_vpcID pool = vpcID then
        if found \<noteq> None then Inl (MultiplePools region vpcID)
        else match_pools region vpcID (Some pool) rest
      else match_pools region vpcID found rest)"

section \<open>The requested key\<close>

text \<open>An owner reference to a Machine of the Cluster API group; a version that does not parse is skipped.\<close>

definition is_machine_owner :: "'s ports \<Rightarrow> OwnerReference \<Rightarrow> bool" where
  "is_machine_owner P owner \<longleftrightarrow>
     (case p_parse_group P (owner_APIVersion owner) of
        None \<Rightarrow> False
      | Some g \<Rightarrow> owner_Kind owner = ''Machine'' \<and> g = capi_group)"

fun key_from_owners :: "'s ports \<Rightarrow> string \<Rightarrow> 's \<Rightarrow> OwnerReference list \<Rightarrow> error + string" where
  "key_from_owners P ns s [] = Inr ''''"
| "key_from_owners P ns s (owner # rest) =
     (if \<not> is_machine_owner P owner then key_from_owners P ns s rest
      else case p_get_machine P s ns (owner_Name owner) of
        Inl e \<Rightarrow> Inl (GetKeyMachine e)
      | Inr machine \<Rightarrow> Inr (map_index (m_annotations (mc_meta machine)) InterfaceKeyAnnotation))"

section \<open>Ordering the candidates\<close>

text \<open>The function passed to \<^verbatim>\<open>sort.Slice\<close>: by address, or by text if either does not parse.\<close>

definition ip_less :: "ENIReference \<Rightarrow> ENIReference \<Rightarrow> bool" where
  "ip_less a b = (case (ParseAddr (ref_privateIP a), ParseAddr (ref_privateIP b)) of
     (Some left, Some right) \<Rightarrow> Addr_Compare left right < 0
   | _ \<Rightarrow> ref_privateIP a < ref_privateIP b)"

text \<open>The candidates: all interfaces, or those with the requested key, of which there must be one.\<close>

definition configured_for :: "ENIPool \<Rightarrow> string \<Rightarrow> error + ENIReference list" where
  "configured_for pool interfaceKey =
     (if interfaceKey \<noteq> '''' then
        let configured = filter (\<lambda>candidate. ref_key candidate = interfaceKey) (pool_interfaces pool)
        in if configured = [] then Inl (NoSuchKey (pool_name pool) interfaceKey) else Inr configured
      else Inr (pool_interfaces pool))"

section \<open>Creating the claim\<close>

definition new_claim :: "NamespacedObjectReference \<Rightarrow> string \<Rightarrow> ENIReference \<Rightarrow> ENIClaim" where
  "new_claim mref pool requested = \<lparr>
     claim_meta = \<lparr>m_name = ref_id requested, m_namespace = '''', m_generation = 0,
       m_creationTimestamp = 0, m_deletionTimestamp = None, m_annotations = None, m_labels = None,
       m_finalizers = [ClaimFinalizer], m_ownerReferences = []\<rparr>,
     claim_spec = \<lparr>cs_machineRef = mref, cs_poolRef = \<lparr>cref_name = pool\<rparr>, cs_eniID = ref_id requested\<rparr>,
     claim_status = \<lparr>cst_phase = '''', cst_privateIP = '''', cst_conditions = []\<rparr>\<rparr>"

fun create_first ::
  "(ENIClaim \<Rightarrow> 's \<Rightarrow> (api_error + ENIClaim) \<times> 's) \<Rightarrow> NamespacedObjectReference \<Rightarrow> string \<Rightarrow>
   ENIReference list \<Rightarrow> 's \<Rightarrow> (error + ENIClaim option) \<times> 's" where
  "create_first create mref pool [] s = (Inr None, s)"
| "create_first create mref pool (requested # rest) s =
     (case create (new_claim mref pool requested) s of
        (Inl e, s') \<Rightarrow>
          if e = AlreadyExists then create_first create mref pool rest s'
          else (Inl (ApiError e), s')
      | (Inr claim, s') \<Rightarrow> (Inr (Some claim), s'))"

text \<open>The candidates in order of address, and the first claim that can be created for one of them.\<close>

definition allocate ::
  "(ENIClaim \<Rightarrow> 's \<Rightarrow> (api_error + ENIClaim) \<times> 's) \<Rightarrow> NamespacedObjectReference \<Rightarrow> ENIPool \<Rightarrow>
   string \<Rightarrow> 's \<Rightarrow> (error + ENIClaim option) \<times> 's" where
  "allocate create mref pool interfaceKey s =
     (case configured_for pool interfaceKey of
        Inl e \<Rightarrow> (Inl e, s)
      | Inr configured \<Rightarrow>
          create_first create mref (pool_name pool) (sort_Slice ip_less configured) s)"

text \<open>What no CREATE changes, no allocation changes.\<close>

lemma create_first_preserves:
  assumes frame: "\<And>c t. f (snd (create c t)) = f t"
  shows "create_first create mref pool rs s = (r, s') \<Longrightarrow> f s' = f s"
proof (induction rs arbitrary: s)
  case (Cons x rs)
  obtain o' t where c: "create (new_claim mref pool x) s = (o', t)" by force
  with frame [of "new_claim mref pool x" s] have "f t = f s" by simp
  with Cons c show ?case by (auto split: sum.splits if_splits)
qed simp

lemma allocate_preserves:
  assumes frame: "\<And>c t. f (snd (create c t)) = f t" and run: "allocate create mref pool k s = (r, s')"
  shows "f s' = f s"
  using run create_first_preserves [of f create, OF frame] by (auto simp: allocate_def split: sum.splits)

lemma new_claim_simps [simp]:
  "claim_name (new_claim m p r) = ref_id r" "claim_eni (new_claim m p r) = ref_id r"
  "claim_machine (new_claim m p r) = m" "claim_pool (new_claim m p r) = p"
  "claim_finalizers (new_claim m p r) = [ClaimFinalizer]"
  by (simp_all add: new_claim_def)

section \<open>Facts about the matching loop\<close>

abbreviation matches :: "string \<Rightarrow> string \<Rightarrow> ENIPool \<Rightarrow> bool" where
  "matches region vpcID p \<equiv> pool_region p = region \<and> pool_vpcID p = vpcID"

lemma match_pools_filter:
  "match_pools region vpcID found ps =
     (case (found, filter (matches region vpcID) ps) of
        (f, []) \<Rightarrow> Inr f
      | (None, [p]) \<Rightarrow> Inr (Some p)
      | _ \<Rightarrow> Inl (MultiplePools region vpcID))"
proof (induction ps arbitrary: found)
  case Nil
  show ?case by (cases found) simp_all
next
  case (Cons p ps)
  then show ?case by (cases found) (auto split: list.splits)
qed

lemma match_pools_unambiguous:
  assumes "pools_ok ps"
  shows "\<exists>r. match_pools region vpcID None ps = Inr r"
proof -
  have "length (filter (matches region vpcID) ps) \<le> 1"
  proof (rule ccontr)
    assume "\<not> ?thesis"
    then obtain p q r where f: "filter (matches region vpcID) ps = p # q # r"
      by (cases "filter (matches region vpcID) ps"; cases "tl (filter (matches region vpcID) ps)") auto
    from assms have "distinct (map pool_name (filter (matches region vpcID) ps))"
      by (simp add: pools_ok_def distinct_map_filter_key)
    with f have "pool_name p \<noteq> pool_name q" by simp
    moreover from f have "{p, q} \<subseteq> {x \<in> set ps. matches region vpcID x}"
      by (metis empty_subsetI insert_subset list.set_intros set_filter)
    ultimately show False using assms by (auto simp: pools_ok_def separate_pools_def)
  qed
  then show ?thesis by (auto simp: match_pools_filter split: list.split)
qed

section \<open>The order on a validated pool\<close>

text \<open>The address of an interface as a number; 0 stands for a text that is no IPv4 address.\<close>

definition ip_value :: "ENIReference \<Rightarrow> int" where
  "ip_value r = (case ParseAddr (ref_privateIP r) of Some (Addr4 w) \<Rightarrow> uint w | _ \<Rightarrow> 0)"

lemma ip_less_value: "has_ipv4 a \<Longrightarrow> has_ipv4 b \<Longrightarrow> ip_less a b \<longleftrightarrow> ip_value a < ip_value b"
  by (auto simp: has_ipv4_def ip_less_def ip_value_def Addr_Compare_neg word_less_def)

lemma ip_value_inj: "has_ipv4 a \<Longrightarrow> has_ipv4 b \<Longrightarrow> ip_value a = ip_value b \<Longrightarrow> ref_privateIP a = ref_privateIP b"
  by (auto simp: has_ipv4_def ip_value_def simp flip: word_uint_eq_iff dest: ParseAddr_Addr4_inj)

lemma interfaces_ok_subset:
  assumes "interfaces_ok refs" "set xs \<subseteq> set refs"
  shows "strict_weak_on ip_less (set xs)" "separates ip_less (set xs)"
proof -
  have ip: "has_ipv4 r" if "r \<in> set xs" for r
    using that assms by (auto simp: interfaces_ok_def list_all_iff)
  show "strict_weak_on ip_less (set xs)"
    by (rule strict_weak_on_key [of _ _ ip_value]) (simp add: ip_less_value ip)
  have "a = b" if "a \<in> set xs" "b \<in> set xs" "ip_value a = ip_value b" for a b
  proof -
    from ip_value_inj [OF ip ip] that have "ref_privateIP a = ref_privateIP b" by blast
    moreover have "distinct (map ref_privateIP refs)" using assms(1) by (simp add: interfaces_ok_def)
    ultimately show ?thesis using that assms(2) by (meson distinct_map_eq subsetD)
  qed
  then show "separates ip_less (set xs)"
    unfolding separates_def by (metis ip ip_less_value linorder_neq_iff)
qed

lemma sorted_candidates:
  assumes "interfaces_ok refs" "set xs \<subseteq> set refs"
  shows "sorted_wrt (\<lambda>a b. ip_value a \<le> ip_value b) (sort_Slice ip_less xs)"
proof -
  have "ordered_by ip_less (sort_Slice ip_less xs)"
    using interfaces_ok_subset(1) [OF assms] by (rule go_sort.orders)
  then have "sorted_wrt (\<lambda>a b. \<not> ip_less b a) (sort_Slice ip_less xs)" by (simp add: ordered_by_def)
  then show ?thesis
  proof (rule sorted_wrt_mono_rel [rotated])
    fix a b
    assume "a \<in> set (sort_Slice ip_less xs)" "b \<in> set (sort_Slice ip_less xs)" "\<not> ip_less b a"
    moreover from this assms have "has_ipv4 a" "has_ipv4 b" by (auto simp: interfaces_ok_def list_all_iff)
    ultimately show "ip_value a \<le> ip_value b" by (simp add: ip_less_value)
  qed
qed

lemma configured_for_Inr:
  "configured_for pool k = Inr cfg \<Longrightarrow>
     set cfg = {r \<in> set (pool_interfaces pool). k = '''' \<or> ref_key r = k}"
  by (auto simp: configured_for_def Let_def split: if_splits)

lemma configured_for_Inl:
  "configured_for pool k = Inl e \<longleftrightarrow>
     e = NoSuchKey (pool_name pool) k \<and> k \<noteq> '''' \<and> k \<notin> ref_key ` set (pool_interfaces pool)"
  by (auto simp: configured_for_def Let_def filter_empty_conv)

text \<open>What an allocation may choose from, in terms of the stored claims.\<close>

definition free_candidate :: "(string \<rightharpoonup> ENIClaim) \<Rightarrow> ENIPool \<Rightarrow> string \<Rightarrow> ENIReference \<Rightarrow> bool" where
  "free_candidate cs pool k r \<longleftrightarrow>
     r \<in> set (pool_interfaces pool) \<and> (k = '''' \<or> ref_key r = k) \<and> cs (ref_id r) = None"

text \<open>The claim \<open>c\<close> reserves the interface \<open>r\<close> of \<open>pool\<close> for the machine \<open>m\<close>.\<close>

definition reserves :: "ENIClaim \<Rightarrow> NamespacedObjectReference \<Rightarrow> string \<Rightarrow> ENIReference \<Rightarrow> bool" where
  "reserves c m pool r \<longleftrightarrow> claim_name c = ref_id r \<and>
     claim_spec c = \<lparr>cs_machineRef = m, cs_poolRef = \<lparr>cref_name = pool\<rparr>, cs_eniID = ref_id r\<rparr> \<and>
     claim_finalizers c = [ClaimFinalizer]"

text \<open>What the creation loop and an allocation did, in terms of the claims before and after.\<close>

definition loop_outcome :: "(string \<rightharpoonup> ENIClaim) \<Rightarrow> NamespacedObjectReference \<Rightarrow> string \<Rightarrow>
    ENIReference list \<Rightarrow> error + ENIClaim option \<Rightarrow> (string \<rightharpoonup> ENIClaim) \<Rightarrow> bool" where
  "loop_outcome cs m p rs r cs' \<longleftrightarrow>
     (case r of
        Inl e \<Rightarrow> cs' = cs \<and> e \<noteq> ApiError AlreadyExists
      | Inr None \<Rightarrow> cs' = cs \<and> (\<forall>x\<in>set rs. cs (ref_id x) \<noteq> None)
      | Inr (Some c) \<Rightarrow> \<exists>pre x post. rs = pre @ x # post \<and> (\<forall>y\<in>set pre. cs (ref_id y) \<noteq> None) \<and>
          cs (ref_id x) = None \<and> cs' = cs(ref_id x \<mapsto> c) \<and> reserves c m p x)"

definition allocated :: "(string \<rightharpoonup> ENIClaim) \<Rightarrow> NamespacedObjectReference \<Rightarrow> ENIPool \<Rightarrow> string \<Rightarrow>
    ENIClaim \<Rightarrow> (string \<rightharpoonup> ENIClaim) \<Rightarrow> bool" where
  "allocated cs m pool k c cs' \<longleftrightarrow>
     (\<exists>r. free_candidate cs pool k r \<and> reserves c m (pool_name pool) r \<and> cs' = cs(ref_id r \<mapsto> c) \<and>
        (interfaces_ok (pool_interfaces pool) \<longrightarrow>
           (\<forall>r'. free_candidate cs pool k r' \<longrightarrow> ip_value r \<le> ip_value r')))"

lemma allocated_claims:
  "allocated cs r pool k c cs' \<Longrightarrow> \<exists>x\<in>set (pool_interfaces pool). cs (ref_id x) = None \<and>
     cs' = cs(ref_id x \<mapsto> c) \<and> claim_name c = ref_id x \<and> claim_eni c = ref_id x \<and> claim_machine c = r"
  by (auto simp: allocated_def free_candidate_def reserves_def)

lemma has_ipv4_nonempty: "has_ipv4 r \<Longrightarrow> ref_privateIP r \<noteq> ''''"
proof
  assume "has_ipv4 r" "ref_privateIP r = ''''"
  moreover have "ParseAddr '''' = None" by code_simp
  ultimately show False by (simp add: has_ipv4_def)
qed

section \<open>The creation loop against a claim store\<close>

lemma loop_outcome_taken:
  assumes "loop_outcome cs m p rs r cs'" "cs (ref_id x) \<noteq> None"
  shows "loop_outcome cs m p (x # rs) r cs'"
proof (cases r)
  case (Inr oc)
  show ?thesis
  proof (cases oc)
    case (Some c)
    with assms Inr obtain pre y post where "rs = pre @ y # post"
      "\<forall>z\<in>set pre. cs (ref_id z) \<noteq> None" "cs (ref_id y) = None"
      "cs' = cs(ref_id y \<mapsto> c)" "reserves c m p y" by (auto simp: loop_outcome_def)
    with Inr Some assms(2) show ?thesis by (auto simp: loop_outcome_def intro!: exI [of _ "x # pre"])
  qed (use assms Inr in \<open>simp add: loop_outcome_def\<close>)
qed (use assms in \<open>simp add: loop_outcome_def\<close>)

text \<open>CREATE of \<open>c\<close> on a taken name reports that the name is taken, and not some other error.\<close>

definition reports_taken :: "(ENIClaim \<Rightarrow> 's \<Rightarrow> (api_error + ENIClaim) \<times> 's) \<Rightarrow>
    ('s \<Rightarrow> string \<rightharpoonup> ENIClaim) \<Rightarrow> ENIClaim \<Rightarrow> bool" where
  "reports_taken create claims c \<longleftrightarrow>
     (\<forall>s. claims s (claim_name c) \<noteq> None \<longrightarrow> fst (create c s) = Inl AlreadyExists)"

context claim_store
begin

text \<open>
  The loop takes the first candidate whose name is free, skipping taken ones; with no free candidate
  it returns nil; after any other error it stops. Only a success changes the stored claims.
\<close>

lemma create_new_claim:
  "create (new_claim m p x) s = (Inr c, t) \<Longrightarrow>
     claims s (ref_id x) = None \<and> claims t = (claims s)(ref_id x \<mapsto> c) \<and> reserves c m p x"
  using create_fresh [of "new_claim m p x"] create_stores [of "new_claim m p x"]
    create_keeps [of "new_claim m p x"] by (fastforce simp: reserves_def new_claim_def)

lemma create_first_outcome:
  "create_first create m p rs s = (r, s') \<Longrightarrow> loop_outcome (claims s) m p rs r (claims s')"
proof (induction rs arbitrary: s)
  case Nil
  then show ?case by (auto simp: loop_outcome_def)
next
  case (Cons x rs)
  obtain o' t where cr: "create (new_claim m p x) s = (o', t)" by force
  show ?case
  proof (cases o')
    case (Inr c)
    with cr create_new_claim Cons.prems show ?thesis
      by (fastforce simp: loop_outcome_def intro!: exI [of _ "[]"])
  next
    case (Inl e)
    with cr have t: "claims t = claims s" by (simp add: create_fails)
    show ?thesis
    proof (cases "e = AlreadyExists")
      case True
      with Cons.prems cr Inl have "create_first create m p rs t = (r, s')" by simp
      from Cons.IH [OF this] t have "loop_outcome (claims s) m p rs r (claims s')" by simp
      then show ?thesis
        by (rule loop_outcome_taken) (use cr Inl True create_taken in fastforce)
    next
      case False
      with Cons.prems cr Inl t show ?thesis by (auto simp: loop_outcome_def)
    qed
  qed
qed

text \<open>When every candidate is taken, and CREATE says so, the loop returns nil.\<close>
lemma create_first_all_taken:
  assumes "\<forall>x\<in>set rs. claims s (ref_id x) \<noteq> None \<and> reports_taken create claims (new_claim m p x)"
  shows "\<exists>s'. create_first create m p rs s = (Inr None, s') \<and> claims s' = claims s"
  using assms
proof (induction rs arbitrary: s)
  case (Cons x rs)
  obtain o' t where c: "create (new_claim m p x) s = (o', t)" by force
  with Cons.prems have "o' = Inl AlreadyExists" by (force simp: reports_taken_def)
  with c Cons.prems Cons.IH [of t] show ?case by (auto simp: create_fails)
qed simp

lemma allocate_all_taken:
  assumes "configured_for pool k = Inr cfg" "\<forall>r. \<not> free_candidate (claims s) pool k r"
    and "\<forall>x\<in>set (pool_interfaces pool). reports_taken create claims (new_claim m (pool_name pool) x)"
  shows "\<exists>s'. allocate create m pool k s = (Inr None, s') \<and> claims s' = claims s"
  using assms create_first_all_taken [of "sort_Slice ip_less cfg" s m "pool_name pool"] configured_for_Inr [OF assms(1)]
  by (auto simp: allocate_def go_sort.set_srt free_candidate_def)

text \<open>
  The allocation as a whole: an error leaves the claims as they were; nil means that no candidate is
  free; a claim reserves a free candidate, and on a valid pool the one with the least address.
\<close>

lemma allocate_error: "allocate create m pool k s = (Inl e, s') \<Longrightarrow> claims s' = claims s"
  by (auto simp: allocate_def loop_outcome_def split: sum.splits dest: create_first_outcome)

lemma allocate_exhausted:
  assumes "allocate create m pool k s = (Inr None, s')"
  shows "claims s' = claims s \<and> (\<forall>r. \<not> free_candidate (claims s) pool k r)"
proof -
  from assms obtain cfg where cfg: "configured_for pool k = Inr cfg"
    "create_first create m (pool_name pool) (sort_Slice ip_less cfg) s = (Inr None, s')"
    by (auto simp: allocate_def split: sum.splits)
  from create_first_outcome [OF cfg(2)] configured_for_Inr [OF cfg(1)] show ?thesis
    by (auto simp: loop_outcome_def free_candidate_def)
qed

lemma allocate_some:
  assumes "allocate create m pool k s = (Inr (Some c), s')"
  shows "allocated (claims s) m pool k c (claims s')"
proof -
  from assms obtain cfg where cfg: "configured_for pool k = Inr cfg"
    "create_first create m (pool_name pool) (sort_Slice ip_less cfg) s = (Inr (Some c), s')"
    by (auto simp: allocate_def split: sum.splits)
  from create_first_outcome [OF cfg(2)] obtain pre x post where x: "sort_Slice ip_less cfg = pre @ x # post"
    "\<forall>y\<in>set pre. claims s (ref_id y) \<noteq> None" "claims s (ref_id x) = None"
    "claims s' = (claims s)(ref_id x \<mapsto> c)" "reserves c m (pool_name pool) x"
    by (auto simp: loop_outcome_def)
  have candidates: "set cfg = {r \<in> set (pool_interfaces pool). k = '''' \<or> ref_key r = k}"
    by (rule configured_for_Inr [OF cfg(1)])
  moreover have "set cfg = set (pre @ x # post)" by (metis x(1) go_sort.set_srt)
  ultimately have mem: "free_candidate (claims s) pool k r \<longleftrightarrow>
      r \<in> set (pre @ x # post) \<and> claims s (ref_id r) = None" for r
    by (auto simp: free_candidate_def)
  moreover have "ip_value x \<le> ip_value r'" if "interfaces_ok (pool_interfaces pool)"
    "free_candidate (claims s) pool k r'" for r'
  proof -
    have "sorted_wrt (\<lambda>a b. ip_value a \<le> ip_value b) (sort_Slice ip_less cfg)"
      by (rule sorted_candidates [OF that(1)]) (auto simp: candidates)
    with x(1,2) that(2) show ?thesis by (auto simp: mem sorted_wrt_append)
  qed
  ultimately show ?thesis using x by (auto simp: allocated_def)
qed

end

end
