(* ===== verification/Example_World.thy ===== *)
theory Example_World
  imports Allocator
begin

text \<open>
  A small cluster on the reference server, the one of the repository's unit tests: the pool
  \<^verbatim>\<open>pool-a\<close> with two ENIs, the cluster and the AWSCluster it belongs to. The witnesses of the
  properties are evaluated here.
\<close>

definition meta :: "string \<Rightarrow> string \<Rightarrow> ObjectMeta" where
  "meta ns n = \<lparr>m_name = n, m_namespace = ns, m_generation = 1, m_creationTimestamp = 0,
     m_deletionTimestamp = None, m_annotations = None, m_labels = None, m_finalizers = [],
     m_ownerReferences = []\<rparr>"

definition edge_ref :: ENIReference where
  "edge_ref = \<lparr>ref_key = ''edge-worker-1'', ref_id = ''eni-0999'', ref_privateIP = ''10.0.0.20''\<rparr>"

definition core_ref :: ENIReference where
  "core_ref = \<lparr>ref_key = ''core-worker-1'', ref_id = ''eni-0123'', ref_privateIP = ''10.0.0.10''\<rparr>"

definition ex_pool :: ENIPool where
  "ex_pool = \<lparr>pool_meta = meta '''' ''pool-a'',
     pool_spec = \<lparr>ps_region = ''ap-northeast-2'', ps_vpcID = ''vpc-0123'',
       ps_interfaces = [edge_ref, core_ref], ps_exhaustionPolicy = ExhaustionPolicyDynamic\<rparr>,
     pool_status = \<lparr>pst_observedGeneration = 0, pst_interfaces = [], pst_conditions = []\<rparr>\<rparr>"

definition with_policy :: "ExhaustionPolicy \<Rightarrow> ENIPool \<Rightarrow> ENIPool" where
  "with_policy q p = p\<lparr>pool_spec := (pool_spec p)\<lparr>ps_exhaustionPolicy := q\<rparr>\<rparr>"

definition ex_cluster :: Cluster where
  "ex_cluster = \<lparr>cl_meta = meta ''workload'' ''cluster-a'',
     cl_infrastructureRef = \<lparr>iref_APIGroup = ''infrastructure.cluster.x-k8s.io'',
       iref_Kind = ''AWSCluster'', iref_Name = ''cluster-a''\<rparr>\<rparr>"

definition ex_awscluster :: AWSCluster where
  "ex_awscluster = \<lparr>ac_meta = meta ''workload'' ''cluster-a'', ac_region = ''ap-northeast-2'',
     ac_vpcID = ''vpc-0123''\<rparr>"

definition ex_owner :: OwnerReference where
  "ex_owner = \<lparr>owner_APIVersion = ''cluster.x-k8s.io/v1beta2'', owner_Kind = ''Machine'', owner_Name = ''worker''\<rparr>"

definition ex_capi_machine :: Machine where
  "ex_capi_machine = \<lparr>mc_meta = (meta ''workload'' ''worker'')\<lparr>m_annotations :=
     Some [InterfaceKeyAnnotation \<mapsto> ''edge-worker-1'']\<rparr>, mc_clusterName = ''cluster-a''\<rparr>"

text \<open>An opted-in machine as CAPI submits it, without and with an owner that carries a key.\<close>

definition ex_machine :: "string \<Rightarrow> AWSMachine" where
  "ex_machine n = \<lparr>am_meta = (meta ''workload'' n)\<lparr>
       m_annotations := Some [AllocateFromPoolAnnotation \<mapsto> ''true''],
       m_labels := Some [ClusterNameLabel \<mapsto> ''cluster-a'']\<rparr>,
     am_networkInterfaces = []\<rparr>"

definition ex_keyed_machine :: "string \<Rightarrow> AWSMachine" where
  "ex_keyed_machine n = (ex_machine n)\<lparr>am_meta := (am_meta (ex_machine n))\<lparr>m_ownerReferences := [ex_owner]\<rparr>\<rparr>"

definition ex_world :: world where
  "ex_world = empty_world\<lparr>w_machines := [ex_capi_machine], w_clusters := [ex_cluster],
     w_awsclusters := [ex_awscluster], w_pools := [ex_pool]\<rparr>"

definition ex_ref :: "string \<Rightarrow> NamespacedObjectReference" where
  "ex_ref n = \<lparr>nref_namespace = ''workload'', nref_name = n\<rparr>"

lemmas ex_defs = meta_def edge_ref_def core_ref_def ex_pool_def with_policy_def ex_cluster_def ex_awscluster_def
  ex_owner_def ex_capi_machine_def ex_machine_def ex_keyed_machine_def ex_world_def ex_ref_def empty_world_def

lemma ex_addresses:
  "ParseAddr ''10.0.0.10'' = Some (Addr4 167772170)"
  "ParseAddr ''10.0.0.20'' = Some (Addr4 167772180)"
  by code_simp+

lemma ex_pool_ok: "interfaces_ok (pool_interfaces ex_pool)"
  by (simp add: interfaces_ok_def has_ipv4_def nonempty_keys_def ex_defs ex_addresses)

end
