(* ===== verification/AWSMachine_Webhook.thy ===== *)
theory AWSMachine_Webhook
  imports Example_World
begin

text \<open>
  The mutating webhook of AWSMachine CREATE (\<^verbatim>\<open>internal/webhook/v1beta2/awsmachine_webhook.go\<close>): it
  reserves an ENI for an opted-in machine and injects it into the object being admitted.
  \<open>Default_AWSMachine\<close> is the handler: given the client (\<open>None\<close> for nil), the admission request of the
  context (\<open>None\<close> if there is none), the object and the state, it returns the error, the object as the
  handler leaves it, and the next state.
\<close>

section \<open>The handler\<close>

record AdmissionRequest =
  req_DryRun :: "bool option"

definition wh_resolveClusterNetwork :: "'s ports \<Rightarrow> AWSMachine \<Rightarrow> 's \<Rightarrow> error + string \<times> string" where
  "wh_resolveClusterNetwork P obj s =
     (let clusterName = map_index (m_labels (am_meta obj)) ClusterNameLabel
      in if clusterName = '''' then Inl NoClusterLabel
         else case p_get_cluster P s (am_namespace obj) clusterName of
           Inl e \<Rightarrow> Inl (GetCluster e)
         | Inr cluster \<Rightarrow>
             if \<not> p_ref_defined P (cl_infrastructureRef cluster) \<or>
                iref_Kind (cl_infrastructureRef cluster) \<noteq> ''AWSCluster''
             then Inl NotAWSCluster
             else case p_get_awscluster P s (am_namespace obj) (iref_Name (cl_infrastructureRef cluster)) of
               Inl e \<Rightarrow> Inl (GetAWSCluster e)
             | Inr awsCluster \<Rightarrow> Inr (ac_region awsCluster, ac_vpcID awsCluster))"

definition wh_findPool :: "'s ports \<Rightarrow> string \<Rightarrow> string \<Rightarrow> 's \<Rightarrow> error + ENIPool option" where
  "wh_findPool P region vpcID s = (case p_list_pools P s of
     Inl e \<Rightarrow> Inl (ApiError e)
   | Inr items \<Rightarrow> match_pools region vpcID None items)"

definition wh_resolveInterfaceKey :: "'s ports \<Rightarrow> AWSMachine \<Rightarrow> 's \<Rightarrow> error + string" where
  "wh_resolveInterfaceKey P obj s =
     (let key = map_index (am_annotations obj) InterfaceKeyAnnotation
      in if key \<noteq> '''' then Inr key
         else key_from_owners P (am_namespace obj) s (m_ownerReferences (am_meta obj)))"

definition wh_claimInterface ::
  "'s ports \<Rightarrow> AWSMachine \<Rightarrow> ENIPool \<Rightarrow> string \<Rightarrow> 's \<Rightarrow> (error + ENIClaim option) \<times> 's" where
  "wh_claimInterface P obj pool interfaceKey s =
     allocate (p_create_claim P) (machine_ref obj) pool interfaceKey s"

text \<open>\<^verbatim>\<open>if annotations == nil { annotations = map[string]string{} }\<close>\<close>

definition alloc_map :: "go_map \<Rightarrow> go_map" where
  "alloc_map m = (case m of None \<Rightarrow> Some Map.empty | Some f \<Rightarrow> Some f)"

text \<open>The branch kept for unit tests, with no client: pause the machine for the allocator.\<close>

definition pause_machine :: "AWSMachine \<Rightarrow> error option \<times> AWSMachine" where
  "pause_machine obj =
     (case map_assign (alloc_map (am_annotations obj)) CAPPausedAnnotation '''' of
        None \<Rightarrow> (Some NilMapWrite, obj)
      | Some a \<Rightarrow> (case map_assign a AllocatorPausedAnnotation ''true'' of
          None \<Rightarrow> (Some NilMapWrite, obj)
        | Some b \<Rightarrow> (None, set_annotations obj b)))"

text \<open>The end of the handler: inject the claimed ENI.\<close>

definition inject_claim :: "AWSMachine \<Rightarrow> ENIClaim \<Rightarrow> error option \<times> AWSMachine" where
  "inject_claim obj claim =
     (let obj1 = obj\<lparr>am_networkInterfaces := [claim_eni claim]\<rparr>
      in case map_assign (alloc_map (am_annotations obj)) AllocationResultAnnotation AllocationResultAllocated of
           None \<Rightarrow> (Some NilMapWrite, obj1)
         | Some a \<Rightarrow> (None, set_annotations obj1 a))"

definition Default_AWSMachine ::
  "'s ports option \<Rightarrow> AdmissionRequest option \<Rightarrow> AWSMachine \<Rightarrow> 's \<Rightarrow> (error option \<times> AWSMachine) \<times> 's" where
  "Default_AWSMachine client request obj s =
     (let annotations = am_annotations obj in
      if map_index annotations AllocateFromPoolAnnotation \<noteq> ''true'' \<or> am_networkInterfaces obj \<noteq> []
      then ((None, obj), s)
      else if map_has annotations CAPPausedAnnotation then ((None, obj), s)
      else case client of
        None \<Rightarrow> (pause_machine obj, s)
      | Some P \<Rightarrow>
          if (case request of None \<Rightarrow> False | Some r \<Rightarrow> req_DryRun r = Some True) then ((None, obj), s)
          else case wh_resolveClusterNetwork P obj s of
            Inl e \<Rightarrow> ((Some e, obj), s)
          | Inr (region, vpcID) \<Rightarrow>
              (case wh_findPool P region vpcID s of
                 Inl e \<Rightarrow> ((Some e, obj), s)
               | Inr None \<Rightarrow> ((None, obj), s)
               | Inr (Some pool) \<Rightarrow>
                   (case wh_resolveInterfaceKey P obj s of
                      Inl e \<Rightarrow> ((Some e, obj), s)
                    | Inr interfaceKey \<Rightarrow>
                        (case wh_claimInterface P obj pool interfaceKey s of
                           (Inl e, s') \<Rightarrow> ((Some e, obj), s')
                         | (Inr None, s') \<Rightarrow> ((None, obj), s')
                         | (Inr (Some claim), s') \<Rightarrow> (inject_claim obj claim, s')))))"

lemma alloc_map_Some [simp]: "alloc_map m = Some (entries m)"
  by (simp add: alloc_map_def entries_def split: option.split)

lemma pause_machine_eq: "pause_machine obj = (None, set_annotations obj
    (Some ((entries (am_annotations obj))(CAPPausedAnnotation \<mapsto> '''', AllocatorPausedAnnotation \<mapsto> ''true''))))"
  by (simp add: pause_machine_def)

text \<open>An admitted object with the ENI \<open>i\<close> injected.\<close>

definition injected :: "AWSMachine \<Rightarrow> string \<Rightarrow> AWSMachine" where
  "injected obj i = set_annotations (obj\<lparr>am_networkInterfaces := [i]\<rparr>)
     (Some ((entries (am_annotations obj))(AllocationResultAnnotation \<mapsto> AllocationResultAllocated)))"

lemma inject_claim_eq: "inject_claim obj c = (None, injected obj (claim_eni c))"
  by (simp add: inject_claim_def injected_def Let_def)

lemma injected_simps [simp]:
  "am_networkInterfaces (injected obj i) = [i]"
  "am_annotations (injected obj i) =
     Some ((entries (am_annotations obj))(AllocationResultAnnotation \<mapsto> AllocationResultAllocated))"
  "am_name (injected obj i) = am_name obj" "am_namespace (injected obj i) = am_namespace obj"
  by (simp_all add: injected_def)

section \<open>The branches of the handler\<close>

text \<open>The object asks for an ENI and nothing speaks against it.\<close>

definition wants_eni :: "AdmissionRequest option \<Rightarrow> AWSMachine \<Rightarrow> bool" where
  "wants_eni request obj \<longleftrightarrow>
     map_index (am_annotations obj) AllocateFromPoolAnnotation = ''true'' \<and> am_networkInterfaces obj = [] \<and>
     \<not> map_has (am_annotations obj) CAPPausedAnnotation \<and>
     (\<forall>r. request = Some r \<longrightarrow> req_DryRun r \<noteq> Some True)"

text \<open>The pool and the key the handler works with.\<close>

definition wh_target :: "'s ports \<Rightarrow> AWSMachine \<Rightarrow> 's \<Rightarrow> ENIPool \<Rightarrow> string \<Rightarrow> bool" where
  "wh_target P obj s pool k \<longleftrightarrow>
     (\<exists>region vpcID. wh_resolveClusterNetwork P obj s = Inr (region, vpcID) \<and>
        wh_findPool P region vpcID s = Inr (Some pool) \<and> wh_resolveInterfaceKey P obj s = Inr k)"

lemma Default_not_wanted [handler_simps]:
  "\<not> wants_eni request obj \<Longrightarrow> Default_AWSMachine (Some P) request obj s = ((None, obj), s)"
  by (auto simp: Default_AWSMachine_def wants_eni_def Let_def split: option.splits)

lemma Default_at_target [handler_simps]:
  assumes "wants_eni request obj" "wh_target P obj s pool k"
  shows "Default_AWSMachine (Some P) request obj s =
     (case wh_claimInterface P obj pool k s of
        (Inl e, s') \<Rightarrow> ((Some e, obj), s')
      | (Inr None, s') \<Rightarrow> ((None, obj), s')
      | (Inr (Some c), s') \<Rightarrow> ((None, injected obj (claim_eni c)), s'))"
proof -
  from assms(2) obtain region vpcID where t: "wh_resolveClusterNetwork P obj s = Inr (region, vpcID)"
    "wh_findPool P region vpcID s = Inr (Some pool)" "wh_resolveInterfaceKey P obj s = Inr k"
    by (auto simp: wh_target_def)
  from assms(1) have g: "map_index (am_annotations obj) AllocateFromPoolAnnotation = ''true''"
    "am_networkInterfaces obj = []" "\<not> map_has (am_annotations obj) CAPPausedAnnotation"
    "\<not> (case request of None \<Rightarrow> False | Some r \<Rightarrow> req_DryRun r = Some True)"
    by (auto simp: wants_eni_def split: option.splits)
  from t g show ?thesis
    by (simp add: Default_AWSMachine_def Let_def inject_claim_eq split: prod.split sum.split option.split)
qed

lemma Default_no_target:
  assumes "Default_AWSMachine (Some P) request obj s = ((r, obj'), s')"
    "\<not> (\<exists>pool k. wants_eni request obj \<and> wh_target P obj s pool k)"
  shows "obj' = obj \<and> s' = s"
  using assms
  by (auto simp: Default_AWSMachine_def wants_eni_def wh_target_def Let_def
      split: if_splits sum.splits option.splits prod.splits)

lemma Default_keeps_pause:
  "map_index (am_annotations (snd (fst (Default_AWSMachine (Some P) request obj s)))) AllocatorPausedAnnotation =
     map_index (am_annotations obj) AllocatorPausedAnnotation"
  "map_has (am_annotations (snd (fst (Default_AWSMachine (Some P) request obj s)))) CAPPausedAnnotation =
     map_has (am_annotations obj) CAPPausedAnnotation"
proof -
  have "map_index (am_annotations (injected obj i)) AllocatorPausedAnnotation =
      map_index (am_annotations obj) AllocatorPausedAnnotation"
    "map_has (am_annotations (injected obj i)) CAPPausedAnnotation = map_has (am_annotations obj) CAPPausedAnnotation" for i
    by (auto simp: map_index_def map_has_def entries_def split: option.splits)
  then show "map_index (am_annotations (snd (fst (Default_AWSMachine (Some P) request obj s)))) AllocatorPausedAnnotation =
     map_index (am_annotations obj) AllocatorPausedAnnotation"
    "map_has (am_annotations (snd (fst (Default_AWSMachine (Some P) request obj s)))) CAPPausedAnnotation =
     map_has (am_annotations obj) CAPPausedAnnotation"
    by (simp_all add: Default_AWSMachine_def Let_def inject_claim_eq split: sum.split option.split prod.split)
qed

context claim_store
begin

text \<open>
  A run of the handler either leaves the object and the claims as they were, or it injects one ENI
  and adds the one claim that reserves it.
\<close>

lemma Default_outcome:
  assumes "Default_AWSMachine (Some P) request obj s = ((r, obj'), s')" "p_create_claim P = create"
  shows "(obj' = obj \<and> claims s' = claims s) \<or>
     (r = None \<and> wants_eni request obj \<and> (\<exists>pool k c. wh_target P obj s pool k \<and>
        allocated (claims s) (machine_ref obj) pool k c (claims s') \<and> obj' = injected obj (claim_eni c)))"
proof (cases "\<exists>pool k. wants_eni request obj \<and> wh_target P obj s pool k")
  case True
  then obtain pool k where t: "wants_eni request obj" "wh_target P obj s pool k" by blast
  obtain oc t' where o: "allocate create (machine_ref obj) pool k s = (oc, t')" by force
  with assms t have *: "((r, obj'), s') = (case (oc, t') of
        (Inl e, s') \<Rightarrow> ((Some e, obj), s') | (Inr None, s') \<Rightarrow> ((None, obj), s')
      | (Inr (Some c), s') \<Rightarrow> ((None, injected obj (claim_eni c)), s'))"
    by (simp add: Default_at_target wh_claimInterface_def)
  show ?thesis
  proof (cases oc)
    case (Inl e)
    with * o allocate_error show ?thesis by auto
  next
    case (Inr c)
    with * o t allocate_exhausted [of "machine_ref obj" pool k s s'] allocate_some [of "machine_ref obj" pool k s _ s']
    show ?thesis by (cases c) fastforce+
  qed
next
  case False
  with Default_no_target [OF assms(1)] show ?thesis by blast
qed

end

lemma with_policy_simps: "pool_name (with_policy q p) = pool_name p" "pool_region (with_policy q p) = pool_region p"
  "pool_vpcID (with_policy q p) = pool_vpcID p" "pool_interfaces (with_policy q p) = pool_interfaces p"
  by (simp_all add: with_policy_def)

lemma injected_not_same: "am_networkInterfaces obj = [] \<Longrightarrow> injected obj i \<noteq> obj"
  by (metis injected_simps(1) list.distinct(1))

section \<open>Properties\<close>

lemma Default_changed:
  assumes "claim_store (p_create_claim P) claims"
    and "Default_AWSMachine (Some P) request obj s = ((r, obj'), s')" and "obj' \<noteq> obj"
  shows "r = None \<and> wants_eni request obj \<and>
    (\<exists>pool k c. wh_target P obj s pool k \<and> allocated (claims s) (machine_ref obj) pool k c (claims s') \<and>
       obj' = injected obj (claim_eni c))"
  using claim_store.Default_outcome [OF assms(1,2) refl] assms(3) by blast

lemmas wh_defs = wh_resolveClusterNetwork_def wh_findPool_def wh_resolveInterfaceKey_def wh_target_def

lemma ex_target: "wh_target srv_ports (ex_machine n) ex_world ex_pool ''''"
proof -
  have "wh_resolveClusterNetwork srv_ports (ex_machine n) ex_world = Inr (''ap-northeast-2'', ''vpc-0123'')"
    by (simp add: wh_defs srv_ports_def ex_defs meta_key_def map_index_Some ClusterNameLabel_def)
  moreover have "wh_findPool srv_ports ''ap-northeast-2'' ''vpc-0123'' ex_world = Inr (Some ex_pool)"
    by (simp add: wh_defs ex_defs)
  moreover have "wh_resolveInterfaceKey srv_ports (ex_machine n) ex_world = Inr ''''"
    by (simp add: wh_defs ex_defs map_index_Some)
  ultimately show ?thesis by (auto simp: wh_target_def)
qed

text \<open>
  A machine that did not opt in, names its interfaces itself, is paused by its user, or comes in a
  dry run is admitted as it is: no error, no change of the object, no API call that changes anything.
\<close>
theorem webhook_leaves_alone:
  assumes "\<not> wants_eni request obj"
  shows "Default_AWSMachine (Some P) request obj s = ((None, obj), s)"
  using assms by (rule Default_not_wanted)

theorem webhook_leaves_alone_witness:
  "Default_AWSMachine (Some srv_ports) (Some \<lparr>req_DryRun = Some True\<rparr>) (ex_machine ''a'') ex_world =
     ((None, ex_machine ''a''), ex_world)"
  by (rule webhook_leaves_alone) (simp add: wants_eni_def)

text \<open>
  C1: When the webhook changes a machine, it was asked to, it reports no error, and it reserved for
  this machine a free interface of the pool of the machine's network (with the requested key if there
  is one), the one with the least address if the pool is valid; the claims gain exactly this one.
\<close>
theorem webhook_allocates_lowest_free:
  assumes "claim_store (p_create_claim P) claims"
    and "Default_AWSMachine (Some P) request obj s = ((r, obj'), s')" and "obj' \<noteq> obj"
  shows "r = None \<and> wants_eni request obj \<and>
    (\<exists>pool k c. wh_target P obj s pool k \<and> allocated (claims s) (machine_ref obj) pool k c (claims s') \<and>
       obj' = injected obj (claim_eni c))"
  using assms by (rule Default_changed)

theorem webhook_allocates_lowest_free_witness:
  "\<exists>obj' s'. Default_AWSMachine (Some srv_ports) None (ex_machine ''a'') ex_world = ((None, obj'), s') \<and>
     am_networkInterfaces obj' = [''eni-0123''] \<and>
     (\<exists>pool k c. wh_target srv_ports (ex_machine ''a'') ex_world pool k \<and>
        allocated (srv_claims ex_world) (machine_ref (ex_machine ''a'')) pool k c (srv_claims s'))"
proof -
  let ?run = "Default_AWSMachine (Some srv_ports) None (ex_machine ''a'') ex_world"
  have r: "fst (fst ?run) = None" "am_networkInterfaces (snd (fst ?run)) = [''eni-0123'']"
    by code_simp+
  then obtain obj' s' where run: "?run = ((None, obj'), s')" "am_networkInterfaces obj' = [''eni-0123'']"
    by (metis prod.collapse)
  have "am_networkInterfaces (ex_machine ''a'') = []" by (simp add: ex_defs)
  with run(2) have "obj' \<noteq> ex_machine ''a''" by auto
  from webhook_allocates_lowest_free [of srv_ports srv_claims, OF _ run(1) this] srv.claim_store_axioms run
  show ?thesis by (simp; blast)
qed

text \<open>
  An admission the webhook rejects leaves nothing behind: the object is unchanged and no claim was
  added, changed or removed.
\<close>
theorem webhook_rejects_without_effect:
  assumes "claim_store (p_create_claim P) claims"
    and "Default_AWSMachine (Some P) request obj s = ((Some e, obj'), s')"
  shows "obj' = obj \<and> claims s' = claims s"
  using claim_store.Default_outcome [OF assms(1,2) refl] by simp

theorem webhook_rejects_without_effect_witness:
  "\<exists>s'. Default_AWSMachine (Some srv_ports) None (ex_machine ''a'') empty_world =
     ((Some (GetCluster NotFound), ex_machine ''a''), s') \<and> srv_claims s' = srv_claims empty_world"
proof -
  let ?run = "Default_AWSMachine (Some srv_ports) None (ex_machine ''a'') empty_world"
  have run: "?run = ((Some (GetCluster NotFound), ex_machine ''a''), empty_world)"
    by (simp add: Default_AWSMachine_def wh_defs srv_ports_def ex_defs map_index_Some map_has_Some)
  moreover have "srv_claims empty_world = srv_claims empty_world"
    using webhook_rejects_without_effect [of srv_ports srv_claims, OF _ run] srv.claim_store_axioms by simp
  ultimately show ?thesis by blast
qed
text \<open>
  A requested key that no interface of the pool has rejects the machine with an error that names
  the pool and the key, and creates nothing.
\<close>
theorem webhook_rejects_unknown_key:
  assumes "wants_eni request obj" and "wh_target P obj s pool k"
    and "k \<noteq> ''''" and "k \<notin> ref_key ` set (pool_interfaces pool)"
  shows "Default_AWSMachine (Some P) request obj s = ((Some (NoSuchKey (pool_name pool) k), obj), s)"
proof -
  from assms(3,4) have "configured_for pool k = Inl (NoSuchKey (pool_name pool) k)"
    by (simp add: configured_for_Inl)
  with assms(1,2) show ?thesis by (simp add: Default_at_target wh_claimInterface_def allocate_def)
qed

definition typo_machine :: AWSMachine where
  "typo_machine = set_annotations (ex_machine ''a'')
     (Some [AllocateFromPoolAnnotation \<mapsto> ''true'', InterfaceKeyAnnotation \<mapsto> ''egde-worker-1''])"

theorem webhook_rejects_unknown_key_witness:
  "Default_AWSMachine (Some srv_ports) None typo_machine ex_world =
     ((Some (NoSuchKey ''pool-a'' ''egde-worker-1''), typo_machine), ex_world)"
proof -
  have wants: "wants_eni None typo_machine"
    by (simp add: wants_eni_def typo_machine_def map_index_Some map_has_Some) (simp add: ex_defs)
  have "wh_resolveClusterNetwork srv_ports typo_machine ex_world = Inr (''ap-northeast-2'', ''vpc-0123'')"
    by (simp add: wh_defs typo_machine_def set_annotations_def srv_ports_def ex_defs meta_key_def map_index_Some
        ClusterNameLabel_def)
  moreover have "wh_findPool srv_ports ''ap-northeast-2'' ''vpc-0123'' ex_world = Inr (Some ex_pool)"
    by (simp add: wh_defs ex_defs)
  moreover have "wh_resolveInterfaceKey srv_ports typo_machine ex_world = Inr ''egde-worker-1''"
    by (simp add: wh_defs typo_machine_def map_index_Some)
  ultimately have t: "wh_target srv_ports typo_machine ex_world ex_pool ''egde-worker-1''"
    by (auto simp: wh_target_def)
  have "ref_key ` set (pool_interfaces ex_pool) = {''edge-worker-1'', ''core-worker-1''}" "pool_name ex_pool = ''pool-a''"
    by (simp_all add: ex_defs)
  with webhook_rejects_unknown_key [OF wants t] show ?thesis by simp
qed

text \<open>
  The webhook never looks at the exhaustion policy: with every pool's policy replaced by any other
  it does exactly the same, also when the pool is exhausted. (The documentation says that the policy
  applies when the requested ENI is taken.)
\<close>
theorem webhook_ignores_policy:
  "Default_AWSMachine (Some (P\<lparr>p_list_pools := \<lambda>s. map_sum id (map (with_policy q)) (p_list_pools P s)\<rparr>))
     request obj s = Default_AWSMachine (Some P) request obj s"
  (is "Default_AWSMachine (Some ?P) request obj s = _")
proof -
  have owners: "key_from_owners ?P ns s os = key_from_owners P ns s os" for ns os
    by (induction os) (simp_all add: is_machine_owner_def)
  have match: "match_pools region vpcID (map_option (with_policy q) f) (map (with_policy q) ps) =
      map_sum id (map_option (with_policy q)) (match_pools region vpcID f ps)" for region vpcID f ps
  proof (induction ps arbitrary: f)
    case (Cons p ps)
    from Cons.IH [of f] Cons.IH [of "Some p"] show ?case by (simp add: with_policy_simps)
  qed simp
  have find: "wh_findPool ?P region vpcID s = map_sum id (map_option (with_policy q)) (wh_findPool P region vpcID s)"
    for region vpcID
    using match [of region vpcID None] by (auto simp: wh_findPool_def split: sum.split)
  have claim: "wh_claimInterface ?P obj (with_policy q pool) k s = wh_claimInterface P obj pool k s" for pool k
    by (auto simp: wh_claimInterface_def allocate_def configured_for_def with_policy_simps Let_def)
  have same: "wh_resolveClusterNetwork ?P obj s = wh_resolveClusterNetwork P obj s"
    "wh_resolveInterfaceKey ?P obj s = wh_resolveInterfaceKey P obj s"
    by (simp_all add: wh_resolveClusterNetwork_def wh_resolveInterfaceKey_def owners Let_def cong: if_cong sum.case_cong)
  show ?thesis
    unfolding Default_AWSMachine_def same find Let_def option.case
    by (auto simp: claim split: sum.split option.split)
qed

text \<open>
  The webhook does not reuse a claim its machine already has. If the same CREATE is admitted twice
  (the first attempt was rejected later on, and is retried), the machine ends up with two claims on two
  different ENIs.
\<close>
theorem webhook_retry_claims_twice:
  assumes "claim_store (p_create_claim P) claims"
    and "Default_AWSMachine (Some P) request obj s = ((r1, obj1), s1)" and "obj1 \<noteq> obj"
    and "Default_AWSMachine (Some P) request obj s1 = ((r2, obj2), s2)" and "obj2 \<noteq> obj"
  shows "\<exists>i j c d. i \<noteq> j \<and> am_networkInterfaces obj1 = [i] \<and> am_networkInterfaces obj2 = [j] \<and>
    claims s2 i = Some c \<and> claims s2 j = Some d \<and>
    claim_machine c = machine_ref obj \<and> claim_machine d = machine_ref obj"
proof -
  obtain p k c p' k' d where
    one: "allocated (claims s) (machine_ref obj) p k c (claims s1)" "obj1 = injected obj (claim_eni c)" and
    two: "allocated (claims s1) (machine_ref obj) p' k' d (claims s2)" "obj2 = injected obj (claim_eni d)"
    using Default_changed [OF assms(1,2,3)] Default_changed [OF assms(1,4,5)] by blast
  from one(1) obtain x where x: "reserves c (machine_ref obj) (pool_name p) x" "claims s1 = (claims s)(ref_id x \<mapsto> c)"
    by (auto simp: allocated_def)
  from two(1) obtain y where y: "claims s1 (ref_id y) = None" "claims s2 = (claims s1)(ref_id y \<mapsto> d)"
      "reserves d (machine_ref obj) (pool_name p') y"
    by (auto simp: allocated_def free_candidate_def)
  note x = x [unfolded reserves_def] and y = y [unfolded reserves_def]
  from x y one(2) two(2) show ?thesis by (intro exI [of _ "ref_id x"] exI [of _ "ref_id y"]) auto
qed

theorem webhook_retry_claims_twice_witness:
  "\<exists>s2 c d. srv_claims s2 ''eni-0123'' = Some c \<and> srv_claims s2 ''eni-0999'' = Some d \<and>
     claim_machine c = ex_ref ''a'' \<and> claim_machine d = ex_ref ''a'' \<and>
     s2 = snd (Default_AWSMachine (Some srv_ports) None (ex_machine ''a'')
            (snd (Default_AWSMachine (Some srv_ports) None (ex_machine ''a'') ex_world)))"
proof -
  let ?run = "\<lambda>s. Default_AWSMachine (Some srv_ports) None (ex_machine ''a'') s"
  let ?s1 = "snd (?run ex_world)"
  have one: "am_networkInterfaces (snd (fst (?run ex_world))) = [''eni-0123'']" by code_simp
  have two: "am_networkInterfaces (snd (fst (?run ?s1))) = [''eni-0999'']" by code_simp
  have none: "am_networkInterfaces (ex_machine ''a'') = []" by (simp add: ex_defs)
  from one none have ne1: "snd (fst (?run ex_world)) \<noteq> ex_machine ''a''" by auto
  from two none have ne2: "snd (fst (?run ?s1)) \<noteq> ex_machine ''a''" by auto
  have "machine_ref (ex_machine ''a'') = ex_ref ''a''" by (simp add: machine_ref_def ex_defs)
  then show ?thesis
    using webhook_retry_claims_twice [of srv_ports srv_claims None "ex_machine ''a''" ex_world
        "fst (fst (?run ex_world))" "snd (fst (?run ex_world))" ?s1
        "fst (fst (?run ?s1))" "snd (fst (?run ?s1))" "snd (?run ?s1)"]
      srv.claim_store_axioms one two ne1 ne2 by (simp; blast)
qed

text \<open>
  A network that is not ready does not hold the machine back. While the AWSCluster has no VPC yet
  and no pool is configured for an empty VPC (the CRD forbids it), an opted-in machine is admitted
  without an ENI and without an error. (The design says that the webhook never falls back before the
  network is known; the reconciler's copy of this code does check it.)
\<close>
theorem webhook_admits_unready_network:
  assumes "wants_eni request obj"
    and "wh_resolveClusterNetwork P obj s = Inr (region, '''')"
    and "p_list_pools P s = Inr ps" and "\<forall>p\<in>set ps. crd_ENIPoolSpec (pool_spec p)"
  shows "Default_AWSMachine (Some P) request obj s = ((None, obj), s)"
proof -
  from assms(4) have "filter (matches region '''') ps = []"
    by (auto simp: filter_empty_conv crd_ENIPoolSpec_def dest: crd_vpcID_nonempty)
  with assms(3) have "wh_findPool P region '''' s = Inr None"
    by (simp add: wh_findPool_def match_pools_filter)
  with assms(1,2) show ?thesis
    by (auto simp: Default_AWSMachine_def wants_eni_def Let_def split: option.split)
qed

definition unready_world :: world where
  "unready_world = ex_world\<lparr>w_awsclusters := [ex_awscluster\<lparr>ac_vpcID := ''''\<rparr>]\<rparr>"

theorem webhook_admits_unready_network_witness:
  "Default_AWSMachine (Some srv_ports) None (ex_machine ''a'') unready_world =
     ((None, ex_machine ''a''), unready_world)"
proof (rule webhook_admits_unready_network)
  show "wants_eni None (ex_machine ''a'')"
    by (simp add: wants_eni_def ex_defs map_index_Some map_has_Some)
  show "wh_resolveClusterNetwork srv_ports (ex_machine ''a'') unready_world = Inr (''ap-northeast-2'', '''')"
    by (simp add: wh_defs unready_world_def srv_ports_def ex_defs meta_key_def map_index_Some ClusterNameLabel_def)
  show "p_list_pools srv_ports unready_world = Inr [ex_pool]"
    by (simp add: unready_world_def ex_defs)
  show "\<forall>p\<in>set [ex_pool]. crd_ENIPoolSpec (pool_spec p)"
    by (simp, code_simp)
qed

text \<open>
  With a client the webhook never pauses a machine: the two pause annotations of the object it
  returns are the ones it was given. So the machine reconciler, which serves only paused machines,
  has work only for machines their creator paused.
\<close>
theorem webhook_never_pauses:
  "map_index (am_annotations (snd (fst (Default_AWSMachine (Some P) request obj s)))) AllocatorPausedAnnotation =
     map_index (am_annotations obj) AllocatorPausedAnnotation \<and>
   map_has (am_annotations (snd (fst (Default_AWSMachine (Some P) request obj s)))) CAPPausedAnnotation =
     map_has (am_annotations obj) CAPPausedAnnotation"
  by (simp only: Default_keeps_pause simp_thms)

end
