(* ===== verification/AWSMachine_Controller.thy ===== *)
theory AWSMachine_Controller
  imports AWSMachine_Webhook
begin

text \<open>
  The AWSMachine reconciler (\<^verbatim>\<open>internal/controller/awsmachine_controller.go\<close>): for a machine that is
  paused for the allocator it finds the pool of its network, reserves an ENI or reuses the claim the
  machine already has, and releases the machine with one patch; when the pool is exhausted it waits,
  marks the machine as failed or falls back to dynamic networking. \<open>Reconcile_AWSMachine\<close> is the
  handler; its result is the error or the \<open>Result\<close>, and the next state.
\<close>

section \<open>The machine object\<close>

definition removeAllocatorPause :: "AWSMachine \<Rightarrow> AWSMachine" where
  "removeAllocatorPause machine =
     (if am_annotations machine = None \<or>
         map_index (am_annotations machine) AllocatorPausedAnnotation \<noteq> ''true'' then machine
      else set_annotations machine
        (map_delete (map_delete (am_annotations machine) AllocatorPausedAnnotation) CAPPausedAnnotation))"

text \<open>\<open>None\<close> is the panic of an assignment to a nil map.\<close>

definition setAnnotation :: "AWSMachine \<Rightarrow> string \<Rightarrow> string \<Rightarrow> AWSMachine option" where
  "setAnnotation machine key value =
     (let annotations = (if am_annotations machine = None then Some Map.empty else am_annotations machine)
      in if value = '''' then Some (set_annotations machine (map_delete annotations key))
         else map_option (set_annotations machine) (map_assign annotations key value))"

section \<open>The handler\<close>

fun find_owner_name :: "'s ports \<Rightarrow> OwnerReference list \<Rightarrow> string" where
  "find_owner_name P [] = ''''"
| "find_owner_name P (owner # rest) =
     (if is_machine_owner P owner then owner_Name owner else find_owner_name P rest)"

definition rc_resolveClusterNetwork :: "'s ports \<Rightarrow> AWSMachine \<Rightarrow> 's \<Rightarrow> error + string \<times> string" where
  "rc_resolveClusterNetwork P awsMachine s =
     (let ns = am_namespace awsMachine;
          ownerName = find_owner_name P (m_ownerReferences (am_meta awsMachine))
      in if ownerName = '''' then Inl NoMachineOwner
         else case p_get_machine P s ns ownerName of
           Inl e \<Rightarrow> Inl (GetOwnerMachine e)
         | Inr machine \<Rightarrow>
             (case p_get_cluster P s ns (mc_clusterName machine) of
                Inl e \<Rightarrow> Inl (GetCluster e)
              | Inr cluster \<Rightarrow>
                  if \<not> p_ref_defined P (cl_infrastructureRef cluster) \<or>
                     iref_Kind (cl_infrastructureRef cluster) \<noteq> ''AWSCluster''
                  then Inl NotAWSCluster
                  else case p_get_awscluster P s ns (iref_Name (cl_infrastructureRef cluster)) of
                    Inl e \<Rightarrow> Inl (GetAWSCluster e)
                  | Inr awsCluster \<Rightarrow>
                      if ac_region awsCluster = '''' \<or> ac_vpcID awsCluster = '''' then Inl NetworkNotReady
                      else Inr (ac_region awsCluster, ac_vpcID awsCluster)))"

definition rc_findPool :: "'s ports \<Rightarrow> string \<Rightarrow> string \<Rightarrow> 's \<Rightarrow> error + ENIPool option" where
  "rc_findPool P region vpcID s = (case p_list_pools P s of
     Inl e \<Rightarrow> Inl (ApiError e)
   | Inr items \<Rightarrow> match_pools region vpcID None items)"

definition rc_resolveInterfaceKey :: "'s ports \<Rightarrow> AWSMachine \<Rightarrow> 's \<Rightarrow> error + string" where
  "rc_resolveInterfaceKey P awsMachine s =
     (let key = map_index (am_annotations awsMachine) InterfaceKeyAnnotation
      in if key \<noteq> '''' then Inr key
         else key_from_owners P (am_namespace awsMachine) s (m_ownerReferences (am_meta awsMachine)))"

text \<open>The loop over the claims that returns the one of this machine.\<close>

fun find_claim :: "AWSMachine \<Rightarrow> ENIClaim list \<Rightarrow> ENIClaim option" where
  "find_claim machine [] = None"
| "find_claim machine (claim # rest) =
     (if nref_namespace (claim_machine claim) = am_namespace machine \<and>
         nref_name (claim_machine claim) = am_name machine
      then Some claim else find_claim machine rest)"

definition rc_claimInterface ::
  "'s ports \<Rightarrow> AWSMachine \<Rightarrow> ENIPool \<Rightarrow> string \<Rightarrow> 's \<Rightarrow> (error + ENIClaim option) \<times> 's" where
  "rc_claimInterface P machine pool interfaceKey s = (case p_list_claims P s of
     Inl e \<Rightarrow> (Inl (ApiError e), s)
   | Inr items \<Rightarrow> (case find_claim machine items of
       Some claim \<Rightarrow> (Inr (Some claim), s)
     | None \<Rightarrow> allocate (p_create_claim P) (machine_ref machine) pool interfaceKey s))"

text \<open>\<^verbatim>\<open>return ctrl.Result{}, r.Patch(ctx, machine, client.MergeFrom(base))\<close>\<close>

definition patch_result :: "'s ports \<Rightarrow> AWSMachine \<Rightarrow> AWSMachine \<Rightarrow> 's \<Rightarrow> (error + Result) \<times> 's" where
  "patch_result P base machine s = (case p_patch_awsmachine P base machine s of (r, s') \<Rightarrow> (return_err r, s'))"

definition dynamicFallback :: "'s ports \<Rightarrow> AWSMachine \<Rightarrow> string \<Rightarrow> 's \<Rightarrow> (error + Result) \<times> 's" where
  "dynamicFallback P base reason s =
     (case Option.bind
        (setAnnotation (removeAllocatorPause base) AllocationResultAnnotation AllocationResultDynamicFallback)
        (\<lambda>m. setAnnotation m AllocationReasonAnnotation reason) of
        None \<Rightarrow> (Inl NilMapWrite, s)
      | Some machine \<Rightarrow>
          let s1 = p_inc_fallbacks P reason s;
              s2 = record_event P \<lparr>ev_type = ''Warning'', ev_reason = ''DynamicFallback'',
                     ev_action = ''ReleaseToCAPA'', ev_args = [reason]\<rparr> s1
          in patch_result P base machine s2)"

definition markFailed :: "'s ports \<Rightarrow> AWSMachine \<Rightarrow> string \<Rightarrow> 's \<Rightarrow> (error + Result) \<times> 's" where
  "markFailed P base reason s =
     (case Option.bind (setAnnotation base AllocationResultAnnotation AllocationResultFailed)
        (\<lambda>m. setAnnotation m AllocationReasonAnnotation reason) of
        None \<Rightarrow> (Inl NilMapWrite, s)
      | Some machine \<Rightarrow> patch_result P base machine s)"

text \<open>The end of the handler: release the machine with the claimed ENI.\<close>

definition release_allocated ::
  "'s ports \<Rightarrow> AWSMachine \<Rightarrow> ENIPool \<Rightarrow> ENIClaim \<Rightarrow> 's \<Rightarrow> (error + Result) \<times> 's" where
  "release_allocated P base pool claim s =
     (case Option.bind
        (setAnnotation (removeAllocatorPause (base\<lparr>am_networkInterfaces := [claim_eni claim]\<rparr>))
           AllocationResultAnnotation AllocationResultAllocated)
        (\<lambda>m. setAnnotation m AllocationReasonAnnotation '''') of
        None \<Rightarrow> (Inl NilMapWrite, s)
      | Some machine \<Rightarrow> (case p_patch_awsmachine P base machine s of
          (Some e, s') \<Rightarrow> (Inl (ApiError e), s')
        | (None, s') \<Rightarrow> (Inr no_requeue,
            record_event P \<lparr>ev_type = ''Normal'', ev_reason = ''ENIAllocated'',
              ev_action = ''AllocateENI'', ev_args = [claim_eni claim, pool_name pool]\<rparr> s')))"

definition Reconcile_AWSMachine :: "'s ports \<Rightarrow> string \<Rightarrow> string \<Rightarrow> 's \<Rightarrow> (error + Result) \<times> 's" where
  "Reconcile_AWSMachine P ns n s = (case p_get_awsmachine P s ns n of
     Inl e \<Rightarrow> (IgnoreNotFound e, s)
   | Inr machine \<Rightarrow>
       if m_deletionTimestamp (am_meta machine) \<noteq> None then (Inr no_requeue, s)
       else if map_index (am_annotations machine) AllocateFromPoolAnnotation \<noteq> ''true'' \<or>
               map_index (am_annotations machine) AllocatorPausedAnnotation \<noteq> ''true'' \<or>
               am_networkInterfaces machine \<noteq> [] then (Inr no_requeue, s)
       else case rc_resolveClusterNetwork P machine s of
         Inl e \<Rightarrow> (Inr (requeue_after (10 * Second)), s)
       | Inr (region, vpcID) \<Rightarrow>
           (case rc_findPool P region vpcID s of
              Inl e \<Rightarrow> (Inl e, s)
            | Inr None \<Rightarrow> dynamicFallback P machine ''NoMatchingPool'' s
            | Inr (Some pool) \<Rightarrow>
                (case rc_resolveInterfaceKey P machine s of
                   Inl e \<Rightarrow> (Inl e, s)
                 | Inr interfaceKey \<Rightarrow>
                     (case rc_claimInterface P machine pool interfaceKey s of
                        (Inl e, s') \<Rightarrow> (Inl e, s')
                      | (Inr None, s') \<Rightarrow>
                          if ps_exhaustionPolicy (pool_spec pool) = ExhaustionPolicyWait
                          then (Inr (requeue_after (30 * Second)), s')
                          else if ps_exhaustionPolicy (pool_spec pool) = ExhaustionPolicyFail
                          then markFailed P machine ''PoolExhausted'' s'
                          else dynamicFallback P machine ''PoolExhausted'' s'
                      | (Inr (Some claim), s') \<Rightarrow> release_allocated P machine pool claim s'))))"

section \<open>What the steps do to the machine\<close>

lemma setAnnotation_eq: "setAnnotation machine key value = Some (set_annotations machine
    (Some ((entries (am_annotations machine))(key := (if value = '''' then None else Some value)))))"
  by (auto simp: setAnnotation_def entries_def map_delete_Some Let_def split: option.split)

text \<open>The machine released with interfaces \<open>is\<close>, result \<open>res\<close> and reason \<open>why\<close>, and the failed one.\<close>

definition released :: "AWSMachine \<Rightarrow> string list \<Rightarrow> string \<Rightarrow> string option \<Rightarrow> AWSMachine" where
  "released m is res why = set_annotations (m\<lparr>am_networkInterfaces := is\<rparr>)
     (Some ((entries (am_annotations m))(AllocatorPausedAnnotation := None, CAPPausedAnnotation := None,
        AllocationResultAnnotation \<mapsto> res, AllocationReasonAnnotation := why)))"

definition failed :: "AWSMachine \<Rightarrow> string \<Rightarrow> AWSMachine" where
  "failed m why = set_annotations m (Some ((entries (am_annotations m))
     (AllocationResultAnnotation \<mapsto> AllocationResultFailed, AllocationReasonAnnotation \<mapsto> why)))"

definition served :: "AWSMachine \<Rightarrow> bool" where
  "served m \<longleftrightarrow> m_deletionTimestamp (am_meta m) = None \<and>
     map_index (am_annotations m) AllocateFromPoolAnnotation = ''true'' \<and>
     map_index (am_annotations m) AllocatorPausedAnnotation = ''true'' \<and> am_networkInterfaces m = []"

lemma removeAllocatorPause_paused:
  assumes "map_index (am_annotations m) AllocatorPausedAnnotation = ''true''"
  shows "removeAllocatorPause m = set_annotations m
     (Some ((entries (am_annotations m))(AllocatorPausedAnnotation := None, CAPPausedAnnotation := None)))"
  using assms by (cases "am_annotations m") (auto simp: removeAllocatorPause_def entries_def map_delete_Some)

lemma am_interfaces_update_annotations [simp]:
  "am_annotations (m\<lparr>am_networkInterfaces := is\<rparr>) = am_annotations m"
  by simp

lemma entries_Some [simp]: "entries (Some f) = f"
  by (simp add: entries_def)

lemma steps_on_served:
  assumes "served m"
  shows "dynamicFallback P m reason s = patch_result P m
      (released m [] AllocationResultDynamicFallback (if reason = '''' then None else Some reason))
      (record_event P \<lparr>ev_type = ''Warning'', ev_reason = ''DynamicFallback'', ev_action = ''ReleaseToCAPA'',
         ev_args = [reason]\<rparr> (p_inc_fallbacks P reason s))"
    and "release_allocated P m pool c s =
      (case p_patch_awsmachine P m (released m [claim_eni c] AllocationResultAllocated None) s of
         (Some e, s') \<Rightarrow> (Inl (ApiError e), s')
       | (None, s') \<Rightarrow> (Inr no_requeue, record_event P \<lparr>ev_type = ''Normal'', ev_reason = ''ENIAllocated'',
           ev_action = ''AllocateENI'', ev_args = [claim_eni c, pool_name pool]\<rparr> s'))"
proof -
  from assms have p: "map_index (am_annotations m) AllocatorPausedAnnotation = ''true''"
    and i: "m\<lparr>am_networkInterfaces := []\<rparr> = m" by (simp_all add: served_def)
  show "dynamicFallback P m reason s = patch_result P m
      (released m [] AllocationResultDynamicFallback (if reason = '''' then None else Some reason))
      (record_event P \<lparr>ev_type = ''Warning'', ev_reason = ''DynamicFallback'', ev_action = ''ReleaseToCAPA'',
         ev_args = [reason]\<rparr> (p_inc_fallbacks P reason s))"
    using p by (simp add: dynamicFallback_def removeAllocatorPause_paused setAnnotation_eq released_def i Let_def)
  show "release_allocated P m pool c s =
      (case p_patch_awsmachine P m (released m [claim_eni c] AllocationResultAllocated None) s of
         (Some e, s') \<Rightarrow> (Inl (ApiError e), s')
       | (None, s') \<Rightarrow> (Inr no_requeue, record_event P \<lparr>ev_type = ''Normal'', ev_reason = ''ENIAllocated'',
           ev_action = ''AllocateENI'', ev_args = [claim_eni c, pool_name pool]\<rparr> s'))"
    using p by (simp add: release_allocated_def removeAllocatorPause_paused setAnnotation_eq released_def)
qed

lemma markFailed_eq: "reason \<noteq> '''' \<Longrightarrow> markFailed P m reason s = patch_result P m (failed m reason) s"
  by (simp add: markFailed_def setAnnotation_eq failed_def)

lemma merge_map_same [simp]: "merge_map m new m = Some (entries new)"
  by (simp add: merge_map_def)

lemma merge_released [simp]: "merge_awsmachine m (released m is res why) m = released m is res why"
  by (simp add: merge_awsmachine_def released_def)

lemma merge_failed [simp]: "merge_awsmachine m (failed m why) m = failed m why"
  by (simp add: merge_awsmachine_def failed_def)

lemma released_simps [simp]:
  "am_networkInterfaces (released m is res why) = is" "machine_ref (released m is res why) = machine_ref m"
  "am_annotations (released m is res why) = Some ((entries (am_annotations m))(AllocatorPausedAnnotation := None,
     CAPPausedAnnotation := None, AllocationResultAnnotation \<mapsto> res, AllocationReasonAnnotation := why))"
  by (simp_all add: released_def machine_ref_def)

lemma released_not_served: "\<not> served (released m is res why)"
  by (simp add: served_def map_index_Some)

lemma failed_served: "served (failed m why) \<longleftrightarrow> served m"
  by (auto simp: served_def failed_def set_annotations_def map_index_def entries_def split: option.splits)

section \<open>The branches of the handler\<close>

definition rc_target :: "'s ports \<Rightarrow> AWSMachine \<Rightarrow> 's \<Rightarrow> ENIPool \<Rightarrow> string \<Rightarrow> bool" where
  "rc_target P m s pool k \<longleftrightarrow>
     (\<exists>region vpcID. rc_resolveClusterNetwork P m s = Inr (region, vpcID) \<and>
        rc_findPool P region vpcID s = Inr (Some pool) \<and> rc_resolveInterfaceKey P m s = Inr k)"

lemma Reconcile_not_served [handler_simps]:
  "p_get_awsmachine P s ns n = Inr m \<Longrightarrow> \<not> served m \<Longrightarrow> Reconcile_AWSMachine P ns n s = (Inr no_requeue, s)"
  by (auto simp: Reconcile_AWSMachine_def served_def)

lemma Reconcile_served:
  assumes "p_get_awsmachine P s ns n = Inr m" "served m"
  shows "Reconcile_AWSMachine P ns n s = (case rc_resolveClusterNetwork P m s of
         Inl e \<Rightarrow> (Inr (requeue_after (10 * Second)), s)
       | Inr (region, vpcID) \<Rightarrow>
           (case rc_findPool P region vpcID s of
              Inl e \<Rightarrow> (Inl e, s)
            | Inr None \<Rightarrow> dynamicFallback P m ''NoMatchingPool'' s
            | Inr (Some pool) \<Rightarrow>
                (case rc_resolveInterfaceKey P m s of
                   Inl e \<Rightarrow> (Inl e, s)
                 | Inr interfaceKey \<Rightarrow>
                     (case rc_claimInterface P m pool interfaceKey s of
                        (Inl e, s') \<Rightarrow> (Inl e, s')
                      | (Inr None, s') \<Rightarrow>
                          if ps_exhaustionPolicy (pool_spec pool) = ExhaustionPolicyWait
                          then (Inr (requeue_after (30 * Second)), s')
                          else if ps_exhaustionPolicy (pool_spec pool) = ExhaustionPolicyFail
                          then markFailed P m ''PoolExhausted'' s'
                          else dynamicFallback P m ''PoolExhausted'' s'
                      | (Inr (Some claim), s') \<Rightarrow> release_allocated P m pool claim s'))))"
  using assms by (simp add: Reconcile_AWSMachine_def served_def)

lemma Reconcile_at_target [handler_simps]:
  assumes "p_get_awsmachine P s ns n = Inr m" "served m" "rc_target P m s pool k"
  shows "Reconcile_AWSMachine P ns n s = (case rc_claimInterface P m pool k s of
       (Inl e, s') \<Rightarrow> (Inl e, s')
     | (Inr None, s') \<Rightarrow>
         if ps_exhaustionPolicy (pool_spec pool) = ExhaustionPolicyWait
         then (Inr (requeue_after (30 * Second)), s')
         else if ps_exhaustionPolicy (pool_spec pool) = ExhaustionPolicyFail
         then markFailed P m ''PoolExhausted'' s'
         else dynamicFallback P m ''PoolExhausted'' s'
     | (Inr (Some claim), s') \<Rightarrow> release_allocated P m pool claim s')"
  using assms(3) by (auto simp: Reconcile_served [OF assms(1,2)] rc_target_def)

lemma find_claim_Some: "find_claim m cs = Some c \<Longrightarrow> c \<in> set cs \<and> claim_machine c = machine_ref m"
  by (induction cs) (auto simp: machine_ref_def split: if_splits)

lemma find_claim_None: "find_claim m cs = None \<longleftrightarrow> (\<forall>c\<in>set cs. claim_machine c \<noteq> machine_ref m)"
  by (induction cs) (auto simp: machine_ref_def NamespacedObjectReference.equality)

section \<open>The abstract specification of a reconciliation\<close>

text \<open>
  What one call may do to the claims and the machines, \<open>m\<close> being the machine it reads: nothing;
  release the machine to dynamic networking or mark it as failed, without touching the claims; release
  it with the ENI of a claim it already has; or, if it has none, reserve a free ENI and release the
  machine with it. If the final patch is lost the reservation stays.
\<close>

definition no_claim_for :: "(string \<rightharpoonup> ENIClaim) \<Rightarrow> NamespacedObjectReference \<Rightarrow> bool" where
  "no_claim_for cs r \<longleftrightarrow> (\<forall>c\<in>ran cs. claim_machine c \<noteq> r)"

inductive machine_step :: "(string \<rightharpoonup> ENIClaim) \<Rightarrow> (string \<times> string \<rightharpoonup> AWSMachine) \<Rightarrow> AWSMachine \<Rightarrow>
    (string \<rightharpoonup> ENIClaim) \<Rightarrow> (string \<times> string \<rightharpoonup> AWSMachine) \<Rightarrow> bool" for cs ms m where
  skip: "machine_step cs ms m cs ms"
| fall_back: "served m \<Longrightarrow>
    machine_step cs ms m cs (ms(am_key m \<mapsto> released m [] AllocationResultDynamicFallback (Some why)))"
| mark: "served m \<Longrightarrow> machine_step cs ms m cs (ms(am_key m \<mapsto> failed m why))"
| reuse: "served m \<Longrightarrow> c \<in> ran cs \<Longrightarrow> claim_machine c = machine_ref m \<Longrightarrow>
    machine_step cs ms m cs (ms(am_key m \<mapsto> released m [claim_eni c] AllocationResultAllocated None))"
| reserve: "served m \<Longrightarrow> no_claim_for cs (machine_ref m) \<Longrightarrow>
    allocated cs (machine_ref m) pool k c cs' \<Longrightarrow>
    ms' = ms(am_key m \<mapsto> released m [claim_eni c] AllocationResultAllocated None) \<or> ms' = ms \<Longrightarrow>
    machine_step cs ms m cs' ms'"

context allocator_api
begin

lemma patch_outcome:
  assumes "patch_result P m m' s = (r, s')" "machines s (am_key m) = Some m"
  shows "claims s' = claims s \<and>
    (machines s' = machines s \<or> machines s' = (machines s)(am_key m \<mapsto> merge_awsmachine m m' m))"
proof -
  obtain e t where e: "p_patch_awsmachine P m m' s = (e, t)" by force
  with assms(1) have "t = s'" by (simp add: patch_result_def)
  with e assms(2) patch_done [of m m' s t] patch_failed [of m m' s _ t] patch_frame [of m m' s] show ?thesis
    by (cases e) auto
qed

lemma fall_back_step:
  assumes "dynamicFallback P m why s = (r, s')" "machines s (am_key m) = Some m" "served m" "why \<noteq> ''''"
  shows "machine_step (claims s) (machines s) m (claims s') (machines s')"
proof -
  let ?t = "record_event P \<lparr>ev_type = ''Warning'', ev_reason = ''DynamicFallback'', ev_action = ''ReleaseToCAPA'',
         ev_args = [why]\<rparr> (p_inc_fallbacks P why s)"
  have t: "claims ?t = claims s" "machines ?t = machines s" by (simp_all add: event_frame metric_frame)
  from assms have "patch_result P m (released m [] AllocationResultDynamicFallback (Some why)) ?t = (r, s')"
    by (simp add: steps_on_served)
  from patch_outcome [OF this] assms t show ?thesis by (auto intro: machine_step.intros)
qed

lemma mark_step:
  assumes "markFailed P m why s = (r, s')" "machines s (am_key m) = Some m" "served m" "why \<noteq> ''''"
  shows "machine_step (claims s) (machines s) m (claims s') (machines s')"
  using assms patch_outcome [of m "failed m why" s r s'] by (auto simp: markFailed_eq intro: machine_step.intros)

lemma release_outcome:
  assumes "release_allocated P m pool c s = (r, s')" "machines s (am_key m) = Some m" "served m"
  shows "claims s' = claims s \<and> (machines s' = machines s \<or>
      machines s' = (machines s)(am_key m \<mapsto> released m [claim_eni c] AllocationResultAllocated None))"
proof -
  let ?m = "released m [claim_eni c] AllocationResultAllocated None"
  obtain e t where e: "p_patch_awsmachine P m ?m s = (e, t)" by force
  with assms(1,3) have "claims s' = claims t" "machines s' = machines t"
    by (auto simp: steps_on_served event_frame split: option.splits)
  with e assms(2) patch_done [of m ?m s t] patch_failed [of m ?m s _ t] patch_frame [of m ?m s] show ?thesis
    by (cases e) auto
qed

lemma release_success:
  assumes "release_allocated P m pool c s = (Inr res, s')" "machines s (am_key m) = Some m" "served m"
  shows "claims s' = claims s \<and>
    machines s' = (machines s)(am_key m \<mapsto> released m [claim_eni c] AllocationResultAllocated None)"
proof -
  let ?m = "released m [claim_eni c] AllocationResultAllocated None"
  from assms(1,3) obtain t where e: "p_patch_awsmachine P m ?m s = (None, t)"
    "claims s' = claims t" "machines s' = machines t"
    by (auto simp: steps_on_served event_frame split: option.splits prod.splits)
  with assms(2) patch_done [of m ?m s t] patch_frame [of m ?m s] show ?thesis by auto
qed

lemma claimInterface_outcome:
  assumes "rc_claimInterface P m pool k s = (r, s')"
  shows "machines s' = machines s \<and>
    (case r of
       Inl e \<Rightarrow> claims s' = claims s
     | Inr None \<Rightarrow> claims s' = claims s \<and> no_claim_for (claims s) (machine_ref m) \<and>
         (\<forall>x. \<not> free_candidate (claims s) pool k x)
     | Inr (Some c) \<Rightarrow>
         (claims s' = claims s \<and> c \<in> ran (claims s) \<and> claim_machine c = machine_ref m) \<or>
         (no_claim_for (claims s) (machine_ref m) \<and> allocated (claims s) (machine_ref m) pool k c (claims s')))"
proof (cases "p_list_claims P s")
  case (Inl e)
  with assms show ?thesis by (auto simp: rc_claimInterface_def)
next
  case (Inr items)
  note list = list_coherent [OF Inr]
  show ?thesis
  proof (cases "find_claim m items")
    case (Some c)
    with assms Inr list find_claim_Some [OF Some] show ?thesis by (auto simp: rc_claimInterface_def)
  next
    case None
    with list have none: "no_claim_for (claims s) (machine_ref m)" by (simp add: no_claim_for_def find_claim_None)
    from assms Inr None have a: "allocate (p_create_claim P) (machine_ref m) pool k s = (r, s')"
      by (simp add: rc_claimInterface_def)
    have "machines s' = machines s"
      using allocate_preserves [of machines "p_create_claim P", OF create_frame a] .
    with a none allocate_error allocate_exhausted allocate_some show ?thesis
      by (fastforce split: sum.split option.split)
  qed
qed

lemma Reconcile_refines:
  assumes "machines s (ns, n) = Some m" "Reconcile_AWSMachine P ns n s = (r, s')"
  shows "machine_step (claims s) (machines s) m (claims s') (machines s')"
proof (cases "served m")
  case False
  with assms show ?thesis by (auto simp: Reconcile_not_served get_machines intro: machine_step.skip)
next
  case True
  have get: "p_get_awsmachine P s ns n = Inr m" using assms(1) by (simp add: get_machines)
  have key: "machines s (am_key m) = Some m" using assms(1) machine_named [OF assms(1)] by simp
  note run = assms(2) [unfolded Reconcile_served [OF get True]]
  show ?thesis
  proof (cases "\<exists>pool k. rc_target P m s pool k")
    case False
    with run key True show ?thesis
      by (auto simp: rc_target_def intro: machine_step.skip fall_back_step split: sum.splits option.splits)
  next
    case target: True
    then obtain pool k where t: "rc_target P m s pool k" by blast
    note run = assms(2) [unfolded Reconcile_at_target [OF get True t]]
    obtain oc t where c: "rc_claimInterface P m pool k s = (oc, t)" by force
    note out = claimInterface_outcome [OF c]
    with key have key': "machines t (am_key m) = Some m" by simp
    show ?thesis
    proof (cases oc)
      case (Inl e)
      with run c out show ?thesis by (auto intro: machine_step.skip)
    next
      case (Inr oc')
      show ?thesis
      proof (cases oc')
        case None
        with Inr run c out key' True show ?thesis
          by (fastforce intro: machine_step.skip dest: fall_back_step mark_step split: if_splits)
      next
        case (Some cl)
        with Inr run c have "release_allocated P m pool cl t = (r, s')" by simp
        from release_outcome [OF this key' True] out Inr Some True show ?thesis
          by (auto intro: machine_step.intros)
      qed
    qed
  qed
qed

lemma Reconcile_exhausted:
  assumes "machines s (ns, n) = Some m" "served m" "rc_target P m s pool k"
    and "p_list_claims P s = Inr items" "no_claim_for (claims s) (machine_ref m)"
    and "configured_for pool k = Inr cfg" "\<forall>x. \<not> free_candidate (claims s) pool k x"
    and "\<forall>x\<in>set (pool_interfaces pool).
      reports_taken (p_create_claim P) claims (new_claim (machine_ref m) (pool_name pool) x)"
  shows "\<exists>t. claims t = claims s \<and> machines t = machines s \<and> Reconcile_AWSMachine P ns n s =
    (let policy = ps_exhaustionPolicy (pool_spec pool) in
     if policy = ExhaustionPolicyWait then (Inr (requeue_after (30 * Second)), t)
     else if policy = ExhaustionPolicyFail then patch_result P m (failed m ''PoolExhausted'') t
     else patch_result P m (released m [] AllocationResultDynamicFallback (Some ''PoolExhausted''))
       (record_event P \<lparr>ev_type = ''Warning'', ev_reason = ''DynamicFallback'', ev_action = ''ReleaseToCAPA'',
          ev_args = [''PoolExhausted'']\<rparr> (p_inc_fallbacks P ''PoolExhausted'' t)))"
proof -
  from allocate_all_taken [OF assms(6,7,8)] obtain t where
    t: "allocate (p_create_claim P) (machine_ref m) pool k s = (Inr None, t)" "claims t = claims s" by blast
  have "machines t = machines s"
    using allocate_preserves [of machines "p_create_claim P", OF create_frame t(1)] .
  moreover have "find_claim m items = None"
    using assms(5) list_coherent [OF assms(4)] by (simp add: find_claim_None no_claim_for_def)
  with t(1) assms(4) have "rc_claimInterface P m pool k s = (Inr None, t)" by (simp add: rc_claimInterface_def)
  moreover have "p_get_awsmachine P s ns n = Inr m" using assms(1) by (simp add: get_machines)
  ultimately show ?thesis using t(2) assms(2,3)
    by (auto simp: Reconcile_at_target markFailed_eq steps_on_served Let_def)
qed

text \<open>A machine that has a claim, or for which an ENI is free, is released with an ENI it has a claim for.\<close>

lemma Reconcile_allocates:
  assumes "machines s (ns, n) = Some m" "served m" "rc_target P m s pool k"
    and "free_candidate (claims s) pool k x \<or> \<not> no_claim_for (claims s) (machine_ref m)"
    and "Reconcile_AWSMachine P ns n s = (Inr res, s')"
  shows "\<exists>c\<in>ran (claims s'). claim_machine c = machine_ref m \<and>
    machines s' = (machines s)((ns, n) \<mapsto> released m [claim_eni c] AllocationResultAllocated None)"
proof -
  have key: "am_key m = (ns, n)" using machine_named [OF assms(1)] .
  have "p_get_awsmachine P s ns n = Inr m" using assms(1) by (simp add: get_machines)
  note run = assms(5) [unfolded Reconcile_at_target [OF this assms(2,3)]]
  obtain oc t where c: "rc_claimInterface P m pool k s = (oc, t)" by force
  note out = claimInterface_outcome [OF c]
  with c run assms(4) obtain cl where cl: "oc = Inr (Some cl)" by (auto split: sum.splits option.splits)
  with c run have "release_allocated P m pool cl t = (Inr res, s')" by simp
  moreover have "machines t (am_key m) = Some m" using out assms(1) key by simp
  ultimately have s': "claims s' = claims t"
    "machines s' = (machines t)(am_key m \<mapsto> released m [claim_eni cl] AllocationResultAllocated None)"
    using release_success assms(2) by blast+
  from out cl have "cl \<in> ran (claims t) \<and> claim_machine cl = machine_ref m"
    by (auto simp: ran_def dest!: allocated_claims)
  with s' out key show ?thesis by auto
qed

text \<open>Under the policy \<^verbatim>\<open>Wait\<close> a machine stays as it is until then.\<close>

lemma Reconcile_waits:
  assumes "machines s (ns, n) = Some m" "served m" "rc_target P m s pool k"
    and "ps_exhaustionPolicy (pool_spec pool) = ExhaustionPolicyWait" and "Reconcile_AWSMachine P ns n s = (r, s')"
  shows "machines s' = machines s \<or> (\<exists>c\<in>ran (claims s'). claim_machine c = machine_ref m \<and>
    machines s' = (machines s)((ns, n) \<mapsto> released m [claim_eni c] AllocationResultAllocated None))"
proof -
  have key: "am_key m = (ns, n)" using machine_named [OF assms(1)] .
  have "p_get_awsmachine P s ns n = Inr m" using assms(1) by (simp add: get_machines)
  note run = assms(5) [unfolded Reconcile_at_target [OF this assms(2,3)]]
  obtain oc t where c: "rc_claimInterface P m pool k s = (oc, t)" by force
  note out = claimInterface_outcome [OF c]
  show ?thesis
  proof (cases "\<exists>cl. oc = Inr (Some cl)")
    case True
    then obtain cl where cl: "oc = Inr (Some cl)" by blast
    with c run have "release_allocated P m pool cl t = (r, s')" by simp
    moreover have "machines t (am_key m) = Some m" using out assms(1) key by simp
    ultimately have s': "claims s' = claims t" "machines s' = machines t \<or>
        machines s' = (machines t)(am_key m \<mapsto> released m [claim_eni cl] AllocationResultAllocated None)"
      using release_outcome assms(2) by blast+
    from out cl have "cl \<in> ran (claims t) \<and> claim_machine cl = machine_ref m"
      by (auto simp: ran_def dest!: allocated_claims)
    with s' out key show ?thesis by auto
  next
    case False
    with run c out assms(4) show ?thesis by (auto split: sum.splits option.splits)
  qed
qed

lemma Reconcile_missing:
  assumes "machines s (ns, n) = None" "Reconcile_AWSMachine P ns n s = (r, s')"
  shows "s' = s \<and> r = Inr no_requeue"
  using assms by (simp add: Reconcile_AWSMachine_def get_machines IgnoreNotFound_def)

end

lemma machine_step_machine:
  "machine_step cs ms m cs' ms' \<Longrightarrow> ms (am_key m) = Some m \<Longrightarrow> ms' (am_key m) = Some m' \<Longrightarrow>
     m' = m \<or> (\<exists>is res why. m' = released m is res why) \<or> (\<exists>why. m' = failed m why)"
  by (induction rule: machine_step.induct) (auto, blast)

lemma machine_step_other: "machine_step cs ms m cs' ms' \<Longrightarrow> k \<noteq> am_key m \<Longrightarrow> ms' k = ms k"
  by (induction rule: machine_step.induct) auto

lemma machine_step_reserved:
  "machine_step cs ms m cs' ms' \<Longrightarrow> cs' \<noteq> cs \<Longrightarrow> served m \<and> (\<exists>pool k c. allocated cs (machine_ref m) pool k c cs' \<and>
     (ms' = ms(am_key m \<mapsto> released m [claim_eni c] AllocationResultAllocated None) \<or> ms' = ms))"
  by (induction rule: machine_step.induct) auto

text \<open>The machine that has a claim: \<open>allocated\<close> adds one, for a machine that had none.\<close>

definition one_claim_each :: "(string \<rightharpoonup> ENIClaim) \<Rightarrow> bool" where
  "one_claim_each cs \<longleftrightarrow> (\<forall>a b c d. cs a = Some c \<longrightarrow> cs b = Some d \<longrightarrow> claim_machine c = claim_machine d \<longrightarrow> a = b)"

lemma one_claim_each_allocated:
  assumes "one_claim_each cs" "no_claim_for cs r" "allocated cs r pool k c cs'"
  shows "one_claim_each cs'"
proof -
  from allocated_claims [OF assms(3)] obtain x :: ENIReference where "cs' = cs(ref_id x \<mapsto> c)" "claim_machine c = r" by blast
  with assms(1,2) show ?thesis by (auto simp: one_claim_each_def no_claim_for_def ran_def split: if_splits)
qed

lemma machine_step_one_claim:
  "machine_step cs ms m cs' ms' \<Longrightarrow> one_claim_each cs \<Longrightarrow> one_claim_each cs'"
  by (induction rule: machine_step.induct) (auto intro: one_claim_each_allocated)

section \<open>Properties\<close>

lemma no_claim_for_stored: "\<forall>c\<in>set (w_claims s). claim_machine c \<noteq> r \<Longrightarrow> no_claim_for (srv_claims s) r"
  using ran_lookup_by [of claim_name "w_claims s"] by (auto simp: no_claim_for_def srv_claims_def)

lemma srv_reports_taken:
  "crd_eniID (ref_id x) \<Longrightarrow> p \<noteq> '''' \<Longrightarrow> reports_taken srv_create_claim srv_claims (new_claim r p x)"
  by (simp add: reports_taken_def srv_create_claim_def ValidateCreate_ENIClaim_iff claim_named_def crd_ENIClaimSpec_def)

lemmas rc_defs = rc_resolveClusterNetwork_def rc_findPool_def rc_resolveInterfaceKey_def rc_target_def

text \<open>A machine paused for the allocator, stored in the example world.\<close>

definition paused_machine :: "string \<Rightarrow> AWSMachine" where
  "paused_machine n = set_annotations (ex_keyed_machine n) (Some [AllocateFromPoolAnnotation \<mapsto> ''true'',
     AllocatorPausedAnnotation \<mapsto> ''true'', CAPPausedAnnotation \<mapsto> ''''])"

definition paused_world :: "ENIPool \<Rightarrow> world" where
  "paused_world p = ex_world\<lparr>w_awsmachines := [paused_machine ''b''], w_pools := [p]\<rparr>"

lemmas paused_defs = paused_machine_def paused_world_def

lemma paused_served: "served (paused_machine n)"
  by (simp add: served_def paused_machine_def map_index_Some) (simp add: set_annotations_def ex_defs)

lemma paused_meta: "m_ownerReferences (am_meta (paused_machine n)) = [ex_owner]"
  "am_namespace (paused_machine n) = ''workload''"
  by (simp_all add: paused_machine_def set_annotations_def ex_keyed_machine_def) (simp add: ex_defs)

lemma ex_is_owner: "is_machine_owner srv_ports ex_owner"
  by code_simp

lemma paused_resolve:
  assumes "w_machines s = [ex_capi_machine]" "w_clusters s = [ex_cluster]" "w_awsclusters s = [ac]"
    "ac_meta ac = meta ''workload'' ''cluster-a''"
  shows "rc_resolveClusterNetwork srv_ports (paused_machine n) s =
    (if ac_region ac = '''' \<or> ac_vpcID ac = '''' then Inl NetworkNotReady else Inr (ac_region ac, ac_vpcID ac))"
  by (simp add: rc_resolveClusterNetwork_def paused_meta ex_is_owner)
    (simp add: srv_ports_def assms meta_key_def ex_defs)

lemma paused_stored: "srv_machines (paused_world p) (''workload'', ''b'') = Some (paused_machine ''b'')"
  by (simp add: srv_machines_def paused_defs set_annotations_def ex_defs meta_key_def)





text \<open>
  The annotation writes of the reconciler never panic on a nil map: no call ends with the panic
  value, and no write of one annotation fails.
\<close>
theorem reconcile_machine_never_panics:
  "setAnnotation m key v \<noteq> None \<and> fst (Reconcile_AWSMachine P ns n s) \<noteq> Inl NilMapWrite"
proof -
  have patch: "fst (patch_result P a b t) \<noteq> Inl NilMapWrite" for a b t
    by (simp add: patch_result_def return_err_def split: prod.split option.split)
  have steps: "fst (dynamicFallback P a why t) \<noteq> Inl NilMapWrite" "fst (markFailed P a why t) \<noteq> Inl NilMapWrite"
    "fst (release_allocated P a pool c t) \<noteq> Inl NilMapWrite" for a why t pool c
    by (simp_all add: dynamicFallback_def markFailed_def release_allocated_def setAnnotation_eq patch Let_def
        split: prod.split option.split)
  have loop: "fst (create_first cr mr p rs t) \<noteq> Inl NilMapWrite" for cr mr p rs t
    by (induction rs arbitrary: t) (auto split: prod.split sum.split)
  have claim: "fst (rc_claimInterface P a pool k t) \<noteq> Inl NilMapWrite" for a pool k t
    by (simp add: rc_claimInterface_def allocate_def configured_for_def Let_def loop split: sum.split option.split)
  have reads: "rc_findPool P region vpc t \<noteq> Inl NilMapWrite" "rc_resolveInterfaceKey P a t \<noteq> Inl NilMapWrite"
    for region vpc a t
  proof -
    have "key_from_owners P ms t os \<noteq> Inl NilMapWrite" for ms os
      by (induction os) (auto split: sum.split)
    then show "rc_resolveInterfaceKey P a t \<noteq> Inl NilMapWrite" by (simp add: rc_resolveInterfaceKey_def Let_def)
    show "rc_findPool P region vpc t \<noteq> Inl NilMapWrite"
      by (auto simp: rc_findPool_def match_pools_filter split: sum.split list.split)
  qed
  show ?thesis
    using steps claim reads
    by (auto simp: setAnnotation_eq Reconcile_AWSMachine_def IgnoreNotFound_def split: sum.split option.split prod.split)
      (metis fst_conv)+
qed

text \<open>
  C20: What happens to a machine when every ENI it could have is taken depends on the pool's policy:
  under Wait the call changes nothing and comes back in 30 seconds; under Fail the machine is marked as
  failed with the reason; under any other value (Dynamic, or an empty one) it is counted as a fallback,
  an event is sent, and one patch releases it without an interface.
\<close>
theorem reconcile_machine_policies:
  assumes api: "allocator_api P claims machines"
    and "machines s (ns, n) = Some m" "served m" "rc_target P m s pool k"
    and "p_list_claims P s = Inr items" "no_claim_for (claims s) (machine_ref m)"
    and "configured_for pool k = Inr cfg" "\<forall>x. \<not> free_candidate (claims s) pool k x"
    and "\<forall>x\<in>set (pool_interfaces pool).
      reports_taken (p_create_claim P) claims (new_claim (machine_ref m) (pool_name pool) x)"
  shows "\<exists>t. claims t = claims s \<and> machines t = machines s \<and> Reconcile_AWSMachine P ns n s =
    (let policy = ps_exhaustionPolicy (pool_spec pool) in
     if policy = ExhaustionPolicyWait then (Inr (requeue_after (30 * Second)), t)
     else if policy = ExhaustionPolicyFail then patch_result P m (failed m ''PoolExhausted'') t
     else patch_result P m (released m [] AllocationResultDynamicFallback (Some ''PoolExhausted''))
       (record_event P \<lparr>ev_type = ''Warning'', ev_reason = ''DynamicFallback'', ev_action = ''ReleaseToCAPA'',
          ev_args = [''PoolExhausted'']\<rparr> (p_inc_fallbacks P ''PoolExhausted'' t)))"
  using allocator_api.Reconcile_exhausted [OF assms] .

text \<open>The example world with both ENIs claimed by other machines.\<close>

definition full_world :: "ExhaustionPolicy \<Rightarrow> world" where
  "full_world q = (paused_world (with_policy q ex_pool))\<lparr>w_claims :=
     [new_claim (ex_ref ''x'') ''pool-a'' edge_ref, new_claim (ex_ref ''y'') ''pool-a'' core_ref]\<rparr>"

lemma paused_target:
  assumes "w_machines s = [ex_capi_machine]" "w_clusters s = [ex_cluster]" "w_awsclusters s = [ex_awscluster]"
    "w_pools s = [p]" "pool_region p = ''ap-northeast-2''" "pool_vpcID p = ''vpc-0123''"
  shows "rc_target srv_ports (paused_machine n) s p ''edge-worker-1''"
proof -
  have "rc_resolveClusterNetwork srv_ports (paused_machine n) s = Inr (''ap-northeast-2'', ''vpc-0123'')"
    by (subst paused_resolve [where ac = ex_awscluster]) (simp_all add: assms ex_awscluster_def)
  moreover have "map_index (am_annotations (paused_machine n)) InterfaceKeyAnnotation = ''''"
    by (simp add: paused_machine_def map_index_Some)
  then have "rc_resolveInterfaceKey srv_ports (paused_machine n) s = Inr ''edge-worker-1''"
    by (simp add: rc_resolveInterfaceKey_def paused_meta ex_is_owner)
      (simp add: srv_ports_def assms meta_key_def ex_defs map_index_Some)
  moreover have "rc_findPool srv_ports ''ap-northeast-2'' ''vpc-0123'' s = Inr (Some p)"
    using assms by (simp add: rc_findPool_def)
  ultimately show ?thesis by (auto simp: rc_target_def)
qed
theorem reconcile_machine_policies_witness:
  "\<exists>t. srv_machines t = srv_machines (full_world ExhaustionPolicyWait) \<and>
     Reconcile_AWSMachine srv_ports ''workload'' ''b'' (full_world ExhaustionPolicyWait) =
       (Inr (requeue_after (30 * Second)), t)"
proof -
  let ?s = "full_world ExhaustionPolicyWait" and ?p = "with_policy ExhaustionPolicyWait ex_pool"
  have stored: "srv_machines ?s (''workload'', ''b'') = Some (paused_machine ''b'')"
    using paused_stored [of ?p] by (simp add: full_world_def srv_machines_def)
  have target: "rc_target srv_ports (paused_machine ''b'') ?s ?p ''edge-worker-1''"
    by (rule paused_target) (simp_all add: full_world_def paused_world_def ex_defs)
  have none: "no_claim_for (srv_claims ?s) (machine_ref (paused_machine ''b''))"
  proof -
    have "machine_ref (paused_machine ''b'') = ex_ref ''b''"
      by (simp add: machine_ref_def paused_machine_def) (simp add: ex_defs)
    then have "\<forall>c\<in>set (w_claims ?s). claim_machine c \<noteq> machine_ref (paused_machine ''b'')"
      by (simp add: full_world_def ex_ref_def)
    then show ?thesis by (rule no_claim_for_stored)
  qed
  have cfg: "configured_for ?p ''edge-worker-1'' = Inr [edge_ref]"
    by (simp add: configured_for_def ex_defs)
  have full: "\<not> free_candidate (srv_claims ?s) ?p ''edge-worker-1'' x" for x
    by (auto simp: free_candidate_def srv_claims_def full_world_def with_policy_simps) (auto simp: ex_defs)
  have "crd_eniID (ref_id edge_ref)" "crd_eniID (ref_id core_ref)" by code_simp+
  moreover have "pool_interfaces ?p = [edge_ref, core_ref]" "pool_name ?p \<noteq> ''''" by (simp_all add: ex_defs)
  ultimately have "\<forall>x\<in>set (pool_interfaces ?p). reports_taken (p_create_claim srv_ports) srv_claims
      (new_claim (machine_ref (paused_machine ''b'')) (pool_name ?p) x)"
    by (simp add: srv_reports_taken)
  from reconcile_machine_policies [OF srv_api.allocator_api_axioms stored paused_served target srv_ports_simps(5) none cfg]
    full this
  show ?thesis by (auto simp: Let_def) (auto simp: ex_defs)
qed

text \<open>
  The machine reconciler waits for the network: as long as the AWSCluster has no region or no VPC,
  or the objects that lead to it are missing, a served machine is left as it is and looked at again in
  10 seconds; a network it goes on with has both.
\<close>
theorem reconcile_machine_waits_for_network:
  assumes "p_get_awsmachine P s ns n = Inr m" "served m"
  shows "case rc_resolveClusterNetwork P m s of
      Inl e \<Rightarrow> Reconcile_AWSMachine P ns n s = (Inr (requeue_after (10 * Second)), s)
    | Inr (region, vpcID) \<Rightarrow> region \<noteq> '''' \<and> vpcID \<noteq> ''''"
  using Reconcile_served [OF assms]
  by (auto simp: rc_resolveClusterNetwork_def Let_def split: sum.split)

theorem reconcile_machine_waits_for_network_witness:
  "Reconcile_AWSMachine srv_ports ''workload'' ''b'' (paused_world ex_pool\<lparr>w_awsclusters := [ex_awscluster\<lparr>ac_vpcID := ''''\<rparr>]\<rparr>) =
     (Inr (requeue_after (10 * Second)), paused_world ex_pool\<lparr>w_awsclusters := [ex_awscluster\<lparr>ac_vpcID := ''''\<rparr>]\<rparr>)"
proof -
  let ?s = "paused_world ex_pool\<lparr>w_awsclusters := [ex_awscluster\<lparr>ac_vpcID := ''''\<rparr>]\<rparr>"
  have get: "p_get_awsmachine srv_ports ?s ''workload'' ''b'' = Inr (paused_machine ''b'')"
    using paused_stored [of ex_pool] by (simp add: srv_get_awsmachine_def srv_machines_def)
  have "rc_resolveClusterNetwork srv_ports (paused_machine ''b'') ?s = Inl NetworkNotReady"
    by (subst paused_resolve [where ac = "ex_awscluster\<lparr>ac_vpcID := ''''\<rparr>"])
      (simp_all add: paused_world_def ex_world_def ex_awscluster_def)
  with reconcile_machine_waits_for_network [OF get paused_served] show ?thesis by (simp only: sum.case)
qed

text \<open>
  A call that released its machine is the last one with an effect: the released machine is not
  served any more, and the next call for it changes nothing. Only a failure mark keeps it served.
\<close>
theorem reconcile_machine_settles:
  assumes "allocator_api P claims machines"
    and "machines s (ns, n) = Some m" and "Reconcile_AWSMachine P ns n s = (r, s')"
    and "machines s' (ns, n) = Some m'" "m' \<noteq> m"
    and "map_index (am_annotations m') AllocationResultAnnotation \<noteq> AllocationResultFailed"
  shows "Reconcile_AWSMachine P ns n s' = (Inr no_requeue, s')"
proof -
  have "am_key m = (ns, n)"
    using machine_store.machine_named [OF allocator_api.axioms(2) [OF assms(1)] assms(2)] .
  moreover have "machine_step (claims s) (machines s) m (claims s') (machines s')"
    by (rule allocator_api.Reconcile_refines [OF assms(1-3)])
  ultimately have "m' = m \<or> (\<exists>is res why. m' = released m is res why) \<or> (\<exists>why. m' = failed m why)"
    using machine_step_machine [of "claims s" "machines s" m "claims s'" "machines s'" m'] assms(2,4) by simp
  then consider "m' = m" | i res why where "m' = released m i res why" | why where "m' = failed m why" by blast
  then have "\<not> served m'"
    using assms(5,6) by cases (simp_all add: released_not_served failed_def map_index_Some)
  moreover have "p_get_awsmachine P s' ns n = Inr m'"
    using machine_store.get_machines [OF allocator_api.axioms(2), OF assms(1)] assms(4) by simp
  ultimately show ?thesis by (rule Reconcile_not_served [rotated])
qed

theorem reconcile_machine_settles_witness:
  "\<exists>s'. am_networkInterfaces (the (srv_machines s' (''workload'', ''b''))) = [''eni-0999''] \<and>
     Reconcile_AWSMachine srv_ports ''workload'' ''b'' s' = (Inr no_requeue, s')"
proof -
  let ?run = "Reconcile_AWSMachine srv_ports ''workload'' ''b'' (paused_world ex_pool)"
  have nics: "map_option am_networkInterfaces (srv_machines (snd ?run) (''workload'', ''b'')) = Some [''eni-0999'']"
    by code_simp
  have result: "map_option (\<lambda>m. map_index (am_annotations m) AllocationResultAnnotation)
      (srv_machines (snd ?run) (''workload'', ''b'')) = Some AllocationResultAllocated"
    by code_simp
  obtain r s' where run: "?run = (r, s')" by (rule prod.exhaust)
  from nics obtain m' where m': "srv_machines s' (''workload'', ''b'') = Some m'" "am_networkInterfaces m' = [''eni-0999'']"
    unfolding run snd_conv by (cases "srv_machines s' (''workload'', ''b'')") simp_all
  have ne: "m' \<noteq> paused_machine ''b''"
    using m'(2) paused_served [of "''b''"] by (auto simp: served_def)
  have "map_index (am_annotations m') AllocationResultAnnotation \<noteq> AllocationResultFailed"
    using result m'(1) unfolding run snd_conv by simp
  from reconcile_machine_settles [OF srv_api.allocator_api_axioms, OF paused_stored run m'(1) ne this] m'
  show ?thesis by (intro exI [of _ s']) simp
qed


text \<open>The reference server with a network that loses the first patch.\<close>

definition lost_patch :: "AWSMachine \<Rightarrow> AWSMachine \<Rightarrow> world \<Rightarrow> api_error option \<times> world" where
  "lost_patch base new s =
     (if w_events s = [] then (Some (OtherError ''timeout''), s\<lparr>w_events := [\<lparr>ev_type = ''Warning'',
         ev_reason = ''Lost'', ev_action = ''Patch'', ev_args = []\<rparr>]\<rparr>)
      else srv_patch_awsmachine base new s)"

definition lossy_ports :: "world ports" where
  "lossy_ports = srv_ports\<lparr>p_patch_awsmachine := lost_patch\<rparr>"

lemma lossy_api: "allocator_api lossy_ports srv_claims srv_machines"
proof (rule allocator_api.intro)
  show "claim_store (p_create_claim lossy_ports) srv_claims"
    using srv_claim_store by (simp add: lossy_ports_def)
  show "machine_store (p_get_awsmachine lossy_ports) (p_patch_awsmachine lossy_ports) srv_machines"
    using srv_api.get_machines srv_api.machine_named srv_api.patch_done srv_api.patch_failed
    by unfold_locales (auto simp: lossy_ports_def lost_patch_def split: if_splits)
  show "allocator_api_axioms lossy_ports srv_claims srv_machines"
    using srv_api.list_coherent srv_api.create_frame srv_api.patch_frame srv_api.event_frame srv_api.metric_frame
    by unfold_locales (auto simp: lossy_ports_def lost_patch_def record_event_def)
qed


text \<open>
  C21: While an ENI the machine could have is free, a call that ends without an error releases the
  machine with an ENI for which it holds a claim. This holds for a machine that an earlier call marked
  as failed, too: the mark is not terminal. (The documentation of the Fail policy calls it a terminal
  allocation failure.)
\<close>
theorem reconcile_machine_allocates:
  assumes "allocator_api P claims machines"
    and "machines s (ns, n) = Some m'" "m' = m \<or> m' = failed m why" "served m" "rc_target P m' s pool k"
    and "free_candidate (claims s) pool k x" and "Reconcile_AWSMachine P ns n s = (Inr res, s')"
  shows "\<exists>c\<in>ran (claims s'). claim_machine c = machine_ref m' \<and>
    machines s' = (machines s)((ns, n) \<mapsto> released m' [claim_eni c] AllocationResultAllocated None)"
proof -
  have "served m'" using assms(3,4) by (auto simp: failed_served)
  then show ?thesis by (rule allocator_api.Reconcile_allocates [OF assms(1,2) _ assms(5) disjI1 [OF assms(6)] assms(7)])
qed

theorem reconcile_machine_allocates_witness:
  "\<exists>s' c. Reconcile_AWSMachine srv_ports ''workload'' ''b'' (paused_world ex_pool) = (Inr no_requeue, s') \<and>
     c \<in> ran (srv_claims s') \<and> claim_machine c = ex_ref ''b'' \<and>
     am_networkInterfaces (the (srv_machines s' (''workload'', ''b''))) = [claim_eni c]"
proof -
  let ?s = "paused_world ex_pool"
  have "case fst (Reconcile_AWSMachine srv_ports ''workload'' ''b'' ?s) of Inr res \<Rightarrow> RequeueAfter res = 0 | _ \<Rightarrow> False"
    by code_simp
  then obtain res where "fst (Reconcile_AWSMachine srv_ports ''workload'' ''b'' ?s) = Inr res" "RequeueAfter res = 0"
    by (auto split: sum.splits)
  then obtain s' where run: "Reconcile_AWSMachine srv_ports ''workload'' ''b'' ?s = (Inr res, s')" "res = no_requeue"
    by (cases "Reconcile_AWSMachine srv_ports ''workload'' ''b'' ?s") (simp add: no_requeue_def)
  have target: "rc_target srv_ports (paused_machine ''b'') ?s ex_pool ''edge-worker-1''"
    by (rule paused_target) (simp_all add: paused_world_def ex_defs)
  have free: "free_candidate (srv_claims ?s) ex_pool ''edge-worker-1'' edge_ref"
    by (simp add: free_candidate_def srv_claims_def paused_defs ex_defs)
  have ref: "machine_ref (paused_machine ''b'') = ex_ref ''b''"
    by (simp add: machine_ref_def paused_meta ex_ref_def) (simp add: paused_machine_def ex_keyed_machine_def ex_machine_def meta_def)
  from reconcile_machine_allocates [OF srv_api.allocator_api_axioms, OF paused_stored disjI1 [OF refl] paused_served target free run(1)]
  show ?thesis using run ref by auto
qed

text \<open>
  The reconciler has nothing to do for a machine the webhook handled, with or without an ENI, unless
  the machine was submitted with the allocator's own pause annotation: the exhaustion policies and the
  fallback metric do not apply to it.
\<close>
theorem reconcile_skips_admitted_machines:
  assumes "Default_AWSMachine (Some Q) request obj t = ((None, obj'), t')"
    and "map_index (am_annotations obj) AllocatorPausedAnnotation \<noteq> ''true''"
    and "p_get_awsmachine P s ns n = Inr m" "am_annotations m = am_annotations obj'"
  shows "Reconcile_AWSMachine P ns n s = (Inr no_requeue, s)"
proof -
  have "map_index (am_annotations obj') AllocatorPausedAnnotation \<noteq> ''true''"
    using Default_keeps_pause(1) [of Q request obj t] assms(1,2) by simp
  with assms(4) have "\<not> served m" by (simp add: served_def)
  with assms(3) show ?thesis by (rule Reconcile_not_served)
qed

theorem reconcile_skips_admitted_machines_witness:
  "Reconcile_AWSMachine srv_ports ''workload'' ''a'' (ex_world\<lparr>w_awsmachines := [ex_machine ''a'']\<rparr>) =
     (Inr no_requeue, ex_world\<lparr>w_awsmachines := [ex_machine ''a'']\<rparr>)"
proof (rule reconcile_skips_admitted_machines [of srv_ports "Some \<lparr>req_DryRun = Some True\<rparr>" "ex_machine ''a''" ex_world])
  show "Default_AWSMachine (Some srv_ports) (Some \<lparr>req_DryRun = Some True\<rparr>) (ex_machine ''a'') ex_world =
      ((None, ex_machine ''a''), ex_world)"
    by (simp add: handler_simps wants_eni_def)
  show "map_index (am_annotations (ex_machine ''a'')) AllocatorPausedAnnotation \<noteq> ''true''"
    by (simp add: ex_defs map_index_Some)
  show "p_get_awsmachine srv_ports (ex_world\<lparr>w_awsmachines := [ex_machine ''a'']\<rparr>) ''workload'' ''a'' =
      Inr (ex_machine ''a'')"
    by (simp add: srv_get_awsmachine_def srv_machines_def ex_defs meta_key_def)
qed simp

end
