(* ===== verification/ENIClaim_Controller.thy ===== *)
theory ENIClaim_Controller
  imports Example_World
begin

text \<open>
  The ENIClaim reconciler (\<^verbatim>\<open>internal/controller/eniclaim_controller.go\<close>): it keeps the finalizer on a
  claim, publishes whether the ENI is bound, reclaims claims whose machine does not exist (after a grace
  period for the admission that created them), and releases claims that are being deleted.
  \<open>Reconcile_ENIClaim\<close> is the handler; \<open>now\<close> is the time that \<^verbatim>\<open>time.Since\<close> reads.
\<close>

section \<open>Helpers\<close>

fun containsString :: "string list \<Rightarrow> string \<Rightarrow> bool" where
  "containsString [] wanted = False"
| "containsString (value # values) wanted = (if value = wanted then True else containsString values wanted)"

fun removeString :: "string list \<Rightarrow> string \<Rightarrow> string list" where
  "removeString [] unwanted = []"
| "removeString (value # values) unwanted =
     (if value \<noteq> unwanted then value # removeString values unwanted else removeString values unwanted)"

definition boolCondition :: "bool \<Rightarrow> string" where
  "boolCondition value = (if value then ConditionTrue else ConditionFalse)"

fun configured_ip :: "ENIReference list \<Rightarrow> string \<Rightarrow> string" where
  "configured_ip [] eniID = ''''"
| "configured_ip (configured # rest) eniID =
     (if ref_id configured = eniID then ref_privateIP configured else configured_ip rest eniID)"

definition configuredPrivateIP :: "ENIPool \<Rightarrow> string \<Rightarrow> string" where
  "configuredPrivateIP pool eniID = configured_ip (pool_interfaces pool) eniID"

text \<open>\<^verbatim>\<open>claim.Finalizers = fs\<close>\<close>

definition with_finalizers :: "string list \<Rightarrow> ENIClaim \<Rightarrow> ENIClaim" where
  "with_finalizers fs claim = claim\<lparr>claim_meta := (claim_meta claim)\<lparr>m_finalizers := fs\<rparr>\<rparr>"

definition removeFinalizer :: "'s ports \<Rightarrow> ENIClaim \<Rightarrow> 's \<Rightarrow> api_error option \<times> 's" where
  "removeFinalizer P claim s =
     (if \<not> containsString (claim_finalizers claim) ClaimFinalizer then (None, s)
      else case p_patch_claim P claim
             (with_finalizers (removeString (claim_finalizers claim) ClaimFinalizer) claim) s of
        (Inl e, s') \<Rightarrow> (Some e, s')
      | (Inr _, s') \<Rightarrow> (None, s'))"

section \<open>The handler\<close>

text \<open>The step that adds the finalizer; it returns the claim as the rest of the call sees it.\<close>

definition ensure_finalizer :: "'s ports \<Rightarrow> ENIClaim \<Rightarrow> 's \<Rightarrow> (api_error + ENIClaim) \<times> 's" where
  "ensure_finalizer P claim s =
     (if \<not> containsString (claim_finalizers claim) ClaimFinalizer then
        p_patch_claim P claim (with_finalizers (claim_finalizers claim @ [ClaimFinalizer]) claim) s
      else (Inr claim, s))"

text \<open>The branch of a claim whose machine does not exist.\<close>

definition reclaim :: "'s ports \<Rightarrow> instant \<Rightarrow> ENIClaim \<Rightarrow> 's \<Rightarrow> (error + Result) \<times> 's" where
  "reclaim P now claim s =
     (if time_Since now (m_creationTimestamp (claim_meta claim)) < 30 * Second
      then (Inr (requeue_after (5 * Second)), s)
      else case p_delete_claim P claim s of
        (Some e, s') \<Rightarrow> if e \<noteq> NotFound then (Inl (ApiError e), s') else (Inr no_requeue, s')
      | (None, s') \<Rightarrow> (Inr no_requeue, s'))"

text \<open>The branch of a claim whose machine exists: the phase and the address it publishes.\<close>

definition observed_phase :: "ENIPool \<Rightarrow> ENIClaim \<Rightarrow> ENIClaimPhase" where
  "observed_phase pool claim =
     (if configuredPrivateIP pool (claim_eni claim) = '''' then ENIClaimPhaseFailed else ENIClaimPhaseBound)"

definition observe :: "'s ports \<Rightarrow> ENIPool \<Rightarrow> ENIClaim \<Rightarrow> 's \<Rightarrow> (error + Result) \<times> 's" where
  "observe P pool claim s =
     (let phase = observed_phase pool claim;
          privateIP = configuredPrivateIP pool (claim_eni claim)
      in if cst_phase (claim_status claim) \<noteq> phase \<or> cst_privateIP (claim_status claim) \<noteq> privateIP then
           let claim' = claim\<lparr>claim_status := (claim_status claim)\<lparr>cst_phase := phase, cst_privateIP := privateIP,
                 cst_conditions := p_set_condition P (cst_conditions (claim_status claim))
                   \<lparr>cond_Type = ''Ready'', cond_Status = boolCondition (phase = ENIClaimPhaseBound),
                    cond_Reason = phase, cond_Message = '''',
                    cond_ObservedGeneration = m_generation (claim_meta claim)\<rparr>\<rparr>\<rparr>
           in case p_update_claim_status P claim' s of
             (Some e, s') \<Rightarrow> (Inl (ApiError e), s')
           | (None, s') \<Rightarrow> (Inr (requeue_after (5 * Minute)), s')
         else (Inr (requeue_after (5 * Minute)), s))"

definition Reconcile_ENIClaim :: "'s ports \<Rightarrow> instant \<Rightarrow> string \<Rightarrow> 's \<Rightarrow> (error + Result) \<times> 's" where
  "Reconcile_ENIClaim P now n s = (case p_get_claim P s n of
     Inl e \<Rightarrow> (IgnoreNotFound e, s)
   | Inr claim \<Rightarrow>
       (case p_get_pool P s (claim_pool claim) of
          Inl e \<Rightarrow>
            if e = NotFound \<and> m_deletionTimestamp (claim_meta claim) \<noteq> None
            then (case removeFinalizer P claim s of (r, s') \<Rightarrow> (return_err r, s'))
            else (Inl (ApiError e), s)
        | Inr pool \<Rightarrow>
            if m_deletionTimestamp (claim_meta claim) \<noteq> None
            then (case removeFinalizer P claim s of (r, s') \<Rightarrow> (return_err r, s'))
            else (case ensure_finalizer P claim s of
                (Inl e, s') \<Rightarrow> (Inl (ApiError e), s')
              | (Inr claim', s') \<Rightarrow>
                  (case p_get_awsmachine P s' (nref_namespace (claim_machine claim')) (nref_name (claim_machine claim')) of
                     Inl e \<Rightarrow> if e = NotFound then reclaim P now claim' s' else (Inl (ApiError e), s')
                   | Inr machine \<Rightarrow> observe P pool claim' s'))))"

section \<open>The helpers do what their names say\<close>

lemma containsString_iff [simp]: "containsString xs x \<longleftrightarrow> x \<in> set xs"
  by (induction xs) auto

lemma removeString_filter: "removeString xs x = filter (\<lambda>y. y \<noteq> x) xs"
  by (induction xs) auto

lemma removeString_set [simp]: "set (removeString xs x) = set xs - {x}"
  by (auto simp: removeString_filter)

lemma configured_ip_lookup:
  "configured_ip rs i = (case lookup_by ref_id rs i of None \<Rightarrow> '''' | Some r \<Rightarrow> ref_privateIP r)"
  by (induction rs) auto

lemma configured_ip_member:
  "distinct (map ref_id rs) \<Longrightarrow> r \<in> set rs \<Longrightarrow> configured_ip rs (ref_id r) = ref_privateIP r"
  by (simp add: configured_ip_lookup lookup_by_distinct [THEN iffD2])

lemma with_finalizers_simps [simp]:
  "claim_name (with_finalizers fs c) = claim_name c" "claim_spec (with_finalizers fs c) = claim_spec c"
  "claim_finalizers (with_finalizers fs c) = fs" "claim_status (with_finalizers fs c) = claim_status c"
  "m_deletionTimestamp (claim_meta (with_finalizers fs c)) = m_deletionTimestamp (claim_meta c)"
  "m_creationTimestamp (claim_meta (with_finalizers fs c)) = m_creationTimestamp (claim_meta c)"
  by (simp_all add: with_finalizers_def)

lemma merge_with_finalizers [simp]: "merge_claim c (with_finalizers fs c) c = with_finalizers fs c"
  by (simp add: merge_claim_def with_finalizers_def)

lemma with_own_finalizers [simp]: "with_finalizers (claim_finalizers c) c = c"
  by (simp add: with_finalizers_def)

section \<open>The specification of a reconciliation\<close>

text \<open>
  What becomes of a claim, as a function of the pool and the machine it refers to (or the errors of
  reading them), the controller's clock \<open>now\<close> and the server's clock \<open>t\<close>; \<open>setc\<close> is the condition
  setter. The other claims are not touched.
\<close>

definition releasing :: "ENIClaim \<Rightarrow> bool" where
  "releasing c \<longleftrightarrow> m_deletionTimestamp (claim_meta c) \<noteq> None"

definition guarded :: "ENIClaim \<Rightarrow> ENIClaim" where
  "guarded c = (if ClaimFinalizer \<in> set (claim_finalizers c) then c
     else with_finalizers (claim_finalizers c @ [ClaimFinalizer]) c)"

definition unguarded :: "ENIClaim \<Rightarrow> ENIClaim option" where
  "unguarded c = (if ClaimFinalizer \<in> set (claim_finalizers c)
     then settle (with_finalizers (filter (\<lambda>f. f \<noteq> ClaimFinalizer) (claim_finalizers c)) c) else Some c)"

definition expired :: "instant \<Rightarrow> ENIClaim \<Rightarrow> bool" where
  "expired now c \<longleftrightarrow> 30 * Second \<le> now - m_creationTimestamp (claim_meta c)"

definition published :: "(Condition list \<Rightarrow> Condition \<Rightarrow> Condition list) \<Rightarrow> ENIPool \<Rightarrow> ENIClaim \<Rightarrow> ENIClaim" where
  "published setc pool c =
     (let ip = configuredPrivateIP pool (claim_eni c);
          phase = (if ip = '''' then ENIClaimPhaseFailed else ENIClaimPhaseBound)
      in if cst_phase (claim_status c) = phase \<and> cst_privateIP (claim_status c) = ip then c
         else c\<lparr>claim_status := \<lparr>cst_phase = phase, cst_privateIP = ip,
           cst_conditions = setc (cst_conditions (claim_status c)) \<lparr>cond_Type = ''Ready'',
             cond_Status = (if ip = '''' then ConditionFalse else ConditionTrue), cond_Reason = phase,
             cond_Message = '''', cond_ObservedGeneration = m_generation (claim_meta c)\<rparr>\<rparr>\<rparr>)"

definition next_claim :: "(Condition list \<Rightarrow> Condition \<Rightarrow> Condition list) \<Rightarrow> instant \<Rightarrow> instant \<Rightarrow>
    api_error + ENIPool \<Rightarrow> api_error + AWSMachine \<Rightarrow> ENIClaim \<Rightarrow> ENIClaim option" where
  "next_claim setc now t pool machine c =
     (if releasing c then
        (if (\<exists>e. pool = Inl e \<and> e \<noteq> NotFound) then Some c else unguarded c)
      else case pool of
        Inl e \<Rightarrow> Some c
      | Inr p \<Rightarrow> (case machine of
          Inl e \<Rightarrow> Some (if e = NotFound \<and> expired now c then stamp t (guarded c) else guarded c)
        | Inr m \<Rightarrow> Some (published setc p (guarded c))))"

definition next_result :: "instant \<Rightarrow> api_error + ENIPool \<Rightarrow> api_error + AWSMachine \<Rightarrow> ENIClaim \<Rightarrow> error + Result" where
  "next_result now pool machine c =
     (case pool of
        Inl e \<Rightarrow> if releasing c \<and> e = NotFound then Inr no_requeue else Inl (ApiError e)
      | Inr p \<Rightarrow>
          if releasing c then Inr no_requeue
          else (case machine of
            Inl e \<Rightarrow> if e \<noteq> NotFound then Inl (ApiError e)
                    else Inr (if expired now c then no_requeue else requeue_after (5 * Second))
          | Inr m \<Rightarrow> Inr (requeue_after (5 * Minute))))"

lemma guarded_simps [simp]:
  "claim_name (guarded c) = claim_name c" "claim_spec (guarded c) = claim_spec c"
  "claim_status (guarded c) = claim_status c" "releasing (guarded c) = releasing c"
  "m_creationTimestamp (claim_meta (guarded c)) = m_creationTimestamp (claim_meta c)"
  "ClaimFinalizer \<in> set (claim_finalizers (guarded c))" "guarded (guarded c) = guarded c"
  "expired now (guarded c) = expired now c"
  by (auto simp: guarded_def releasing_def expired_def)

lemma published_simps [simp]:
  "claim_name (published setc p c) = claim_name c" "claim_spec (published setc p c) = claim_spec c"
  "claim_meta (published setc p c) = claim_meta c"
  by (auto simp: published_def Let_def)

definition up_to_date :: "ENIPool \<Rightarrow> ENIClaim \<Rightarrow> bool" where
  "up_to_date pool c \<longleftrightarrow> cst_phase (claim_status c) = observed_phase pool c \<and>
     cst_privateIP (claim_status c) = configuredPrivateIP pool (claim_eni c)"

lemma published_same: "up_to_date pool c \<Longrightarrow> published setc pool c = c"
  by (auto simp: published_def up_to_date_def observed_phase_def Let_def)

lemma status_update_all: "(st :: ENIClaimStatus)\<lparr>cst_phase := a, cst_privateIP := b, cst_conditions := d\<rparr> =
    \<lparr>cst_phase = a, cst_privateIP = b, cst_conditions = d\<rparr>"
  by simp

lemma published_changed: "\<not> up_to_date pool c \<Longrightarrow> published setc pool c = c\<lparr>claim_status :=
    \<lparr>cst_phase = observed_phase pool c, cst_privateIP = configuredPrivateIP pool (claim_eni c),
     cst_conditions = setc (cst_conditions (claim_status c)) \<lparr>cond_Type = ''Ready'',
       cond_Status = boolCondition (observed_phase pool c = ENIClaimPhaseBound), cond_Reason = observed_phase pool c,
       cond_Message = '''', cond_ObservedGeneration = m_generation (claim_meta c)\<rparr>\<rparr>\<rparr>"
  by (auto simp: published_def up_to_date_def observed_phase_def boolCondition_def Let_def split: if_splits)

lemma observe_eq: "observe P pool c s = (if up_to_date pool c then (Inr (requeue_after (5 * Minute)), s)
    else case p_update_claim_status P (published (p_set_condition P) pool c) s of
      (Some e, s') \<Rightarrow> (Inl (ApiError e), s') | (None, s') \<Rightarrow> (Inr (requeue_after (5 * Minute)), s'))"
proof (cases "up_to_date pool c")
  case True
  then show ?thesis by (simp add: observe_def up_to_date_def Let_def)
next
  case False
  then show ?thesis
    by (simp only: observe_def Let_def status_update_all published_changed [OF False])
      (simp add: up_to_date_def)
qed

lemma expired_Since: "time_Since now (m_creationTimestamp (claim_meta c)) < 30 * Second \<longleftrightarrow> \<not> expired now c"
  by (subst time_Since_less) (auto simp: minDuration_def maxDuration_def Second_def expired_def)

lemma settle_guarded: "claim_finalizers c \<noteq> [] \<Longrightarrow> settle c = Some c" "\<not> releasing c \<Longrightarrow> settle c = Some c"
  by (simp_all add: settle_def releasing_def)

context claim_api
begin

abbreviation machine_of :: "'s \<Rightarrow> ENIClaim \<Rightarrow> api_error + AWSMachine" where
  "machine_of s c \<equiv> p_get_awsmachine P s (nref_namespace (claim_machine c)) (nref_name (claim_machine c))"

lemma removeFinalizer_spec:
  assumes "claims s n = Some c"
  shows "\<exists>s'. removeFinalizer P c s = (None, s') \<and> claims s' = (claims s)(n := unguarded c)"
proof -
  have "claim_name c = n" by (rule named [OF assms])
  with assms patch_ok [of s c c "with_finalizers (removeString (claim_finalizers c) ClaimFinalizer) c"]
  show ?thesis by (auto simp: removeFinalizer_def unguarded_def removeString_filter)
qed

lemma ensure_finalizer_spec:
  assumes "claims s n = Some c" "\<not> releasing c"
  shows "\<exists>s'. ensure_finalizer P c s = (Inr (guarded c), s') \<and> claims s' = (claims s)(n \<mapsto> guarded c) \<and>
    p_get_awsmachine P s' = p_get_awsmachine P s \<and> now s' = now s"
proof (cases "ClaimFinalizer \<in> set (claim_finalizers c)")
  case True
  with assms show ?thesis by (auto simp: ensure_finalizer_def guarded_def)
next
  case False
  let ?c = "with_finalizers (claim_finalizers c @ [ClaimFinalizer]) c"
  have "claim_name c = n" by (rule named [OF assms(1)])
  with assms(1) patch_ok [of s c c ?c] obtain s' where
    "p_patch_claim P c ?c s = (Inr ?c, s')" "claims s' = (claims s)(n := settle ?c)" by auto
  moreover have "settle ?c = Some ?c" by (rule settle_guarded) simp
  ultimately show ?thesis using False patch_reads(1) [of c ?c s] patch_now [of c ?c s]
    by (simp add: ensure_finalizer_def guarded_def)
qed

end

context claim_api
begin

lemma reclaim_spec:
  assumes "claims s n = Some c" "claim_finalizers c \<noteq> []"
  shows "\<exists>s'. reclaim P t c s = (Inr (if expired t c then no_requeue else requeue_after (5 * Second)), s') \<and>
    claims s' = (claims s)(n \<mapsto> (if expired t c then stamp (now s) c else c))"
proof (cases "expired t c")
  case True
  have "claim_name c = n" by (rule named [OF assms(1)])
  with assms(1) delete_ok [of s c c] obtain s' where
    "p_delete_claim P c s = (None, s')" "claims s' = (claims s)(n := settle (stamp (now s) c))" by auto
  moreover have "settle (stamp (now s) c) = Some (stamp (now s) c)"
    by (rule settle_guarded) (simp add: assms(2))
  ultimately show ?thesis using True by (simp add: reclaim_def expired_Since)
next
  case False
  with assms(1) show ?thesis by (auto simp: reclaim_def expired_Since)
qed

lemma observe_spec:
  assumes "claims s n = Some c"
  shows "\<exists>s'. observe P pool c s = (Inr (requeue_after (5 * Minute)), s') \<and>
    claims s' = (claims s)(n \<mapsto> published (p_set_condition P) pool c)"
proof -
  have n: "claim_name c = n" by (rule named [OF assms])
  let ?c = "published (p_set_condition P) pool c"
  have upd: "\<exists>s'. p_update_claim_status P ?c s = (None, s') \<and>
      claims s' = (claims s)(n \<mapsto> c\<lparr>claim_status := claim_status ?c\<rparr>)"
    using status_ok [of s ?c c] assms n by simp
  have "?c = c\<lparr>claim_status := claim_status ?c\<rparr>" by (simp add: published_def Let_def)
  with upd assms n published_same [of pool c "p_set_condition P"] show ?thesis
    by (auto simp: observe_eq)
qed

lemma Reconcile_claim_spec:
  assumes "claims s n = Some c"
  shows "\<exists>s'. Reconcile_ENIClaim P t n s =
      (next_result t (p_get_pool P s (claim_pool c)) (machine_of s c) c, s') \<and>
    claims s' = (claims s)(n := next_claim (p_set_condition P) t (now s)
      (p_get_pool P s (claim_pool c)) (machine_of s c) c)"
proof -
  have get: "p_get_claim P s n = Inr c" using assms by (simp add: get_claims)
  show ?thesis
  proof (cases "releasing c")
    case True
    obtain s' where "removeFinalizer P c s = (None, s')" "claims s' = (claims s)(n := unguarded c)"
      using removeFinalizer_spec [OF assms] by blast
    with get True assms show ?thesis
      by (auto simp: Reconcile_ENIClaim_def releasing_def next_claim_def next_result_def split: sum.split)
  next
    case False
    obtain u where u: "ensure_finalizer P c s = (Inr (guarded c), u)" "claims u = (claims s)(n \<mapsto> guarded c)"
      "p_get_awsmachine P u = p_get_awsmachine P s" "now u = now s"
      using ensure_finalizer_spec [OF assms False] by blast
    have stored: "claims u n = Some (guarded c)" by (simp add: u)
    have "claim_finalizers (guarded c) \<noteq> []" by (metis guarded_simps(6) empty_iff empty_set)
    from reclaim_spec [OF stored this, of t] observe_spec [OF stored]
    show ?thesis using get False assms u
      by (auto simp: Reconcile_ENIClaim_def releasing_def next_claim_def next_result_def split: sum.split)
  qed
qed

lemma Reconcile_claim_settled:
  assumes "claims s n = Some c" "\<not> releasing c" "p_get_pool P s (claim_pool c) = Inr pool"
    "machine_of s c = Inr m" "ClaimFinalizer \<in> set (claim_finalizers c)" "up_to_date pool c"
  shows "Reconcile_ENIClaim P t n s = (Inr (requeue_after (5 * Minute)), s)"
  using assms by (simp add: Reconcile_ENIClaim_def get_claims releasing_def ensure_finalizer_def observe_eq)

text \<open>Nothing in a call changes what the machine and pool reads and the clock return.\<close>

definition same_reads :: "'s \<Rightarrow> 's \<Rightarrow> bool" where
  "same_reads s s' \<longleftrightarrow> p_get_awsmachine P s' = p_get_awsmachine P s \<and> p_get_pool P s' = p_get_pool P s \<and>
     now s' = now s"

lemma same_reads_refl [simp]: "same_reads s s"
  by (simp add: same_reads_def)

lemma same_reads_trans: "same_reads s t \<Longrightarrow> same_reads t u \<Longrightarrow> same_reads s u"
  by (simp add: same_reads_def)

lemma api_reads:
  "p_patch_claim P b c s = (r1, s1) \<Longrightarrow> same_reads s s1"
  "p_delete_claim P c s = (r2, s2) \<Longrightarrow> same_reads s s2"
  "p_update_claim_status P c s = (r3, s3) \<Longrightarrow> same_reads s s3"
  using patch_reads [of b c s] delete_reads [of c s] status_reads [of c s]
    patch_now [of b c s] delete_now [of c s] status_now [of c s] by (auto simp: same_reads_def)

lemma step_reads:
  "removeFinalizer P c s = (r1, s1) \<Longrightarrow> same_reads s s1"
  "ensure_finalizer P c s = (r2, s2) \<Longrightarrow> same_reads s s2"
  "reclaim P t c s = (r3, s3) \<Longrightarrow> same_reads s s3"
  "observe P pool c s = (r4, s4) \<Longrightarrow> same_reads s s4"
  by (auto simp: removeFinalizer_def ensure_finalizer_def reclaim_def observe_eq dest: api_reads
      split: if_splits prod.splits sum.splits option.splits)

lemma Reconcile_claim_reads: "Reconcile_ENIClaim P t n s = (r, s') \<Longrightarrow> same_reads s s'"
  by (auto simp: Reconcile_ENIClaim_def dest: step_reads intro: same_reads_trans
      split: if_splits prod.splits sum.splits)

lemma Reconcile_claim_missing: "claims s n = None \<Longrightarrow> Reconcile_ENIClaim P t n s = (Inr no_requeue, s)"
  by (simp add: Reconcile_ENIClaim_def get_claims IgnoreNotFound_def)

end

lemma releasing_simps [simp]: "releasing (published setc p c) = releasing c" "releasing (stamp t c)"
  "releasing (with_finalizers fs c) = releasing c"
  by (simp_all add: releasing_def del: not_None_eq)

lemma up_to_date_published: "up_to_date pool (published setc pool c)"
  by (auto simp: up_to_date_def published_def observed_phase_def Let_def)

lemma settle_releasing: "settle c = (if releasing c \<and> claim_finalizers c = [] then None else Some c)"
  by (simp add: settle_def releasing_def)

lemma kept_creation [simp]:
  "m_creationTimestamp (claim_meta (published setc p c)) = m_creationTimestamp (claim_meta c)"
  by simp

context claim_api
begin

text \<open>A claim that is not being deleted stays while its machine exists or the claim is young.\<close>

lemma Reconcile_claim_keeps:
  assumes "claims s n = Some c" "\<not> releasing c" "machine_of s c \<noteq> Inl NotFound \<or> \<not> expired t c"
    and "Reconcile_ENIClaim P t n s = (r, s')"
  shows "\<exists>c'. claims s' n = Some c' \<and> claim_spec c' = claim_spec c \<and> \<not> releasing c' \<and>
    m_creationTimestamp (claim_meta c') = m_creationTimestamp (claim_meta c)"
proof -
  from Reconcile_claim_spec [OF assms(1), of t] assms(4)
  have "claims s' n = next_claim (p_set_condition P) t (now s) (p_get_pool P s (claim_pool c)) (machine_of s c) c"
    by auto
  with assms(2,3) show ?thesis by (auto simp: next_claim_def split: sum.split)
qed

lemma Reconcile_claim_others:
  assumes "Reconcile_ENIClaim P t n s = (r, s')" "k \<noteq> n"
  shows "claims s' k = claims s k"
proof (cases "claims s n")
  case None
  with assms(1) show ?thesis by (simp add: Reconcile_claim_missing)
next
  case (Some c)
  from Reconcile_claim_spec [OF Some, of t] assms show ?thesis by auto
qed

lemma next_claim_spec: "next_claim setc t u p m c = Some c' \<Longrightarrow> claim_spec c' = claim_spec c"
  by (auto simp: next_claim_def unguarded_def settle_releasing split: if_splits sum.splits)

lemma Reconcile_claim_stored:
  assumes "Reconcile_ENIClaim P t n s = (r, s')" "claims s' k = Some c'"
  shows "\<exists>c. claims s k = Some c \<and> claim_spec c' = claim_spec c"
proof (cases "claims s n")
  case None
  with assms show ?thesis by (simp add: Reconcile_claim_missing)
next
  case (Some c)
  from Reconcile_claim_spec [OF Some, of t] assms Some show ?thesis
    by (auto dest: next_claim_spec split: if_splits)
qed

end

section \<open>Properties\<close>

text \<open>The example world with the claim of the machine \<^verbatim>\<open>a\<close>, and the machine or not.\<close>

definition ex_claim :: ENIClaim where
  "ex_claim = new_claim (ex_ref ''a'') ''pool-a'' core_ref"

definition claim_world :: "AWSMachine list \<Rightarrow> ENIClaim list \<Rightarrow> world" where
  "claim_world ms cs = ex_world\<lparr>w_awsmachines := ms, w_claims := cs\<rparr>"

lemma claim_world_reads:
  "srv_get_pool (claim_world ms cs) ''pool-a'' = Inr ex_pool"
  "srv_claims (claim_world ms [ex_claim]) ''eni-0123'' = Some ex_claim"
  "srv_get_awsmachine (claim_world [] cs) ns n = Inl NotFound"
  "srv_get_awsmachine (claim_world [ex_machine ''a''] cs) ''workload'' ''a'' = Inr (ex_machine ''a'')"
  by (simp_all add: srv_get_pool_def srv_claims_def srv_get_awsmachine_def srv_machines_def claim_world_def
      ex_claim_def ex_defs meta_key_def)

lemma ex_claim_simps: "claim_pool ex_claim = ''pool-a''" "claim_machine ex_claim = ex_ref ''a''"
  "claim_eni ex_claim = ''eni-0123''" "claim_finalizers ex_claim = [ClaimFinalizer]" "\<not> releasing ex_claim"
  "m_creationTimestamp (claim_meta ex_claim) = 0" "guarded ex_claim = ex_claim"
  "nref_namespace (ex_ref ''a'') = ''workload''" "nref_name (ex_ref ''a'') = ''a''"
  by (simp_all add: ex_claim_def releasing_def guarded_def ex_ref_def core_ref_def) (simp_all add: new_claim_def)

text \<open>
  C4: A reconciliation of a stored claim computes exactly the specified result and the specified next
  version of the claim from the pool and the machine the claim refers to, and leaves every other claim
  as it is: add the finalizer, publish the binding, stamp an expired orphan, drop the finalizer of a
  deleted claim, or report the error of a read.
\<close>
theorem reconcile_claim_refines:
  assumes "claim_api P claims now" and "claims s n = Some c"
    and "pool = p_get_pool P s (claim_pool c)"
    and "machine = p_get_awsmachine P s (nref_namespace (claim_machine c)) (nref_name (claim_machine c))"
  shows "\<exists>s'. Reconcile_ENIClaim P t n s = (next_result t pool machine c, s') \<and>
    claims s' = (claims s)(n := next_claim (p_set_condition P) t (now s) pool machine c)"
  using claim_api.Reconcile_claim_spec [OF assms(1,2)] assms(3,4) by simp

theorem reconcile_claim_refines_witness:
  "\<exists>s'. Reconcile_ENIClaim srv_ports 0 ''eni-0123'' (claim_world [] [ex_claim]) = (Inr (requeue_after (5 * Second)), s') \<and>
     srv_claims s' = srv_claims (claim_world [] [ex_claim])"
proof -
  have "\<not> expired 0 ex_claim" by (simp add: expired_def ex_claim_simps Second_def)
  then have "next_result 0 (Inr ex_pool) (Inl NotFound) ex_claim = Inr (requeue_after (5 * Second))"
    "next_claim setc 0 u (Inr ex_pool) (Inl NotFound) ex_claim = Some ex_claim" for setc u
    by (simp_all add: next_result_def next_claim_def ex_claim_simps)
  with reconcile_claim_refines [OF srv_claim_api.claim_api_axioms, OF claim_world_reads(2) [of "[]"] refl refl, of 0]
  show ?thesis by (simp add: claim_world_reads ex_claim_simps fun_upd_idem)
qed



text \<open>
  C13: An orphan is reclaimed: if its machine does not exist, its pool can be read and 30 seconds have
  passed, two reconciliations of the claim end with the name free again, unless someone else put a
  finalizer on the claim; then only the controller's own finalizer is gone.
\<close>
theorem reconcile_claim_reclaims_orphan:
  assumes "claim_api P claims now" and "claims s n = Some c" and "\<not> releasing c"
    and "p_get_awsmachine P s (nref_namespace (claim_machine c)) (nref_name (claim_machine c)) = Inl NotFound"
    and "p_get_pool P s (claim_pool c) = Inr pool" and "30 * Second \<le> t - m_creationTimestamp (claim_meta c)"
    and "Reconcile_ENIClaim P t n s = (r1, s1)" and "Reconcile_ENIClaim P t' n s1 = (r2, s2)"
  shows "case filter (\<lambda>f. f \<noteq> ClaimFinalizer) (claim_finalizers c) of
      [] \<Rightarrow> claims s2 n = None
    | fs \<Rightarrow> \<exists>c'. claims s2 n = Some c' \<and> releasing c' \<and> claim_finalizers c' = fs"
proof -
  from claim_api.Reconcile_claim_spec [OF assms(1,2), of t] assms(3-7)
  have one: "claims s1 n = Some (stamp (now s) (guarded c))"
    by (simp add: next_claim_def expired_def)
  have pool: "p_get_pool P s1 (claim_pool c) = Inr pool"
    using claim_api.Reconcile_claim_reads [OF assms(1,7)] assms(1,5) by (simp add: claim_api.same_reads_def)
  have rel: "releasing (stamp (now s) (guarded c))" by simp
  from claim_api.Reconcile_claim_spec [OF assms(1) one, of t'] assms(8) pool rel
  have "claims s2 n = unguarded (stamp (now s) (guarded c))"
    by (auto simp: next_claim_def)
  moreover have "filter (\<lambda>f. f \<noteq> ClaimFinalizer) (claim_finalizers (guarded c)) =
      filter (\<lambda>f. f \<noteq> ClaimFinalizer) (claim_finalizers c)" by (simp add: guarded_def)
  ultimately show ?thesis using rel
    by (auto simp: unguarded_def settle_releasing split: list.split)
qed

theorem reconcile_claim_reclaims_orphan_witness:
  "\<exists>s1 s2. snd (Reconcile_ENIClaim srv_ports Minute ''eni-0123'' (claim_world [] [ex_claim])) = s1 \<and>
     snd (Reconcile_ENIClaim srv_ports Minute ''eni-0123'' s1) = s2 \<and> srv_claims s2 ''eni-0123'' = None"
proof -
  obtain r1 s1 where one: "Reconcile_ENIClaim srv_ports Minute ''eni-0123'' (claim_world [] [ex_claim]) = (r1, s1)"
    by (rule prod.exhaust)
  obtain r2 s2 where two: "Reconcile_ENIClaim srv_ports Minute ''eni-0123'' s1 = (r2, s2)"
    by (rule prod.exhaust)
  have old: "30 * Second \<le> Minute - m_creationTimestamp (claim_meta ex_claim)"
    by (simp add: ex_claim_simps Second_def Minute_def)
  from reconcile_claim_reclaims_orphan [OF srv_claim_api.claim_api_axioms, OF claim_world_reads(2) ex_claim_simps(5) _ _ old one two, of ex_pool]
  have "srv_claims s2 ''eni-0123'' = None" by (simp add: ex_claim_simps claim_world_reads)
  with one two show ?thesis by auto
qed

text \<open>
  C36: The claim of an existing machine on an interface of a valid pool becomes Bound, with the address
  the pool declares for that interface and a true Ready condition, is guarded by the finalizer, and is
  looked at again in 5 minutes.
\<close>
theorem reconcile_claim_binds:
  assumes "claim_api P claims now" and "claims s n = Some c" and "\<not> releasing c"
    and "p_get_awsmachine P s (nref_namespace (claim_machine c)) (nref_name (claim_machine c)) = Inr m"
    and "p_get_pool P s (claim_pool c) = Inr pool" and "interfaces_ok (pool_interfaces pool)"
    and "x \<in> set (pool_interfaces pool)" "ref_id x = claim_eni c"
  shows "\<exists>s' c'. Reconcile_ENIClaim P t n s = (Inr (requeue_after (5 * Minute)), s') \<and> claims s' = (claims s)(n \<mapsto> c') \<and>
    claim_spec c' = claim_spec c \<and> ClaimFinalizer \<in> set (claim_finalizers c') \<and>
    cst_phase (claim_status c') = ENIClaimPhaseBound \<and> cst_privateIP (claim_status c') = ref_privateIP x \<and>
    (cst_conditions (claim_status c') = cst_conditions (claim_status c) \<or>
     cst_conditions (claim_status c') = p_set_condition P (cst_conditions (claim_status c))
       \<lparr>cond_Type = ''Ready'', cond_Status = ConditionTrue, cond_Reason = ENIClaimPhaseBound, cond_Message = '''',
        cond_ObservedGeneration = m_generation (claim_meta c)\<rparr>)"
proof -
  let ?c = "published (p_set_condition P) pool (guarded c)"
  have ip: "configuredPrivateIP pool (claim_eni c) = ref_privateIP x"
    using assms(6-8) configured_ip_member [of "pool_interfaces pool" x]
    by (simp add: configuredPrivateIP_def interfaces_ok_def)
  moreover have "ref_privateIP x \<noteq> ''''"
    using assms(6,7) by (auto simp: interfaces_ok_def list_all_iff dest: has_ipv4_nonempty)
  moreover have "m_generation (claim_meta (guarded c)) = m_generation (claim_meta c)"
    by (simp add: guarded_def with_finalizers_def)
  ultimately have "cst_phase (claim_status ?c) = ENIClaimPhaseBound \<and> cst_privateIP (claim_status ?c) = ref_privateIP x \<and>
    (cst_conditions (claim_status ?c) = cst_conditions (claim_status c) \<or>
     cst_conditions (claim_status ?c) = p_set_condition P (cst_conditions (claim_status c))
       \<lparr>cond_Type = ''Ready'', cond_Status = ConditionTrue, cond_Reason = ENIClaimPhaseBound, cond_Message = '''',
        cond_ObservedGeneration = m_generation (claim_meta c)\<rparr>)"
    by (auto simp: published_def Let_def)
  moreover obtain s' where "Reconcile_ENIClaim P t n s = (Inr (requeue_after (5 * Minute)), s')"
      "claims s' = (claims s)(n \<mapsto> ?c)"
    using claim_api.Reconcile_claim_spec [OF assms(1,2), of t] assms(3-5)
    by (auto simp: next_claim_def next_result_def)
  ultimately show ?thesis by (intro exI [of _ s'] exI [of _ ?c]) simp
qed

theorem reconcile_claim_binds_witness:
  "\<exists>s' c'. Reconcile_ENIClaim srv_ports 0 ''eni-0123'' (claim_world [ex_machine ''a''] [ex_claim]) =
       (Inr (requeue_after (5 * Minute)), s') \<and> srv_claims s' ''eni-0123'' = Some c' \<and>
     cst_phase (claim_status c') = ENIClaimPhaseBound \<and> cst_privateIP (claim_status c') = ''10.0.0.10''"
proof -
  let ?s = "claim_world [ex_machine ''a''] [ex_claim]"
  have machine: "p_get_awsmachine srv_ports ?s (nref_namespace (claim_machine ex_claim)) (nref_name (claim_machine ex_claim)) =
      Inr (ex_machine ''a'')"
    by (simp add: claim_world_reads ex_claim_simps)
  have pool: "p_get_pool srv_ports ?s (claim_pool ex_claim) = Inr ex_pool"
    by (simp add: claim_world_reads ex_claim_simps)
  have core: "core_ref \<in> set (pool_interfaces ex_pool)" "ref_id core_ref = claim_eni ex_claim"
    "ref_privateIP core_ref = ''10.0.0.10''"
    by (simp_all add: ex_defs ex_claim_def)
  from reconcile_claim_binds [OF srv_claim_api.claim_api_axioms, OF claim_world_reads(2) ex_claim_simps(5) machine pool ex_pool_ok core(1,2), of 0]
  show ?thesis using core(3) by auto
qed

text \<open>
  Reconciling the claim of an existing machine is idempotent: after one call the next one, at any
  later time, makes no write at all.
\<close>
theorem reconcile_claim_idempotent:
  assumes "claim_api P claims now" and "claims s n = Some c" and "\<not> releasing c"
    and "p_get_awsmachine P s (nref_namespace (claim_machine c)) (nref_name (claim_machine c)) = Inr m"
    and "p_get_pool P s (claim_pool c) = Inr pool" and "Reconcile_ENIClaim P t n s = (r, s')"
  shows "Reconcile_ENIClaim P t' n s' = (Inr (requeue_after (5 * Minute)), s')"
proof -
  let ?c = "published (p_set_condition P) pool (guarded c)"
  from claim_api.Reconcile_claim_spec [OF assms(1,2), of t] assms(3-6) have "claims s' n = Some ?c"
    by (auto simp: next_claim_def)
  moreover have "p_get_pool P s' = p_get_pool P s" "p_get_awsmachine P s' = p_get_awsmachine P s"
    using claim_api.Reconcile_claim_reads [OF assms(1,6)] assms(1) by (simp_all add: claim_api.same_reads_def)
  ultimately show ?thesis
    using claim_api.Reconcile_claim_settled [OF assms(1), of s' n ?c pool m t'] assms(3-5)
    by (simp add: up_to_date_published)
qed

theorem reconcile_claim_idempotent_witness:
  "\<exists>s'. snd (Reconcile_ENIClaim srv_ports 0 ''eni-0123'' (claim_world [ex_machine ''a''] [ex_claim])) = s' \<and>
     Reconcile_ENIClaim srv_ports Minute ''eni-0123'' s' = (Inr (requeue_after (5 * Minute)), s')"
proof -
  let ?s = "claim_world [ex_machine ''a''] [ex_claim]"
  have machine: "p_get_awsmachine srv_ports ?s (nref_namespace (claim_machine ex_claim)) (nref_name (claim_machine ex_claim)) =
      Inr (ex_machine ''a'')"
    by (simp add: claim_world_reads ex_claim_simps)
  have pool: "p_get_pool srv_ports ?s (claim_pool ex_claim) = Inr ex_pool"
    by (simp add: claim_world_reads ex_claim_simps)
  obtain r s' where run: "Reconcile_ENIClaim srv_ports 0 ''eni-0123'' ?s = (r, s')"
    by (rule prod.exhaust)
  from reconcile_claim_idempotent [OF srv_claim_api.claim_api_axioms, OF claim_world_reads(2) ex_claim_simps(5) machine pool run, of Minute] run
  show ?thesis by auto
qed

text \<open>
  The finalizer does not wait for the machine: a claim that is being deleted loses its finalizer in
  the next reconciliation whether its machine exists or not, and its ENI is free for another machine.
  (The design promises to keep the claim until the machine is gone.)
\<close>
theorem reconcile_claim_release_ignores_machine:
  assumes "claim_api P claims now" and "claims s n = Some c" and "releasing c"
    and "claim_finalizers c = [ClaimFinalizer]"
    and "p_get_pool P s (claim_pool c) = Inr pool \<or> p_get_pool P s (claim_pool c) = Inl NotFound"
  shows "\<exists>s'. Reconcile_ENIClaim P t n s = (Inr no_requeue, s') \<and> claims s' = (claims s)(n := None)"
proof -
  have "unguarded c = None" using assms(3,4) by (simp add: unguarded_def settle_releasing)
  with claim_api.Reconcile_claim_spec [OF assms(1,2), of t] assms(3,5) show ?thesis
    by (auto simp: next_claim_def next_result_def)
qed

theorem reconcile_claim_release_ignores_machine_witness:
  "\<exists>s'. srv_get_awsmachine (claim_world [ex_machine ''a''] [stamp 7 ex_claim]) ''workload'' ''a'' = Inr (ex_machine ''a'') \<and>
     Reconcile_ENIClaim srv_ports 8 ''eni-0123'' (claim_world [ex_machine ''a''] [stamp 7 ex_claim]) = (Inr no_requeue, s') \<and>
     srv_claims s' ''eni-0123'' = None"
proof -
  let ?s = "claim_world [ex_machine ''a''] [stamp 7 ex_claim]"
  have c: "srv_claims ?s ''eni-0123'' = Some (stamp 7 ex_claim)" "claim_finalizers (stamp 7 ex_claim) = [ClaimFinalizer]"
    "p_get_pool srv_ports ?s (claim_pool (stamp 7 ex_claim)) = Inr ex_pool"
    by (simp_all add: claim_world_reads ex_claim_simps)
      (simp add: srv_claims_def claim_world_def ex_claim_def core_ref_def)
  from reconcile_claim_release_ignores_machine [OF srv_claim_api.claim_api_axioms, OF c(1) releasing_simps(2) c(2) disjI1 [OF c(3)], of 8]
  show ?thesis by (auto simp: claim_world_reads)
qed



end
