(* ===== verification/ENIPool_Controller.thy ===== *)
theory ENIPool_Controller
  imports Example_World
begin

text \<open>
  The ENIPool reconciler (\<^verbatim>\<open>internal/controller/enipool_controller.go\<close>) and the metric it sets
  (\<^verbatim>\<open>internal/metrics/metrics.go\<close>): it publishes, for each interface of a pool, whether a claim holds it.
  \<open>Reconcile_ENIPool\<close> is the handler.
\<close>

section \<open>The handler\<close>

text \<open>\<^verbatim>\<open>claimByENI\<close>: later claims of the list replace earlier ones.\<close>

fun claimByENI :: "(string \<rightharpoonup> ENIClaim) \<Rightarrow> ENIClaim list \<Rightarrow> string \<rightharpoonup> ENIClaim" where
  "claimByENI m [] = m"
| "claimByENI m (claim # rest) = claimByENI (m(claim_eni claim \<mapsto> claim)) rest"

text \<open>The loop over the configured interfaces, with its two variables \<^verbatim>\<open>observed\<close> and \<^verbatim>\<open>available\<close>.\<close>

fun observe_interfaces :: "(string \<rightharpoonup> ENIClaim) \<Rightarrow> ENIReference list \<Rightarrow> ENIObservation list \<Rightarrow> nat \<Rightarrow>
    ENIObservation list \<times> nat" where
  "observe_interfaces m [] observed available = (observed, available)"
| "observe_interfaces m (configured # rest) observed available =
     (let item = \<lparr>obs_key = ref_key configured, obs_id = ref_id configured, obs_availabilityZone = '''',
        obs_subnetID = '''', obs_privateIP = ref_privateIP configured, obs_state = '''', obs_claimRef = None,
        obs_message = ''''\<rparr>
      in case m (ref_id configured) of
           Some claim \<Rightarrow> observe_interfaces m rest
             (observed @ [item\<lparr>obs_state := ENIStateClaimed, obs_claimRef := Some (claim_machine claim)\<rparr>]) available
         | None \<Rightarrow> observe_interfaces m rest (observed @ [item\<lparr>obs_state := ENIStateAvailable\<rparr>]) (available + 1))"

definition setCondition :: "'s ports \<Rightarrow> Condition list \<Rightarrow> Condition \<Rightarrow> Condition list" where
  "setCondition P conditions condition = p_set_condition P conditions condition"

definition Reconcile_ENIPool :: "'s ports \<Rightarrow> string \<Rightarrow> 's \<Rightarrow> (error + Result) \<times> 's" where
  "Reconcile_ENIPool P n s = (case p_get_pool P s n of
     Inl e \<Rightarrow> (IgnoreNotFound e, s)
   | Inr pool \<Rightarrow> (case p_list_claims P s of
       Inl e \<Rightarrow> (Inl (ApiError e), s)
     | Inr items \<Rightarrow>
         let (observed, available) = observe_interfaces (claimByENI Map.empty items) (pool_interfaces pool) [] 0;
             generation = m_generation (pool_meta pool);
             status1 = (pool_status pool)\<lparr>pst_observedGeneration := generation, pst_interfaces := observed\<rparr>;
             s1 = p_set_available P (pool_name pool) (pool_region pool) (pool_vpcID pool) available s;
             status2 = status1\<lparr>pst_conditions := setCondition P (pst_conditions status1)
               \<lparr>cond_Type = ''Ready'', cond_Status = ConditionTrue, cond_Reason = ''DeclaredInventoryReady'',
                cond_Message = ''ENI inventory reflects the declared pool and active claims'',
                cond_ObservedGeneration = generation\<rparr>\<rparr>
         in case p_update_pool_status P (pool\<lparr>pool_status := status2\<rparr>) s1 of
              (Some e, s2) \<Rightarrow>
                if e \<noteq> Conflict then (Inl (ApiError e), s2) else (Inr (requeue_after (5 * Minute)), s2)
            | (None, s2) \<Rightarrow> (Inr (requeue_after (5 * Minute)), s2)))"

section \<open>The loops\<close>

lemma claimByENI_eq: "claimByENI m cs i = (case find (\<lambda>c. claim_eni c = i) (rev cs) of None \<Rightarrow> m i | Some c \<Rightarrow> Some c)"
proof (induction cs arbitrary: m)
  case (Cons c cs)
  have "find p (xs @ [c]) = (case find p xs of None \<Rightarrow> if p c then Some c else None | Some d \<Rightarrow> Some d)" for p xs
    by (induction xs) auto
  with Cons show ?case by (auto split: option.split)
qed simp

lemma claimByENI_Some: "claimByENI Map.empty cs i = Some c \<Longrightarrow> c \<in> set cs \<and> claim_eni c = i"
  by (auto simp: claimByENI_eq split: option.splits dest: find_Some_in)

lemma claimByENI_None: "claimByENI Map.empty cs i = None \<longleftrightarrow> i \<notin> claim_eni ` set cs"
  by (force simp: claimByENI_eq find_None_iff split: option.splits dest: find_Some_in)

text \<open>One interface, and the inventory as the pool and the claims determine it.\<close>

definition observation :: "(string \<rightharpoonup> ENIClaim) \<Rightarrow> ENIReference \<Rightarrow> ENIObservation" where
  "observation cs r = \<lparr>obs_key = ref_key r, obs_id = ref_id r, obs_availabilityZone = '''', obs_subnetID = '''',
     obs_privateIP = ref_privateIP r,
     obs_state = (if cs (ref_id r) = None then ENIStateAvailable else ENIStateClaimed),
     obs_claimRef = map_option claim_machine (cs (ref_id r)), obs_message = ''''\<rparr>"

lemma observe_interfaces_eq: "observe_interfaces cs rs obs n =
    (obs @ map (observation cs) rs, n + length (filter (\<lambda>r. cs (ref_id r) = None) rs))"
  by (induction rs arbitrary: obs n) (auto simp: observation_def Let_def split: option.split)

definition inventory :: "'s ports \<Rightarrow> (string \<rightharpoonup> ENIClaim) \<Rightarrow> ENIPool \<Rightarrow> ENIPoolStatus" where
  "inventory P cs pool = \<lparr>pst_observedGeneration = m_generation (pool_meta pool),
     pst_interfaces = map (observation cs) (pool_interfaces pool),
     pst_conditions = p_set_condition P (pst_conditions (pool_status pool))
       \<lparr>cond_Type = ''Ready'', cond_Status = ConditionTrue, cond_Reason = ''DeclaredInventoryReady'',
        cond_Message = ''ENI inventory reflects the declared pool and active claims'',
        cond_ObservedGeneration = m_generation (pool_meta pool)\<rparr>\<rparr>"

definition available_count :: "(string \<rightharpoonup> ENIClaim) \<Rightarrow> ENIPool \<Rightarrow> nat" where
  "available_count cs pool = length (filter (\<lambda>r. cs (ref_id r) = None) (pool_interfaces pool))"

lemma pool_status_update_all: "(st :: ENIPoolStatus)\<lparr>pst_observedGeneration := g, pst_interfaces := i\<rparr>\<lparr>pst_conditions := c\<rparr> =
    \<lparr>pst_observedGeneration = g, pst_interfaces = i, pst_conditions = c\<rparr>"
  by simp

lemma Reconcile_ENIPool_eq:
  assumes "p_get_pool P s n = Inr pool" "p_list_claims P s = Inr items"
  shows "Reconcile_ENIPool P n s =
    (case p_update_pool_status P (pool\<lparr>pool_status := inventory P (claimByENI Map.empty items) pool\<rparr>)
        (p_set_available P (pool_name pool) (pool_region pool) (pool_vpcID pool)
           (available_count (claimByENI Map.empty items) pool) s) of
       (Some e, s2) \<Rightarrow> if e \<noteq> Conflict then (Inl (ApiError e), s2) else (Inr (requeue_after (5 * Minute)), s2)
     | (None, s2) \<Rightarrow> (Inr (requeue_after (5 * Minute)), s2))"
  by (simp add: Reconcile_ENIPool_def assms observe_interfaces_eq Let_def setCondition_def inventory_def
      available_count_def pool_status_update_all)

lemma claimByENI_claims:
  assumes "claims_named cs" "set items = ran cs"
  shows "claimByENI Map.empty items = cs"
proof
  fix i
  show "claimByENI Map.empty items i = cs i"
  proof (cases "claimByENI Map.empty items i")
    case None
    then have "i \<notin> claim_eni ` ran cs" by (simp add: claimByENI_None assms(2))
    moreover have "i \<in> claim_eni ` ran cs" if "cs i = Some c" for c
      using that assms(1) by (intro image_eqI [of _ _ c]) (auto simp: claims_named_def ran_def)
    ultimately show ?thesis using None by (cases "cs i") auto
  next
    case (Some c)
    from claimByENI_Some [OF Some] assms show ?thesis by (auto simp: Some claims_named_def ran_def)
  qed
qed

context pool_api
begin

abbreviation inventoried :: "'s \<Rightarrow> ENIPool \<Rightarrow> ENIPool" where
  "inventoried s pool \<equiv> pool\<lparr>pool_status := inventory P (claims s) pool\<rparr>"

lemma Reconcile_pool_outcome:
  assumes "pools s n = Some pool" "p_list_claims P s = Inr items" "claims_named (claims s)"
    and "Reconcile_ENIPool P n s = (r, s')"
  shows "claims s' = claims s \<and>
    (r = Inr (requeue_after (5 * Minute)) \<and> pools s' = (pools s)(n \<mapsto> inventoried s pool) \<or>
     pools s' = pools s \<and> (r = Inr (requeue_after (5 * Minute)) \<or> (\<exists>e. e \<noteq> Conflict \<and> r = Inl (ApiError e))))"
proof -
  let ?t = "p_set_available P (pool_name pool) (pool_region pool) (pool_vpcID pool)
      (available_count (claims s) pool) s"
  have name: "pool_name pool = n" by (rule pool_named [OF assms(1)])
  have get: "p_get_pool P s n = Inr pool" using assms(1) by (simp add: get_pools)
  have map: "claimByENI Map.empty items = claims s"
    by (rule claimByENI_claims [OF assms(3) claims_listed [OF assms(2)]])
  obtain e u where u: "p_update_pool_status P (inventoried s pool) ?t = (e, u)" by force
  have t: "claims ?t = claims s" "pools ?t = pools s" by (simp_all add: gauge_frame)
  have "claims u = claims s" using pool_status_frame [of "inventoried s pool" ?t] u t by simp
  moreover have "(r, s') = (case (e, u) of
       (Some e, s2) \<Rightarrow> if e \<noteq> Conflict then (Inl (ApiError e), s2) else (Inr (requeue_after (5 * Minute)), s2)
     | (None, s2) \<Rightarrow> (Inr (requeue_after (5 * Minute)), s2))"
    using assms(4) Reconcile_ENIPool_eq [OF get assms(2)] u by (simp add: map)
  ultimately show ?thesis
    using pool_status_done [of "inventoried s pool" ?t u] pool_status_failed [of "inventoried s pool" ?t _ u] u t name assms(1)
    by (cases e) (auto split: if_splits)
qed

end

lemma inventory_twice:
  assumes "condition_setter (p_set_condition P)"
  shows "inventory P cs (pool\<lparr>pool_status := inventory P cs pool\<rparr>) = inventory P cs pool"
  by (simp add: inventory_def condition_setter.set_twice [OF assms])

section \<open>Properties\<close>


text \<open>The example world with one ENI claimed.\<close>

definition half_world :: world where
  "half_world = ex_world\<lparr>w_claims := [new_claim (ex_ref ''a'') ''pool-a'' core_ref]\<rparr>"

lemma half_world_claims: "srv_claims half_world = [''eni-0123'' \<mapsto> new_claim (ex_ref ''a'') ''pool-a'' core_ref]"
  by (simp add: srv_claims_def half_world_def core_ref_def fun_eq_iff)

lemma half_world_named: "claims_named (srv_claims half_world)"
  by (simp add: half_world_claims claims_named_def core_ref_def)

lemma half_world_pool: "srv_pools half_world ''pool-a'' = Some ex_pool"
  by (simp add: srv_pools_def half_world_def ex_defs)




text \<open>
  Publishing the inventory is idempotent: as long as the claims and the pool's spec stay as they are,
  a second successful reconciliation leaves every pool as the first one did.
\<close>
theorem reconcile_pool_idempotent:
  assumes "pool_api P claims pools" and "condition_setter (p_set_condition P)"
    and "pools s n = Some pool" and "p_list_claims P s = Inr items" "p_list_claims P s' = Inr items'"
    and "claims_named (claims s)" and "Reconcile_ENIPool P n s = (r, s')" "pools s' \<noteq> pools s"
    and "Reconcile_ENIPool P n s' = (r', s'')"
  shows "pools s'' = pools s'"
proof -
  let ?p = "pool\<lparr>pool_status := inventory P (claims s) pool\<rparr>"
  from pool_api.Reconcile_pool_outcome [OF assms(1,3,4,6,7)] assms(8)
  have one: "claims s' = claims s" "pools s' = (pools s)(n \<mapsto> ?p)" by auto
  then have "pools s' n = Some ?p" "claims_named (claims s')" using assms(6) by simp_all
  from pool_api.Reconcile_pool_outcome [OF assms(1) this(1) assms(5) this(2) assms(9)] one
  show ?thesis by (auto simp: inventory_twice [OF assms(2)])
qed

theorem reconcile_pool_idempotent_witness:
  "\<exists>s' s''. s' = snd (Reconcile_ENIPool srv_ports ''pool-a'' half_world) \<and>
     s'' = snd (Reconcile_ENIPool srv_ports ''pool-a'' s') \<and> srv_pools s' \<noteq> srv_pools half_world \<and>
     srv_pools s'' = srv_pools s'"
proof -
  let ?run = "Reconcile_ENIPool srv_ports ''pool-a'' half_world"
  obtain r s' where run: "?run = (r, s')" by (rule prod.exhaust)
  obtain r' s'' where run': "Reconcile_ENIPool srv_ports ''pool-a'' s' = (r', s'')" by (rule prod.exhaust)
  have "map_option (\<lambda>p. length (pst_interfaces (pool_status p))) (srv_pools (snd ?run) ''pool-a'') = Some 2"
    by code_simp
  then have "map_option (\<lambda>p. length (pst_interfaces (pool_status p))) (srv_pools s' ''pool-a'') = Some 2"
    unfolding run snd_conv .
  moreover have "pst_interfaces (pool_status ex_pool) = []" by (simp add: ex_pool_def)
  ultimately have changed: "srv_pools s' \<noteq> srv_pools half_world" using half_world_pool by auto
  have setter: "condition_setter (p_set_condition srv_ports)" using srv.condition_setter_axioms by simp
  from reconcile_pool_idempotent [OF srv_pool_api.pool_api_axioms setter, OF half_world_pool srv_ports_simps(5)
      srv_ports_simps(5) half_world_named run changed run'] run run' changed
  show ?thesis by auto
qed

end
