(* ===== verification/Work_Queue.thy ===== *)
theory Work_Queue
  imports AWSMachine_Controller ENIClaim_Controller ENIPool_Controller
begin

text \<open>
  The work queues: each controller has the keys it still has to reconcile. A controller watches only
  its own kind (\<^verbatim>\<open>For\<close> in \<^verbatim>\<open>SetupWithManager\<close>), so a change of an object puts its own key into the queue and
  no other; apart from that a key comes back only if its reconciliation asks for it, with an error or
  with \<^verbatim>\<open>RequeueAfter\<close>. The claim of a machine that is deleted, for one, depends on that. This theory
  shows that no key gets lost that still has something to be done.
\<close>

section \<open>Results that come back\<close>

definition again :: "error + Result \<Rightarrow> bool" where
  "again r = (case r of Inl _ \<Rightarrow> True | Inr res \<Rightarrow> RequeueAfter res > 0)"

lemma again_simps [simp]: "again (Inl e)" "again (Inr (requeue_after d)) \<longleftrightarrow> 0 < d" "\<not> again (Inr no_requeue)"
  by (simp_all add: again_def requeue_after_def no_requeue_def)

lemma delays_positive [simp]: "0 < 5 * Second" "0 < 10 * Second" "0 < 30 * Second" "0 < 5 * Minute"
  by (simp_all add: Second_def Minute_def)

text \<open>
  What needs no further call: a machine that is not served or carries the mark of a failed allocation,
  and a claim that is being deleted without the controller's finalizer.
\<close>

definition settled_machine :: "AWSMachine \<Rightarrow> bool" where
  "settled_machine m \<longleftrightarrow> \<not> served m \<or> m = failed m ''PoolExhausted''"

definition settled_claim :: "ENIClaim \<Rightarrow> bool" where
  "settled_claim c \<longleftrightarrow> releasing c \<and> ClaimFinalizer \<notin> set (claim_finalizers c)"

lemma released_changes: "served m \<Longrightarrow> released m is res why \<noteq> m"
  by (metis released_not_served)

context allocator_api
begin

lemma patch_awake:
  assumes "patch_result P m m' s = (r, s')" "machines s (am_key m) = Some m"
  shows "again r \<or> machines s' (am_key m) = Some (merge_awsmachine m m' m)"
proof -
  obtain e t where e: "p_patch_awsmachine P m m' s = (e, t)" by force
  with assms(1) have "t = s'" "r = return_err e" by (simp_all add: patch_result_def)
  with e assms(2) patch_done [of m m' s t] show ?thesis by (cases e) auto
qed

lemma fall_back_awake:
  assumes "dynamicFallback P m why s = (r, s')" "machines s (am_key m) = Some m" "served m" "why \<noteq> ''''"
  shows "again r \<or> machines s' (am_key m) \<noteq> Some m"
proof -
  let ?t = "record_event P \<lparr>ev_type = ''Warning'', ev_reason = ''DynamicFallback'', ev_action = ''ReleaseToCAPA'',
         ev_args = [why]\<rparr> (p_inc_fallbacks P why s)"
  have t: "machines ?t (am_key m) = Some m" using assms(2) by (simp add: event_frame metric_frame)
  have "patch_result P m (released m [] AllocationResultDynamicFallback (Some why)) ?t = (r, s')"
    using assms by (simp add: steps_on_served)
  from patch_awake [OF this t] released_changes [OF assms(3)] show ?thesis by auto
qed

lemma mark_awake:
  assumes "markFailed P m ''PoolExhausted'' s = (r, s')" "machines s (am_key m) = Some m"
  shows "again r \<or> machines s' (am_key m) \<noteq> Some m \<or> m = failed m ''PoolExhausted''"
  using assms patch_awake [of m "failed m ''PoolExhausted''" s r s'] by (auto simp: markFailed_eq)

lemma release_awake:
  assumes "release_allocated P m pool c s = (r, s')" "machines s (am_key m) = Some m" "served m"
  shows "again r \<or> machines s' (am_key m) \<noteq> Some m"
proof (cases r)
  case (Inr res)
  with release_success assms have "machines s' (am_key m) = Some (released m [claim_eni c] AllocationResultAllocated None)" by simp
  then show ?thesis using released_changes [OF assms(3)] by auto
qed simp

lemma machine_awake:
  assumes "machines s (ns, n) = Some m" "Reconcile_AWSMachine P ns n s = (r, s')"
  shows "again r \<or> machines s' (ns, n) \<noteq> Some m \<or> settled_machine m"
proof (cases "served m")
  case True
  have get: "p_get_awsmachine P s ns n = Inr m" using assms(1) by (simp add: get_machines)
  have name: "am_key m = (ns, n)" using machine_named [OF assms(1)] .
  then have key: "machines s (am_key m) = Some m" using assms(1) by simp
  show ?thesis
  proof (cases "\<exists>pool k. rc_target P m s pool k")
    case False
    show ?thesis
    proof (cases "dynamicFallback P m ''NoMatchingPool'' s = (r, s')")
      case True
      from fall_back_awake [OF this key \<open>served m\<close>] show ?thesis unfolding name by blast
    next
      case no_fallback: False
      with False assms(2) [unfolded Reconcile_served [OF get True]] have "again r"
        by (auto simp: rc_target_def split: sum.splits option.splits)
      then show ?thesis ..
    qed
  next
    case target: True
    then obtain pool k where t: "rc_target P m s pool k" by blast
    note run = assms(2) [unfolded Reconcile_at_target [OF get True t]]
    obtain oc t where c: "rc_claimInterface P m pool k s = (oc, t)" by force
    have key': "machines t (am_key m) = Some m" using claimInterface_outcome [OF c] key by simp
    note awake = fall_back_awake [OF _ key' True] mark_awake [OF _ key'] release_awake [OF _ key' True]
    show ?thesis
    proof (cases "\<exists>cl. oc = Inr (Some cl)")
      case True
      then obtain cl where "release_allocated P m pool cl t = (r, s')" using run c by auto
      from awake(3) [OF this] show ?thesis unfolding name by blast
    next
      case False
      with run c have "again r \<or> markFailed P m ''PoolExhausted'' t = (r, s') \<or> dynamicFallback P m ''PoolExhausted'' t = (r, s')"
        by (auto split: sum.splits option.splits if_splits)
      with awake(1) [of "''PoolExhausted''" r s'] awake(2) [of r s'] show ?thesis unfolding name settled_machine_def by blast
    qed
  qed
qed (simp add: settled_machine_def)

end

context claim_api
begin

lemma claim_awake:
  assumes "claims s n = Some c" "Reconcile_ENIClaim P t n s = (r, s')"
  shows "again r \<or> claims s' n \<noteq> Some c \<or> settled_claim c"
proof -
  let ?pool = "p_get_pool P s (claim_pool c)"
  from Reconcile_claim_spec [OF assms(1), of t] assms(2)
  have r: "r = next_result t ?pool (machine_of s c) c"
    "claims s' n = next_claim (p_set_condition P) t (now s) ?pool (machine_of s c) c" by auto
  have unguarded: "unguarded c \<noteq> Some c" if "ClaimFinalizer \<in> set (claim_finalizers c)"
  proof
    assume "unguarded c = Some c"
    with that have "with_finalizers (filter (\<lambda>f. f \<noteq> ClaimFinalizer) (claim_finalizers c)) c = c"
      by (auto simp: unguarded_def settle_releasing split: if_splits)
    then have "claim_finalizers (with_finalizers (filter (\<lambda>f. f \<noteq> ClaimFinalizer) (claim_finalizers c)) c) = claim_finalizers c"
      by (rule arg_cong)
    then have "filter (\<lambda>f. f \<noteq> ClaimFinalizer) (claim_finalizers c) = claim_finalizers c" by simp
    with that show False by (auto simp: filter_id_conv)
  qed
  show ?thesis
  proof (cases "releasing c")
    case True
    show ?thesis
    proof (cases "\<exists>e. ?pool = Inl e \<and> e \<noteq> NotFound")
      case True
      then have "again r" using r(1) by (auto simp: next_result_def)
      then show ?thesis ..
    next
      case False
      then have "claims s' n = unguarded c" using r(2) \<open>releasing c\<close> by (cases ?pool) (simp_all add: next_claim_def)
      with unguarded \<open>releasing c\<close> show ?thesis by (auto simp: settled_claim_def)
    qed
  next
    case False
    have "stamp (now s) (guarded c) \<noteq> c" using False by (metis releasing_simps(2))
    then have "again r \<or> claims s' n = Some (stamp (now s) (guarded c))"
      unfolding r using False by (cases ?pool; cases "machine_of s c") (simp_all add: next_claim_def next_result_def)
    with \<open>stamp (now s) (guarded c) \<noteq> c\<close> show ?thesis by auto
  qed
qed

end

lemma pool_awake:
  assumes "p_get_pool P s n = Inr pool" "Reconcile_ENIPool P n s = (r, s')"
  shows "again r"
proof (cases "p_list_claims P s")
  case (Inl e)
  with assms have "r = Inl (ApiError e)" by (simp add: Reconcile_ENIPool_def)
  then show ?thesis by simp
next
  case (Inr items)
  with assms(2) show ?thesis
    by (auto simp: Reconcile_ENIPool_eq [OF assms(1) Inr] split: prod.splits option.splits if_splits)
qed

section \<open>The queues\<close>

record 's queues =
  qs_state :: 's
  qs_machines :: "(string \<times> string) set"
  qs_claims :: "string set"
  qs_pools :: "string set"

definition changed :: "('k \<rightharpoonup> 'a) \<Rightarrow> ('k \<rightharpoonup> 'a) \<Rightarrow> 'k set" where
  "changed f g = {k. f k \<noteq> g k}"

text \<open>The watches: the keys whose objects are different in the next state.\<close>

definition notify :: "('s \<Rightarrow> string \<rightharpoonup> ENIClaim) \<Rightarrow> ('s \<Rightarrow> string \<times> string \<rightharpoonup> AWSMachine) \<Rightarrow> ('s \<Rightarrow> string \<rightharpoonup> ENIPool) \<Rightarrow>
    's \<Rightarrow> 's queues \<Rightarrow> 's queues" where
  "notify claims machines pools s' q = q\<lparr>qs_state := s',
     qs_machines := qs_machines q \<union> changed (machines (qs_state q)) (machines s'),
     qs_claims := qs_claims q \<union> changed (claims (qs_state q)) (claims s'),
     qs_pools := qs_pools q \<union> changed (pools (qs_state q)) (pools s')\<rparr>"

definition returned :: "'k \<Rightarrow> error + Result \<Rightarrow> 'k set \<Rightarrow> 'k set" where
  "returned k r ks = (ks - {k}) \<union> (if again r then {k} else {})"

text \<open>
  A worker takes a key and runs the handler at the time it is, or the state changes in any other way. The
  label of a step is the key that is worked on.
\<close>

datatype key = MachineKey string string | ClaimKey string | PoolKey string

inductive q_act for P claims machines pools and t :: instant where
  work_machine: "(ns, n) \<in> qs_machines q \<Longrightarrow> Reconcile_AWSMachine P ns n (qs_state q) = (r, s') \<Longrightarrow>
    q_act P claims machines pools t (Some (MachineKey ns n)) q
      (notify claims machines pools s' (q\<lparr>qs_machines := returned (ns, n) r (qs_machines q)\<rparr>))"
| work_claim: "n \<in> qs_claims q \<Longrightarrow> Reconcile_ENIClaim P t n (qs_state q) = (r, s') \<Longrightarrow>
    q_act P claims machines pools t (Some (ClaimKey n)) q
      (notify claims machines pools s' (q\<lparr>qs_claims := returned n r (qs_claims q)\<rparr>))"
| work_pool: "n \<in> qs_pools q \<Longrightarrow> Reconcile_ENIPool P n (qs_state q) = (r, s') \<Longrightarrow>
    q_act P claims machines pools t (Some (PoolKey n)) q
      (notify claims machines pools s' (q\<lparr>qs_pools := returned n r (qs_pools q)\<rparr>))"
| others: "q_act P claims machines pools t None q (notify claims machines pools s' q)"

inductive_cases work_machineE: "q_act P claims machines pools t (Some (MachineKey ns n)) q q'"
inductive_cases work_claimE: "q_act P claims machines pools t (Some (ClaimKey n)) q q'"
inductive_cases work_poolE: "q_act P claims machines pools t (Some (PoolKey n)) q q'"

definition q_step where
  "q_step P claims machines pools q q' \<longleftrightarrow> (\<exists>t a. q_act P claims machines pools t a q q')"

text \<open>When the program starts, its informers list every object.\<close>

definition q_start :: "('s \<Rightarrow> string \<rightharpoonup> ENIClaim) \<Rightarrow> ('s \<Rightarrow> string \<times> string \<rightharpoonup> AWSMachine) \<Rightarrow> ('s \<Rightarrow> string \<rightharpoonup> ENIPool) \<Rightarrow>
    's queues \<Rightarrow> bool" where
  "q_start claims machines pools q \<longleftrightarrow> dom (machines (qs_state q)) \<subseteq> qs_machines q \<and>
     dom (claims (qs_state q)) \<subseteq> qs_claims q \<and> dom (pools (qs_state q)) \<subseteq> qs_pools q"

definition queued :: "('k \<rightharpoonup> 'a) \<Rightarrow> 'k set \<Rightarrow> ('a \<Rightarrow> bool) \<Rightarrow> bool" where
  "queued objs ks settled \<longleftrightarrow> (\<forall>k x. objs k = Some x \<longrightarrow> k \<in> ks \<or> settled x)"

definition no_key_lost :: "('s \<Rightarrow> string \<rightharpoonup> ENIClaim) \<Rightarrow> ('s \<Rightarrow> string \<times> string \<rightharpoonup> AWSMachine) \<Rightarrow> ('s \<Rightarrow> string \<rightharpoonup> ENIPool) \<Rightarrow>
    's queues \<Rightarrow> bool" where
  "no_key_lost claims machines pools q \<longleftrightarrow> queued (machines (qs_state q)) (qs_machines q) settled_machine \<and>
     queued (claims (qs_state q)) (qs_claims q) settled_claim \<and> queued (pools (qs_state q)) (qs_pools q) (\<lambda>_. False)"

lemma notify_simps [simp]:
  "qs_state (notify claims machines pools s' q) = s'"
  "qs_machines (notify claims machines pools s' q) = qs_machines q \<union> changed (machines (qs_state q)) (machines s')"
  "qs_claims (notify claims machines pools s' q) = qs_claims q \<union> changed (claims (qs_state q)) (claims s')"
  "qs_pools (notify claims machines pools s' q) = qs_pools q \<union> changed (pools (qs_state q)) (pools s')"
  by (simp_all add: notify_def)

text \<open>One kind of object: its queue, after a step that took the keys \<open>K\<close> out.\<close>

lemma kept_queued:
  assumes "queued objs ks settled" "ks - K \<subseteq> ks'"
    and "\<And>k x. k \<in> K \<Longrightarrow> objs k = Some x \<Longrightarrow> k \<in> ks' \<or> objs' k \<noteq> Some x \<or> settled x"
  shows "queued objs' (ks' \<union> changed objs objs') settled"
  unfolding queued_def
proof (intro allI impI)
  fix k x
  assume x: "objs' k = Some x"
  show "k \<in> ks' \<union> changed objs objs' \<or> settled x"
  proof (cases "objs k = Some x")
    case True
    with assms(1) have "k \<in> ks \<or> settled x" by (simp add: queued_def)
    with assms(2) assms(3) [of k x] True x show ?thesis by auto
  qed (use x in \<open>auto simp: changed_def\<close>)
qed

lemma untouched_queued: "queued objs ks settled \<Longrightarrow> queued objs' (ks \<union> changed objs objs') settled"
  by (rule kept_queued [where K = "{}"]) auto

lemma worked_queued:
  assumes "queued objs ks settled" "\<And>x. objs k = Some x \<Longrightarrow> again r \<or> objs' k \<noteq> Some x \<or> settled x"
  shows "queued objs' (returned k r ks \<union> changed objs objs') settled"
  by (rule kept_queued [where K = "{k}", OF assms(1)]) (use assms(2) in \<open>auto simp: returned_def\<close>)

lemma no_key_lost_step:
  assumes "allocator_api P claims machines" "claim_api P claims now" "pool_api P claims pools"
    and "q_act P claims machines pools t a q q'" "no_key_lost claims machines pools q"
  shows "no_key_lost claims machines pools q'"
proof -
  have old: "queued (machines (qs_state q)) (qs_machines q) settled_machine" "queued (claims (qs_state q)) (qs_claims q) settled_claim"
    "queued (pools (qs_state q)) (qs_pools q) (\<lambda>_. False)"
    using assms(5) by (simp_all add: no_key_lost_def)
  from assms(4) show ?thesis
  proof cases
    case (work_machine ns n r s')
    have "queued (machines s') (returned (ns, n) r (qs_machines q) \<union> changed (machines (qs_state q)) (machines s')) settled_machine"
      by (intro worked_queued [OF old(1)] allocator_api.machine_awake [OF assms(1) _ work_machine(4)])
    then show ?thesis unfolding no_key_lost_def work_machine(2)
      using untouched_queued [OF old(2)] untouched_queued [OF old(3)] by simp
  next
    case (work_claim n r s')
    have "queued (claims s') (returned n r (qs_claims q) \<union> changed (claims (qs_state q)) (claims s')) settled_claim"
      by (intro worked_queued [OF old(2)] claim_api.claim_awake [OF assms(2) _ work_claim(4)])
    then show ?thesis unfolding no_key_lost_def work_claim(2)
      using untouched_queued [OF old(1)] untouched_queued [OF old(3)] by simp
  next
    case (work_pool n r s')
    have "again r" if "pools (qs_state q) n = Some p" for p
    proof -
      have "p_get_pool P (qs_state q) n = Inr p" using that pool_api.get_pools [OF assms(3)] by simp
      from pool_awake [OF this work_pool(4)] show ?thesis .
    qed
    then have "queued (pools s') (returned n r (qs_pools q) \<union> changed (pools (qs_state q)) (pools s')) (\<lambda>_. False)"
      by (intro worked_queued [OF old(3)]) blast
    then show ?thesis unfolding no_key_lost_def work_pool(2)
      using untouched_queued [OF old(1)] untouched_queued [OF old(2)] by simp
  next
    case (others s')
    show ?thesis unfolding no_key_lost_def others(2)
      using untouched_queued [OF old(1)] untouched_queued [OF old(2)] untouched_queued [OF old(3)] by simp
  qed
qed

text \<open>
  C12: No wake-up is lost: whatever the API calls return and whatever else changes the cluster, every stored
  pool is always in the queue of its controller, every stored claim unless it is being deleted and has
  lost the controller's finalizer, and every stored machine unless it is not served, or carries the mark
  of an exhausted pool, which is the only way in which a machine that waits for its ENI is dropped.
\<close>
theorem no_wakeup_lost:
  assumes "allocator_api P claims machines" "claim_api P claims now" "pool_api P claims pools"
    and "q_start claims machines pools q" and "(q_step P claims machines pools)\<^sup>*\<^sup>* q q'"
  shows "(machines (qs_state q') k = Some m \<longrightarrow> k \<in> qs_machines q' \<or> \<not> served m \<or> m = failed m ''PoolExhausted'') \<and>
    (claims (qs_state q') n = Some c \<longrightarrow> n \<in> qs_claims q' \<or> releasing c \<and> ClaimFinalizer \<notin> set (claim_finalizers c)) \<and>
    (pools (qs_state q') i = Some p \<longrightarrow> i \<in> qs_pools q')"
proof -
  have "no_key_lost claims machines pools q" using assms(4) by (auto simp: no_key_lost_def q_start_def queued_def)
  with assms(5) have "no_key_lost claims machines pools q'"
    by (induction rule: rtranclp_induct) (use no_key_lost_step [OF assms(1-3)] in \<open>blast dest: q_step_def [THEN iffD1]\<close>)+
  then show ?thesis unfolding no_key_lost_def queued_def settled_machine_def settled_claim_def by blast
qed

theorem no_wakeup_lost_witness:
  "\<exists>q'. (q_step srv_ports srv_claims srv_machines srv_pools)\<^sup>*\<^sup>*
       \<lparr>qs_state = claim_world [] [ex_claim], qs_machines = {}, qs_claims = {''eni-0123''}, qs_pools = {''pool-a''}\<rparr> q' \<and>
     qs_state q' = snd (Reconcile_ENIClaim srv_ports 0 ''eni-0123'' (claim_world [] [ex_claim])) \<and> ''eni-0123'' \<in> qs_claims q'"
proof -
  let ?w = "claim_world [] [ex_claim]"
  let ?q = "\<lparr>qs_state = ?w, qs_machines = {}, qs_claims = {''eni-0123''}, qs_pools = {''pool-a''}\<rparr>"
  obtain r w' where run: "Reconcile_ENIClaim srv_ports 0 ''eni-0123'' ?w = (r, w')" by force
  let ?q' = "notify srv_claims srv_machines srv_pools w' (?q\<lparr>qs_claims := returned ''eni-0123'' r (qs_claims ?q)\<rparr>)"
  have "q_act srv_ports srv_claims srv_machines srv_pools 0 (Some (ClaimKey ''eni-0123'')) ?q ?q'"
    by (rule q_act.work_claim) (simp_all add: run)
  then have "q_step srv_ports srv_claims srv_machines srv_pools ?q ?q'" unfolding q_step_def by blast
  then have steps: "(q_step srv_ports srv_claims srv_machines srv_pools)\<^sup>*\<^sup>* ?q ?q'" by (rule r_into_rtranclp)
  have dom: "dom (srv_claims ?w) \<subseteq> {''eni-0123''}" "srv_machines ?w = Map.empty" "dom (srv_pools ?w) \<subseteq> {''pool-a''}"
    by (auto simp: srv_claims_def srv_machines_def srv_pools_def claim_world_def ex_claim_def ex_defs split: if_splits)
  then have start: "q_start srv_claims srv_machines srv_pools ?q" by (simp add: q_start_def)
  obtain c where c: "srv_claims w' ''eni-0123'' = Some c" "\<not> releasing c"
    using srv_claim_api.Reconcile_claim_spec [OF claim_world_reads(2), of 0 "[]"] run
    by (simp add: next_claim_def ex_claim_simps claim_world_reads expired_def Second_def)
  from no_wakeup_lost [OF srv_api.allocator_api_axioms srv_claim_api.claim_api_axioms srv_pool_api.pool_api_axioms start steps,
      of _ _ "''eni-0123''" c]
  have "''eni-0123'' \<in> qs_claims ?q'" using c by simp
  with steps run show ?thesis by (intro exI [of _ ?q']) simp
qed

end
