(* ===== verification/Handler_Runs.thy ===== *)
theory Handler_Runs
  imports AWSMachine_Controller ENIClaim_Controller ENIPool_Controller
begin

text \<open>
  The handlers, one API call at a time. A handler of this development is a function of its ports, so it
  runs on any state; here the state is a script: what the reads of each round return, and the answers
  to the writes made so far. The run of a handler on a script stops at the first write that has no
  answer yet, and \<open>awaits\<close> is that write. \<open>exec\<close> is what the API server does with it. So a handler
  and its script form a process whose calls interleave with those of other processes, and whose reads
  may come from caches of different ages; \<open>Interleaved\<close> runs any number of them.
\<close>

section \<open>Requests, answers and views\<close>

text \<open>The calls of the controller that change the cluster, and what the server answers.\<close>

datatype request =
    Create ENIClaim
  | PatchMachine AWSMachine AWSMachine
  | PatchClaim ENIClaim ENIClaim
  | DeleteClaim ENIClaim
  | UpdateClaimStatus ENIClaim
  | UpdatePoolStatus ENIPool

datatype answer = Claim "api_error + ENIClaim" | Done "api_error option"

fun exec :: "request \<Rightarrow> world \<Rightarrow> answer \<times> world" where
  "exec (Create c) w = (case srv_create_claim c w of (r, w') \<Rightarrow> (Claim r, w'))"
| "exec (PatchMachine b m) w = (case srv_patch_awsmachine b m w of (r, w') \<Rightarrow> (Done r, w'))"
| "exec (PatchClaim b c) w = (case srv_patch_claim b c w of (r, w') \<Rightarrow> (Claim r, w'))"
| "exec (DeleteClaim c) w = (case srv_delete_claim c w of (r, w') \<Rightarrow> (Done r, w'))"
| "exec (UpdateClaimStatus c) w = (case srv_update_claim_status c w of (r, w') \<Rightarrow> (Done r, w'))"
| "exec (UpdatePoolStatus p) w = (case srv_update_pool_status p w of (r, w') \<Rightarrow> (Done r, w'))"

text \<open>An informer cache is kept per kind, so each kind of object is seen as of its own point in time.\<close>

record views =
  see_claims :: world
  see_machines :: world
  see_rest :: world

section \<open>The scripted ports\<close>

record script =
  sees :: views
  answers :: "(answer \<times> views) list"
  waits :: "request option"

definition ask :: "request \<Rightarrow> script \<Rightarrow> answer option \<times> script" where
  "ask rq s = (case answers s of
     [] \<Rightarrow> (None, s\<lparr>waits := (if waits s = None then Some rq else waits s)\<rparr>)
   | (a, v) # rest \<Rightarrow> (Some a, s\<lparr>sees := v, answers := rest\<rparr>))"

definition claim_answer :: "answer option \<Rightarrow> api_error + ENIClaim" where
  "claim_answer a = (case a of Some (Claim r) \<Rightarrow> r | _ \<Rightarrow> Inl (OtherError ''no answer''))"

definition done_answer :: "answer option \<Rightarrow> api_error option" where
  "done_answer a = (case a of Some (Done r) \<Rightarrow> r | _ \<Rightarrow> Some (OtherError ''no answer''))"

definition ask_claim :: "request \<Rightarrow> script \<Rightarrow> (api_error + ENIClaim) \<times> script" where
  "ask_claim rq s = map_prod claim_answer id (ask rq s)"

definition ask_done :: "request \<Rightarrow> script \<Rightarrow> api_error option \<times> script" where
  "ask_done rq s = map_prod done_answer id (ask rq s)"

text \<open>Metrics and events are left out: they are not read back by any handler.\<close>

definition script_ports :: "script ports" where
  "script_ports = \<lparr>
     p_get_awsmachine = (\<lambda>s. p_get_awsmachine srv_ports (see_machines (sees s))),
     p_get_machine = (\<lambda>s. p_get_machine srv_ports (see_rest (sees s))),
     p_get_cluster = (\<lambda>s. p_get_cluster srv_ports (see_rest (sees s))),
     p_get_awscluster = (\<lambda>s. p_get_awscluster srv_ports (see_rest (sees s))),
     p_get_pool = (\<lambda>s. p_get_pool srv_ports (see_rest (sees s))),
     p_get_claim = (\<lambda>s. p_get_claim srv_ports (see_claims (sees s))),
     p_list_pools = (\<lambda>s. p_list_pools srv_ports (see_rest (sees s))),
     p_list_claims = (\<lambda>s. p_list_claims srv_ports (see_claims (sees s))),
     p_create_claim = (\<lambda>c. ask_claim (Create c)),
     p_patch_awsmachine = (\<lambda>b m. ask_done (PatchMachine b m)),
     p_patch_claim = (\<lambda>b c. ask_claim (PatchClaim b c)),
     p_delete_claim = (\<lambda>c. ask_done (DeleteClaim c)),
     p_update_claim_status = (\<lambda>c. ask_done (UpdateClaimStatus c)),
     p_update_pool_status = (\<lambda>p. ask_done (UpdatePoolStatus p)),
     p_inc_fallbacks = (\<lambda>r s. s),
     p_set_available = (\<lambda>p r v n s. s),
     p_recorder = None,
     p_parse_group = p_parse_group srv_ports,
     p_ref_defined = p_ref_defined srv_ports,
     p_set_condition = p_set_condition srv_ports\<rparr>"

lemma script_ports_simps [simp]:
  "p_get_awsmachine script_ports s = srv_get_awsmachine (see_machines (sees s))"
  "p_get_pool script_ports s = srv_get_pool (see_rest (sees s))"
  "p_get_claim script_ports s = srv_get_claim (see_claims (sees s))"
  "p_list_pools script_ports s = Inr (w_pools (see_rest (sees s)))"
  "p_list_claims script_ports s = Inr (srv_list_claims (see_claims (sees s)))"
  "p_create_claim script_ports c = ask_claim (Create c)"
  "p_patch_awsmachine script_ports b m = ask_done (PatchMachine b m)"
  "p_patch_claim script_ports d c = ask_claim (PatchClaim d c)"
  "p_delete_claim script_ports c = ask_done (DeleteClaim c)"
  "p_update_claim_status script_ports c = ask_done (UpdateClaimStatus c)"
  "p_update_pool_status script_ports p = ask_done (UpdatePoolStatus p)"
  "p_inc_fallbacks script_ports r s = s" "p_set_available script_ports n r v k s = s"
  "record_event script_ports e s = s" "p_set_condition script_ports = srv_set_condition"
  by (simp_all add: script_ports_def record_event_def)

text \<open>A write on a script: its answer and the views of the next round, or the mark that it waits.\<close>

lemma ask_claim_simps:
  "answers s = [] \<Longrightarrow> waits s = None \<Longrightarrow> ask_claim rq s = (Inl (OtherError ''no answer''), s\<lparr>waits := Some rq\<rparr>)"
  "answers s = (a, v) # rest \<Longrightarrow> ask_claim rq s = (claim_answer (Some a), s\<lparr>sees := v, answers := rest\<rparr>)"
  by (simp_all add: ask_claim_def ask_def claim_answer_def)

lemma ask_done_simps:
  "answers s = [] \<Longrightarrow> waits s = None \<Longrightarrow> ask_done rq s = (Some (OtherError ''no answer''), s\<lparr>waits := Some rq\<rparr>)"
  "answers s = (a, v) # rest \<Longrightarrow> ask_done rq s = (done_answer (Some a), s\<lparr>sees := v, answers := rest\<rparr>)"
  by (simp_all add: ask_done_def ask_def done_answer_def)

lemma claim_answer_Inr: "claim_answer (Some a) = Inr c \<longleftrightarrow> a = Claim (Inr c)"
  by (simp add: claim_answer_def split: answer.split)


section \<open>Processes\<close>

text \<open>
  A call of a handler in progress: what it was called with, the views of its first round, and for each
  write it has made the answer and the views of the round after it.
\<close>

datatype job =
    Admit "AdmissionRequest option" AWSMachine
  | ReconcileMachine string string
  | ReconcileClaim instant string
  | ReconcilePool string

record process =
  pr_job :: job
  pr_first :: views
  pr_rounds :: "(answer \<times> views) list"

definition begin_call :: "job \<Rightarrow> views \<Rightarrow> process" where
  "begin_call j v = \<lparr>pr_job = j, pr_first = v, pr_rounds = []\<rparr>"

definition script_of :: "process \<Rightarrow> script" where
  "script_of p = \<lparr>sees = pr_first p, answers = pr_rounds p, waits = None\<rparr>"

text \<open>A call of a handler on any ports, what it returns, and the write a process waits for.\<close>

datatype returned = Admitted "error option" AWSMachine | Reconciled "error + Result"

fun run_call :: "'s ports \<Rightarrow> job \<Rightarrow> 's \<Rightarrow> returned \<times> 's" where
  "run_call P (Admit rq m) s = (case Default_AWSMachine (Some P) rq m s of ((e, m'), s') \<Rightarrow> (Admitted e m', s'))"
| "run_call P (ReconcileMachine ns n) s = map_prod Reconciled id (Reconcile_AWSMachine P ns n s)"
| "run_call P (ReconcileClaim now n) s = map_prod Reconciled id (Reconcile_ENIClaim P now n s)"
| "run_call P (ReconcilePool n) s = map_prod Reconciled id (Reconcile_ENIPool P n s)"

definition awaits :: "process \<Rightarrow> request option" where
  "awaits p = waits (snd (run_call script_ports (pr_job p) (script_of p)))"

definition returns :: "process \<Rightarrow> returned" where
  "returns p = fst (run_call script_ports (pr_job p) (script_of p))"

lemma script_of_simps [simp]: "sees (script_of p) = pr_first p" "answers (script_of p) = pr_rounds p"
  "waits (script_of p) = None"
  by (simp_all add: script_of_def)

text \<open>The views of the round a process is in, and all its views.\<close>

definition last_views :: "process \<Rightarrow> views" where
  "last_views p = (if pr_rounds p = [] then pr_first p else snd (last (pr_rounds p)))"

text \<open>The claim of an answer that created one.\<close>

definition created_in :: "(answer \<times> views) list \<Rightarrow> ENIClaim \<Rightarrow> bool" where
  "created_in rs c \<longleftrightarrow> Claim (Inr c) \<in> fst ` set rs"

section \<open>What an allocation asks for\<close>

lemma create_first_asks:
  assumes "create_first (\<lambda>c. ask_claim (Create c)) mref pool rs s = (r, s')" "waits s = None"
  shows "set (answers s') \<subseteq> set (answers s) \<and>
    (case r of
       Inl e \<Rightarrow> waits s' = None \<or> (\<exists>x\<in>set rs. waits s' = Some (Create (new_claim mref pool x)))
     | Inr None \<Rightarrow> waits s' = None
     | Inr (Some c) \<Rightarrow> waits s' = None \<and> created_in (answers s) c)"
  using assms
proof (induction rs arbitrary: s)
  case (Cons x rs)
  show ?case
  proof (cases "answers s")
    case Nil
    with Cons.prems show ?thesis by (auto simp: ask_claim_simps)
  next
    case (Cons av rest)
    obtain a v where av: "av = (a, v)" by force
    let ?t = "s\<lparr>sees := v, answers := rest\<rparr>"
    have ask: "ask_claim (Create (new_claim mref pool x)) s = (claim_answer (Some a), ?t)"
      using Cons av by (simp add: ask_claim_simps)
    show ?thesis
    proof (cases "claim_answer (Some a) = Inl AlreadyExists")
      case True
      with Cons.prems ask have run: "create_first (\<lambda>c. ask_claim (Create c)) mref pool rs ?t = (r, s')" by simp
      from Cons.IH [OF this] Cons.prems(2) Cons show ?thesis
        by (auto simp: created_in_def split: sum.splits option.splits)
    next
      case False
      with Cons.prems ask show ?thesis
        by (cases "claim_answer (Some a)") (auto simp: Cons av claim_answer_Inr created_in_def image_iff)
    qed
  qed
qed auto

lemma allocate_asks:
  assumes "allocate (\<lambda>c. ask_claim (Create c)) mref pool k s = (r, s')" "waits s = None"
  shows "set (answers s') \<subseteq> set (answers s) \<and>
    (case r of
       Inl e \<Rightarrow> waits s' = None \<or> (\<exists>x. waits s' = Some (Create (new_claim mref (pool_name pool) x)))
     | Inr None \<Rightarrow> waits s' = None
     | Inr (Some c) \<Rightarrow> waits s' = None \<and> created_in (answers s) c)"
proof (cases "configured_for pool k")
  case (Inl e)
  with assms show ?thesis by (auto simp: allocate_def)
next
  case (Inr cfg)
  with assms(1) have "create_first (\<lambda>c. ask_claim (Create c)) mref (pool_name pool) (sort_Slice ip_less cfg) s = (r, s')"
    by (simp add: allocate_def)
  from create_first_asks [OF this assms(2)] show ?thesis by (auto split: sum.splits option.splits)
qed

lemma allocate_script: "allocate (p_create_claim script_ports) = allocate (\<lambda>c. ask_claim (Create c))"
proof -
  have "p_create_claim script_ports = (\<lambda>c. ask_claim (Create c))" by (rule ext) simp
  then show ?thesis by simp
qed

section \<open>What the handlers ask for\<close>

text \<open>The webhook only creates claims, for the machine it admits, and injects only an ENI it created a claim for.\<close>

lemma admission_asks:
  assumes "Default_AWSMachine (Some script_ports) rq m s = ((e, m'), s')" "waits s = None"
  shows "(waits s' = None \<or> (\<exists>pool x. waits s' = Some (Create (new_claim (machine_ref m) pool x)))) \<and>
    (m' = m \<or> (\<exists>c. m' = injected m (claim_eni c) \<and> created_in (answers s) c))"
proof (cases "\<exists>pool k. wants_eni rq m \<and> wh_target script_ports m s pool k")
  case False
  from Default_no_target [OF assms(1) this] assms(2) show ?thesis by simp
next
  case True
  then obtain pool k where t: "wants_eni rq m" "wh_target script_ports m s pool k" by blast
  obtain r t' where a: "allocate (\<lambda>c. ask_claim (Create c)) (machine_ref m) pool k s = (r, t')" by force
  have run: "((e, m'), s') = (case (r, t') of
        (Inl e, s') \<Rightarrow> ((Some e, m), s') | (Inr None, s') \<Rightarrow> ((None, m), s')
      | (Inr (Some c), s') \<Rightarrow> ((None, injected m (claim_eni c)), s'))"
    using assms(1) by (simp add: Default_at_target [OF t] wh_claimInterface_def allocate_script a)
  show ?thesis
  proof (cases r)
    case (Inr oc)
    with run allocate_asks [OF a assms(2)] show ?thesis by (cases oc) auto
  qed (use run allocate_asks [OF a assms(2)] in auto)
qed


lemma ask_done_waits:
  assumes "ask_done rq s = (r, s')" "waits s = None"
  shows "waits s' = None \<or> waits s' = Some rq"
  using assms by (cases "answers s") (auto simp: ask_done_simps)

lemma patch_asks:
  assumes "patch_result script_ports m m' s = (r, s')" "waits s = None"
  shows "waits s' = None \<or> waits s' = Some (PatchMachine m m')"
  using assms ask_done_waits by (auto simp: patch_result_def split: prod.splits)

text \<open>The patches of the machine reconciler: of a machine without interfaces, to none or to the ENI of \<open>c\<close>.\<close>

definition machine_patch :: "AWSMachine \<Rightarrow> (ENIClaim \<Rightarrow> bool) \<Rightarrow> request \<Rightarrow> bool" where
  "machine_patch m P rq \<longleftrightarrow> (\<exists>m'. rq = PatchMachine m m' \<and>
     (am_networkInterfaces m' = [] \<or> (\<exists>c. P c \<and> am_networkInterfaces m' = [claim_eni c])))"

lemma fall_back_asks:
  assumes "dynamicFallback script_ports m why s = (r, s')" "waits s = None" "served m" "waits s' = Some rq"
  shows "machine_patch m P rq"
  using assms patch_asks by (fastforce simp: steps_on_served machine_patch_def)

lemma mark_asks:
  assumes "markFailed script_ports m ''PoolExhausted'' s = (r, s')" "waits s = None" "served m" "waits s' = Some rq"
  shows "machine_patch m P rq"
proof -
  have "am_networkInterfaces (failed m why) = []" for why
    using assms(3) by (simp add: failed_def served_def)
  with assms patch_asks show ?thesis by (fastforce simp: markFailed_eq machine_patch_def)
qed

lemma release_asks:
  assumes "release_allocated script_ports m pool c s = (r, s')" "waits s = None" "served m" "waits s' = Some rq" "P c"
  shows "machine_patch m P rq"
proof -
  obtain e t where e: "ask_done (PatchMachine m (released m [claim_eni c] AllocationResultAllocated None)) s = (e, t)"
    by force
  with assms(1,3) have "t = s'" by (auto simp: steps_on_served split: option.splits)
  with ask_done_waits [OF e assms(2)] assms(4,5) show ?thesis by (auto simp: machine_patch_def)
qed

text \<open>
  The machine reconciler creates claims only for the machine it read, and patches only that one, to the
  ENI of a claim it listed for it or has just created.
\<close>

lemma machine_asks:
  assumes "Reconcile_AWSMachine script_ports ns n s = (r, s')" "waits s = None" "waits s' = Some rq"
  shows "\<exists>m. srv_machines (see_machines (sees s)) (ns, n) = Some m \<and> served m \<and>
    ((\<exists>pool x. rq = Create (new_claim (machine_ref m) pool x)) \<or>
     machine_patch m (\<lambda>c. (c \<in> ran (srv_claims (see_claims (sees s))) \<and> claim_machine c = machine_ref m) \<or>
       created_in (answers s) c) rq)"
proof (cases "srv_machines (see_machines (sees s)) (ns, n)")
  case None
  with assms show ?thesis by (simp add: Reconcile_AWSMachine_def srv_get_awsmachine_def)
next
  case (Some m)
  then have get: "p_get_awsmachine script_ports s ns n = Inr m" by (simp add: srv_get_awsmachine_def)
  show ?thesis
  proof (cases "served m")
    case False
    with assms get show ?thesis by (simp add: Reconcile_not_served)
  next
    case served: True
    let ?P = "\<lambda>c. (c \<in> ran (srv_claims (see_claims (sees s))) \<and> claim_machine c = machine_ref m) \<or> created_in (answers s) c"
    note run = assms(1) [unfolded Reconcile_served [OF get served]]
    have "(\<exists>pool x. rq = Create (new_claim (machine_ref m) pool x)) \<or> machine_patch m ?P rq"
    proof (cases "\<exists>pool k. rc_target script_ports m s pool k")
      case False
      with run assms(2,3) served show ?thesis
        by (auto simp: rc_target_def intro: fall_back_asks split: sum.splits option.splits)
    next
      case True
      then obtain pool k where t: "rc_target script_ports m s pool k" by blast
      note run = assms(1) [unfolded Reconcile_at_target [OF get served t]]
      obtain oc t where c: "rc_claimInterface script_ports m pool k s = (oc, t)" by force
      have out: "case oc of
           Inl e \<Rightarrow> waits t = None \<or> (\<exists>x. waits t = Some (Create (new_claim (machine_ref m) (pool_name pool) x)))
         | Inr None \<Rightarrow> waits t = None
         | Inr (Some c) \<Rightarrow> waits t = None \<and> ?P c"
      proof (cases "find_claim m (srv_list_claims (see_claims (sees s)))")
        case None
        with c have "allocate (\<lambda>c. ask_claim (Create c)) (machine_ref m) pool k s = (oc, t)"
          by (simp add: rc_claimInterface_def allocate_script)
        from allocate_asks [OF this assms(2)] show ?thesis by (auto split: sum.splits option.splits)
      next
        case (Some d)
        with c assms(2) find_claim_Some [OF Some] show ?thesis
          by (auto simp: rc_claimInterface_def srv_list_claims_def set_firsts_by srv_claims_def)
      qed
      show ?thesis
      proof (cases oc)
        case (Inl e)
        with run c out assms(3) show ?thesis by auto
      next
        case (Inr oc')
        show ?thesis
        proof (cases oc')
          case None
          with Inr run c out assms(3) served show ?thesis
            by (auto dest: fall_back_asks mark_asks split: if_splits)
        next
          case (Some cl)
          with Inr run c out assms(3) served show ?thesis by (auto intro: release_asks)
        qed
      qed
    qed
    with Some served show ?thesis by blast
  qed
qed


text \<open>The stored machine of a key, and the key of the machine a claim is for.\<close>

definition claim_key :: "ENIClaim \<Rightarrow> string \<times> string" where
  "claim_key c = (nref_namespace (claim_machine c), nref_name (claim_machine c))"

text \<open>
  The claim the claim reconciler goes on with once the finalizer is on it, and the views it then has:
  the claim it read, or the one the PATCH of the finalizer returned.
\<close>

definition subject :: "script \<Rightarrow> string \<Rightarrow> (ENIClaim \<times> views) option" where
  "subject s n = (case srv_claims (see_claims (sees s)) n of
     None \<Rightarrow> None
   | Some c \<Rightarrow>
       if releasing c then None
       else if ClaimFinalizer \<in> set (claim_finalizers c) then (if answers s = [] then Some (c, sees s) else None)
       else (case answers s of [(Claim (Inr d), v)] \<Rightarrow> Some (d, v) | _ \<Rightarrow> None))"

lemma observe_asks:
  assumes "observe script_ports pool c s = (r, s')" "waits s = None" "waits s' = Some rq"
  shows "answers s = [] \<and> (\<exists>c'. rq = UpdateClaimStatus c' \<and> claim_name c' = claim_name c)"
  using assms by (cases "answers s") (auto simp: observe_eq ask_done_simps split: if_splits prod.splits option.splits)

lemma reclaim_asks:
  assumes "reclaim script_ports now c s = (r, s')" "waits s = None" "waits s' = Some rq"
  shows "answers s = [] \<and> rq = DeleteClaim c \<and> expired now c"
  using assms by (cases "answers s")
    (auto simp: reclaim_def expired_Since ask_done_simps split: if_splits prod.splits option.splits)

lemma removeFinalizer_asks:
  assumes "removeFinalizer script_ports c s = (r, s')" "waits s = None" "waits s' = Some rq"
  shows "answers s = [] \<and> (\<exists>new. rq = PatchClaim c new)"
  using assms by (cases "answers s")
    (auto simp: removeFinalizer_def ask_claim_simps split: if_splits prod.splits sum.splits)

text \<open>What the claim reconciler asks for after the finalizer is in place.\<close>

definition claim_decides :: "instant \<Rightarrow> ENIClaim \<Rightarrow> views \<Rightarrow> request \<Rightarrow> bool" where
  "claim_decides now c v rq \<longleftrightarrow>
     (rq = DeleteClaim c \<and> expired now c \<and> srv_machines (see_machines v) (claim_key c) = None) \<or>
     (\<exists>c'. rq = UpdateClaimStatus c' \<and> claim_name c' = claim_name c)"

lemma claim_asks:
  assumes "Reconcile_ENIClaim script_ports now n s = (r, s')" "waits s = None" "waits s' = Some rq"
  shows "\<exists>c0. srv_claims (see_claims (sees s)) n = Some c0 \<and>
    ((answers s = [] \<and> (\<exists>new. rq = PatchClaim c0 new \<and> (\<not> releasing c0 \<longrightarrow>
        claim_finalizers new \<noteq> claim_finalizers c0 \<and> claim_finalizers new \<noteq> []))) \<or>
     (\<exists>c v. subject s n = Some (c, v) \<and> claim_decides now c v rq))"
proof (cases "srv_claims (see_claims (sees s)) n")
  case None
  with assms show ?thesis by (simp add: Reconcile_ENIClaim_def srv_get_claim_def)
next
  case (Some c)
  then have "p_get_claim script_ports s n = Inr c" by (simp add: srv_get_claim_def)
  with assms(1) have run: "(case p_get_pool script_ports s (claim_pool c) of
          Inl e \<Rightarrow>
            if e = NotFound \<and> m_deletionTimestamp (claim_meta c) \<noteq> None
            then (case removeFinalizer script_ports c s of (r, s') \<Rightarrow> (return_err r, s'))
            else (Inl (ApiError e), s)
        | Inr pool \<Rightarrow>
            if m_deletionTimestamp (claim_meta c) \<noteq> None
            then (case removeFinalizer script_ports c s of (r, s') \<Rightarrow> (return_err r, s'))
            else (case ensure_finalizer script_ports c s of
                (Inl e, s') \<Rightarrow> (Inl (ApiError e), s')
              | (Inr claim', s') \<Rightarrow>
                  (case p_get_awsmachine script_ports s' (nref_namespace (claim_machine claim')) (nref_name (claim_machine claim')) of
                     Inl e \<Rightarrow> if e = NotFound then reclaim script_ports now claim' s' else (Inl (ApiError e), s')
                   | Inr machine \<Rightarrow> observe script_ports pool claim' s'))) = (r, s')"
    by (simp add: Reconcile_ENIClaim_def)
  show ?thesis
  proof (cases "releasing c")
    case True
    with run assms(2,3) have "\<exists>r. removeFinalizer script_ports c s = (r, s')"
      by (auto simp: releasing_def split: sum.splits if_splits prod.splits)
    with removeFinalizer_asks [OF _ assms(2,3)] Some True show ?thesis by blast
  next
    case alive: False
    then have "m_deletionTimestamp (claim_meta c) = None" by (simp add: releasing_def)
    with run assms(2,3) obtain pool where run: "(case ensure_finalizer script_ports c s of
                (Inl e, s') \<Rightarrow> (Inl (ApiError e), s')
              | (Inr claim', s') \<Rightarrow>
                  (case p_get_awsmachine script_ports s' (nref_namespace (claim_machine claim')) (nref_name (claim_machine claim')) of
                     Inl e \<Rightarrow> if e = NotFound then reclaim script_ports now claim' s' else (Inl (ApiError e), s')
                   | Inr machine \<Rightarrow> observe script_ports pool claim' s')) = (r, s')"
      by (auto split: sum.splits)
    have decide: "answers t = [] \<and> claim_decides now d (sees t) rq"
      if "(case srv_get_awsmachine (see_machines (sees t)) (nref_namespace (claim_machine d)) (nref_name (claim_machine d)) of
             Inl e \<Rightarrow> if e = NotFound then reclaim script_ports now d t else (Inl (ApiError e), t)
           | Inr machine \<Rightarrow> observe script_ports pool d t) = (r, s')" "waits t = None" for d t
      using that assms(3)
      by (auto simp: srv_get_awsmachine_def or_not_found_def claim_decides_def claim_key_def
          dest!: reclaim_asks observe_asks split: option.splits)
    show ?thesis
    proof (cases "ClaimFinalizer \<in> set (claim_finalizers c)")
      case True
      with run have "(case srv_get_awsmachine (see_machines (sees s)) (nref_namespace (claim_machine c)) (nref_name (claim_machine c)) of
             Inl e \<Rightarrow> if e = NotFound then reclaim script_ports now c s else (Inl (ApiError e), s)
           | Inr machine \<Rightarrow> observe script_ports pool c s) = (r, s')" by (simp add: ensure_finalizer_def)
      from decide [OF this assms(2)] True alive Some show ?thesis by (simp add: subject_def)
    next
      case False
      show ?thesis
      proof (cases "answers s")
        case Nil
        with run False assms(2,3) alive Some show ?thesis by (auto simp: ensure_finalizer_def ask_claim_simps)
      next
        case (Cons av rest)
        obtain a v where av: "av = (a, v)" by force
        let ?t = "s\<lparr>sees := v, answers := rest\<rparr>"
        have ask: "ensure_finalizer script_ports c s = (claim_answer (Some a), ?t)"
          using False Cons av by (simp add: ensure_finalizer_def ask_claim_simps)
        show ?thesis
        proof (cases "claim_answer (Some a)")
          case (Inl e)
          with run ask assms(2,3) show ?thesis by auto
        next
          case (Inr d)
          with run ask decide [of d ?t] assms(2) have "rest = []" "claim_decides now d v rq" by auto
          with Inr alive False Some Cons av show ?thesis by (simp add: subject_def claim_answer_Inr)
        qed
      qed
    qed
  qed
qed

text \<open>The pool reconciler writes nothing but the status of a pool.\<close>

lemma pool_asks:
  assumes "Reconcile_ENIPool script_ports n s = (r, s')" "waits s = None" "waits s' = Some rq"
  shows "\<exists>p. rq = UpdatePoolStatus p"
proof (cases "p_get_pool script_ports s n")
  case (Inl e)
  with assms show ?thesis by (simp add: Reconcile_ENIPool_def)
next
  case (Inr pool)
  with assms show ?thesis
    by (cases "answers s")
      (auto simp: Reconcile_ENIPool_eq [OF Inr script_ports_simps(5)] ask_done_simps split: prod.splits option.splits if_splits)
qed

end
