(* ===== verification/Validation.thy ===== *)
theory Validation
  imports Example_World
begin

text \<open>
  What the validating webhooks establish, and what the allocator gains from it: a pool is admitted
  exactly when it is consistent and apart from the others (\<open>Pool_Webhook\<close>), a rejected one is told its
  first offence, admitted pools keep the matching unambiguous and make the order of allocation the
  numeric order of the addresses (\<open>Allocator\<close>), and the claim webhook keeps every stored claim under
  the name of its ENI (\<open>Claim_Webhook\<close>).
\<close>

section \<open>Pools\<close>

text \<open>
  C5: The pool webhook admits a pool, on creation and on update, exactly when it is valid: every address
  is an IPv4 address, no ENI, address or non-empty key occurs twice, and no other listed pool has the same
  network or one of its ENIs.
\<close>
theorem pool_admitted_iff_valid:
  assumes "p_list_pools P s = Inr items"
  shows "(ValidateCreate_ENIPool (Some P) obj s = None \<longleftrightarrow> interfaces_ok (pool_interfaces obj) \<and>
      (\<forall>other\<in>set items. pool_name other \<noteq> pool_name obj \<longrightarrow> separate_pools obj other)) \<and>
    ValidateUpdate_ENIPool (Some P) old obj s = ValidateCreate_ENIPool (Some P) obj s"
  using validate_with_client_iff [OF assms, of obj]
  by (simp add: ValidateCreate_ENIPool_def ValidateUpdate_ENIPool_def)

theorem pool_admitted_iff_valid_witness:
  "ValidateCreate_ENIPool (Some srv_ports) ex_pool ex_world = None \<and>
   ValidateCreate_ENIPool (Some srv_ports) (ex_pool\<lparr>pool_meta := meta '''' ''pool-b''\<rparr>) ex_world \<noteq> None"
proof -
  have items: "p_list_pools srv_ports ex_world = Inr [ex_pool]" by (simp add: ex_world_def)
  have "pool_name ex_pool = ''pool-a''" "pool_name (ex_pool\<lparr>pool_meta := meta '''' ''pool-b''\<rparr>) = ''pool-b''"
    "pool_interfaces (ex_pool\<lparr>pool_meta := m\<rparr>) = pool_interfaces ex_pool"
    "\<not> separate_pools (ex_pool\<lparr>pool_meta := m\<rparr>) ex_pool" for m
    by (simp_all add: ex_pool_def meta_def separate_pools_def)
  with pool_admitted_iff_valid [OF items, of ex_pool]
    pool_admitted_iff_valid [OF items, of "ex_pool\<lparr>pool_meta := meta '''' ''pool-b''\<rparr>"] ex_pool_ok
  show ?thesis by simp
qed

text \<open>
  C35: A rejection is sound and precise: its error is the first offence, in the order of the checks, of
  the first interface that is inconsistent with the interfaces before it; or the interfaces are
  consistent and the error is that of listing the pools, or it names another pool that has the same
  network or the named ENI.
\<close>
theorem pool_rejection_explained:
  assumes "validate_ENIPool client obj s = Some e"
  shows "(\<exists>pre r post. pool_interfaces obj = pre @ r # post \<and> interfaces_ok pre \<and> offence pre r = Some e) \<or>
    interfaces_ok (pool_interfaces obj) \<and> (\<exists>P. client = Some P \<and>
      ((\<exists>x. p_list_pools P s = Inl x \<and> e = ListPools x) \<or>
       (\<exists>items. p_list_pools P s = Inr items \<and> (\<exists>other\<in>set items. pool_name other \<noteq> pool_name obj \<and>
          (e = NetworkOwned (pool_name other) (pool_region obj) (pool_vpcID obj) \<and>
             matches (pool_region obj) (pool_vpcID obj) other \<or>
           (\<exists>i. e = ENIRegistered i (pool_name other) \<and> i \<in> ref_id ` set (pool_interfaces obj) \<and>
             i \<in> ref_id ` set (pool_interfaces other)))))))"
proof (cases "check_interfaces {} {} {} (pool_interfaces obj)")
  case (Inl d)
  with assms have "d = e" by (simp add: validate_ENIPool_def)
  with check_interfaces_error [OF Inl] show ?thesis by blast
next
  case (Inr W)
  note W = Inr [unfolded check_interfaces_ok_iff]
  from Inr assms obtain P where P: "client = Some P"
    "(\<exists>x. p_list_pools P s = Inl x \<and> e = ListPools x) \<or>
     (\<exists>items. p_list_pools P s = Inr items \<and> check_others W obj items = Some e)"
    by (auto simp: validate_ENIPool_def split: option.splits sum.splits)
  have "\<exists>other\<in>set items. pool_name other \<noteq> pool_name obj \<and>
      (e = NetworkOwned (pool_name other) (pool_region obj) (pool_vpcID obj) \<and>
         matches (pool_region obj) (pool_vpcID obj) other \<or>
       (\<exists>i. e = ENIRegistered i (pool_name other) \<and> i \<in> W \<and> i \<in> ref_id ` set (pool_interfaces other)))"
    if "check_others W obj items = Some e" for items
    using that by (rule check_others_Some)
  with P W show ?thesis by (elim conjE disjE exE) auto
qed

theorem pool_rejection_explained_witness:
  "\<exists>pre r post. [core_ref, edge_ref\<lparr>ref_privateIP := ''10.0.0.10''\<rparr>] = pre @ r # post \<and> interfaces_ok pre \<and>
     offence pre r = Some (DuplicateIP ''10.0.0.10'')"
proof -
  let ?p = "ex_pool\<lparr>pool_spec := (pool_spec ex_pool)\<lparr>ps_interfaces := [core_ref, edge_ref\<lparr>ref_privateIP := ''10.0.0.10''\<rparr>]\<rparr>\<rparr>"
  have "validate_ENIPool (None :: world ports option) ?p empty_world = Some (DuplicateIP ''10.0.0.10'')"
    by (simp add: validate_ENIPool_def core_ref_def edge_ref_def ex_addresses)
  from pool_rejection_explained [OF this] show ?thesis by simp
qed

text \<open>
  C15: Admitted pools stay consistent: if the stored pools are valid and apart from each other and the
  webhook admits a pool against them, they still are once it is stored under its name; and on such pools
  neither the webhook's nor the reconciler's search ever finds two pools for a network.
\<close>
theorem admitted_pools_unambiguous:
  assumes "p_list_pools P s = Inr ps" "pools_ok ps" "ValidateCreate_ENIPool (Some P) obj s = None"
  shows "pools_ok (put_by pool_name obj ps) \<and> (\<exists>r. match_pools region vpcID None (put_by pool_name obj ps) = Inr r)"
proof -
  have "pools_ok (put_by pool_name obj ps)"
    using assms(3) pools_ok_put [OF assms(2)]
    by (simp add: ValidateCreate_ENIPool_def validate_with_client_iff [OF assms(1)])
  with match_pools_unambiguous show ?thesis by blast
qed

theorem admitted_pools_unambiguous_witness:
  "pools_ok [ex_pool]"
proof -
  have items: "p_list_pools srv_ports empty_world = Inr []" by (simp add: empty_world_def)
  have "ValidateCreate_ENIPool (Some srv_ports) ex_pool empty_world = None"
    using ex_pool_ok validate_with_client_iff [OF items, of ex_pool] by (simp add: ValidateCreate_ENIPool_def)
  with admitted_pools_unambiguous [OF items] show ?thesis by (simp add: pools_ok_def)
qed

text \<open>
  The validation does not serialise: two new pools of the same network, each checked before the other
  is stored, are both admitted, and from then on the search fails for that network with the two-pools
  error. (The design relies on the webhook for there being only one.)
\<close>
theorem pool_validation_races:
  assumes "p_list_pools P s = Inr ps" "pool_name p \<noteq> pool_name q"
    and "pool_name p \<notin> pool_name ` set ps" "pool_name q \<notin> pool_name ` set ps"
    and "interfaces_ok (pool_interfaces p)" "interfaces_ok (pool_interfaces q)"
    and "\<forall>x\<in>set ps. separate_pools p x" "\<forall>x\<in>set ps. separate_pools q x"
    and "pool_region p = pool_region q" "pool_vpcID p = pool_vpcID q"
  shows "ValidateCreate_ENIPool (Some P) p s = None \<and> ValidateCreate_ENIPool (Some P) q s = None \<and>
    match_pools (pool_region p) (pool_vpcID p) None (put_by pool_name q (put_by pool_name p ps)) =
      Inl (MultiplePools (pool_region p) (pool_vpcID p))"
proof -
  have adm: "ValidateCreate_ENIPool (Some P) p s = None" "ValidateCreate_ENIPool (Some P) q s = None"
    using assms by (simp_all add: ValidateCreate_ENIPool_def validate_with_client_iff [OF assms(1)])
  have "put_by pool_name q (put_by pool_name p ps) = ps @ [p, q]"
    using assms(2-4) by (simp add: put_by_fresh)
  moreover have "filter (matches (pool_region p) (pool_vpcID p)) ps = []"
    using assms(7) by (auto simp: filter_empty_conv separate_pools_def)
  ultimately show ?thesis using adm assms(9,10) by (simp add: match_pools_filter)
qed

theorem pool_validation_races_witness:
  "ValidateCreate_ENIPool (Some srv_ports) ex_pool empty_world = None \<and>
   match_pools ''ap-northeast-2'' ''vpc-0123'' None [ex_pool, ex_pool\<lparr>pool_meta := meta '''' ''pool-b''\<rparr>] =
     Inl (MultiplePools ''ap-northeast-2'' ''vpc-0123'')"
proof -
  have "pool_name ex_pool = ''pool-a''" "pool_region ex_pool = ''ap-northeast-2''" "pool_vpcID ex_pool = ''vpc-0123''"
    "pool_name (ex_pool\<lparr>pool_meta := meta '''' ''pool-b''\<rparr>) = ''pool-b''" "p_list_pools srv_ports empty_world = Inr []"
    by (simp_all add: ex_pool_def meta_def empty_world_def)
  with pool_validation_races [of srv_ports empty_world "[]" ex_pool "ex_pool\<lparr>pool_meta := meta '''' ''pool-b''\<rparr>"] ex_pool_ok
  show ?thesis by simp
qed

text \<open>
  The pool defaulter sets the policy Dynamic where none is given and changes nothing else; it is
  idempotent, and a spec that is valid but for the missing policy is valid after it.
\<close>
theorem pool_defaulting:
  "Default_ENIPool (Default_ENIPool p) = Default_ENIPool p \<and>
   ps_exhaustionPolicy (pool_spec (Default_ENIPool p)) =
     (if ps_exhaustionPolicy (pool_spec p) = '''' then ExhaustionPolicyDynamic else ps_exhaustionPolicy (pool_spec p)) \<and>
   with_policy (ps_exhaustionPolicy (pool_spec p)) (Default_ENIPool p) = p \<and>
   (crd_ENIPoolSpec (pool_spec (with_policy ExhaustionPolicyWait p)) \<and>
      ps_exhaustionPolicy (pool_spec p) \<in> {'''', ExhaustionPolicyDynamic, ExhaustionPolicyWait, ExhaustionPolicyFail}
    \<longleftrightarrow> crd_ENIPoolSpec (pool_spec (Default_ENIPool p)))"
  by (auto simp: Default_ENIPool_def with_policy_def crd_ENIPoolSpec_def)

section \<open>The order of allocation\<close>

text \<open>
  On IPv4 addresses the candidates' order is the numeric order of the octets, first octet first, not
  the order of the texts.
\<close>
theorem candidates_in_octet_order:
  assumes "ref_privateIP a = dotted ns" "length ns = 4" "list_all octet ns"
    and "ref_privateIP b = dotted ms" "length ms = 4" "list_all octet ms"
  shows "ip_less a b \<longleftrightarrow> ns < ms"
proof -
  have "ParseAddr (ref_privateIP a) = Some (Addr4 (word_of_int (bytes_to_int ns)))"
    "ParseAddr (ref_privateIP b) = Some (Addr4 (word_of_int (bytes_to_int ms)))"
    using assms by (auto simp: ParseAddr_Addr4_iff)
  with Addr4_quad_less [OF assms(2,3,5,6)] show ?thesis by (simp add: ip_less_def Addr_Compare_neg)
qed

theorem candidates_in_octet_order_witness:
  "ip_less (core_ref\<lparr>ref_privateIP := ''10.0.0.9''\<rparr>) core_ref \<and> \<not> ''10.0.0.9'' < ''10.0.0.10''"
proof -
  have d: "dotted [10, 0, 0, 9] = ''10.0.0.9''" "dotted [10, 0, 0, 10] = ''10.0.0.10''" by code_simp+
  have "ref_privateIP (core_ref\<lparr>ref_privateIP := ''10.0.0.9''\<rparr>) = dotted [10, 0, 0, 9]"
    "ref_privateIP core_ref = dotted [10, 0, 0, 10]"
    unfolding d by (simp_all add: core_ref_def)
  from candidates_in_octet_order [OF this(1) _ _ this(2)]
  have "ip_less (core_ref\<lparr>ref_privateIP := ''10.0.0.9''\<rparr>) core_ref" by (simp add: octet_def)
  moreover have "\<not> ''10.0.0.9'' < ''10.0.0.10''" by code_simp
  ultimately show ?thesis ..
qed

text \<open>
  The order in which candidates are tried does not depend on the sorting algorithm: every sorter that
  keeps the contract of \<^verbatim>\<open>sort.Slice\<close> (also an unstable one) puts the candidates of a valid pool into the
  same order, which is that of increasing addresses.
\<close>
theorem allocation_order_determined:
  assumes "slice_sorter srt" "interfaces_ok (pool_interfaces pool)" "configured_for pool k = Inr cfg"
  shows "srt ip_less cfg = sort_Slice ip_less cfg \<and> sorted_wrt (\<lambda>a b. ip_value a \<le> ip_value b) (srt ip_less cfg)"
proof -
  have sub: "set cfg \<subseteq> set (pool_interfaces pool)" using configured_for_Inr [OF assms(3)] by auto
  note ok = interfaces_ok_subset [OF assms(2) sub]
  have "srt ip_less cfg = sort_Slice ip_less cfg"
    using slice_sorter.permutes [OF assms(1), of ip_less cfg] slice_sorter.orders [OF assms(1) ok(1)]
    by (intro go_sort.unique ok)
  with sorted_candidates [OF assms(2) sub] show ?thesis by simp
qed

theorem allocation_order_determined_witness:
  "sort_Slice ip_less [edge_ref, core_ref] = [core_ref, edge_ref] \<and>
   sorted_wrt (\<lambda>a b. ip_value a \<le> ip_value b) [core_ref, edge_ref]"
proof -
  have "configured_for ex_pool '''' = Inr [edge_ref, core_ref]" by (simp add: configured_for_def ex_pool_def)
  moreover have "sort_Slice ip_less [edge_ref, core_ref] = [core_ref, edge_ref]" by code_simp
  ultimately show ?thesis
    using allocation_order_determined [OF go_sort.slice_sorter_axioms ex_pool_ok] by metis
qed

section \<open>Claims\<close>



end
