(* ===== verification/System.thy ===== *)
theory System
  imports Validation AWSMachine_Controller ENIClaim_Controller ENIPool_Controller
begin

text \<open>
  The components together, as a transition system on the reference server: any number of admissions run
  concurrently, each as the sequence of its API calls (\<open>Trying\<close> candidates one CREATE at a time, then
  \<open>Holding\<close> a claim until the API server stores the machine), interleaved with the three reconcilers,
  with deletions of machines, changes of pools and the passing of time. The reconcilers run as one step
  each on coherent reads (\<open>Interleaved\<close> takes them apart into their requests). A machine is stored less
  than 30 seconds after its claim was created, the grace period of the claim reconciler; the last
  section shows what happens otherwise.

  Admissions are of machines that name no interface and are not paused for the allocator, which is how
  the webhook is meant to be used. Only the reconcilers and the API server delete claims.
\<close>

section \<open>States and steps\<close>

datatype admission = Trying AWSMachine string "ENIReference list" | Holding AWSMachine ENIClaim

record system =
  sys_world :: world
  sys_adms :: "nat \<rightharpoonup> admission"

definition submittable :: "AWSMachine \<Rightarrow> bool" where
  "submittable m \<longleftrightarrow> am_networkInterfaces m = [] \<and>
     map_index (am_annotations m) AllocatorPausedAnnotation \<noteq> ''true''"

definition store_machine :: "AWSMachine \<Rightarrow> world \<Rightarrow> world" where
  "store_machine m w = w\<lparr>w_awsmachines := put_by am_key m (w_awsmachines w)\<rparr>"

definition remove_machine :: "string \<times> string \<Rightarrow> world \<Rightarrow> world" where
  "remove_machine k w = w\<lparr>w_awsmachines := drop_by am_key k (w_awsmachines w)\<rparr>"

text \<open>At the start no machine is stored and no admission is under way; claims, pools and the rest are any.\<close>

definition start :: "system \<Rightarrow> bool" where
  "start s \<longleftrightarrow> w_awsmachines (sys_world s) = [] \<and> sys_adms s = Map.empty"
inductive sys_step :: "system \<Rightarrow> system \<Rightarrow> bool" where
  submit: "a \<notin> dom (sys_adms s) \<Longrightarrow> submittable m \<Longrightarrow> configured_for pool k = Inr cfg \<Longrightarrow>
    sys_step s (s\<lparr>sys_adms := (sys_adms s)(a \<mapsto> Trying m (pool_name pool) (sort_Slice ip_less cfg))\<rparr>)"
| created: "sys_adms s a = Some (Trying m p (r # rs)) \<Longrightarrow>
    srv_create_claim (new_claim (machine_ref m) p r) (sys_world s) = (Inr c, w) \<Longrightarrow>
    sys_step s (s\<lparr>sys_world := w, sys_adms := (sys_adms s)(a \<mapsto> Holding m c)\<rparr>)"
| taken: "sys_adms s a = Some (Trying m p (r # rs)) \<Longrightarrow>
    srv_create_claim (new_claim (machine_ref m) p r) (sys_world s) = (Inl AlreadyExists, w) \<Longrightarrow>
    sys_step s (s\<lparr>sys_world := w, sys_adms := (sys_adms s)(a \<mapsto> Trying m p rs)\<rparr>)"
| persist: "sys_adms s a = Some (Holding m c) \<Longrightarrow> srv_machines (sys_world s) (am_key m) = None \<Longrightarrow>
    w_now (sys_world s) - m_creationTimestamp (claim_meta c) < 30 * Second \<Longrightarrow>
    sys_step s (s\<lparr>sys_world := store_machine (injected m (claim_eni c)) (sys_world s),
      sys_adms := (sys_adms s)(a := None)\<rparr>)"
| persist_plain: "submittable m \<Longrightarrow> srv_machines (sys_world s) (am_key m) = None \<Longrightarrow>
    sys_step s (s\<lparr>sys_world := store_machine m (sys_world s), sys_adms := (sys_adms s)(a := None)\<rparr>)"
| abandon: "sys_step s (s\<lparr>sys_adms := (sys_adms s)(a := None)\<rparr>)"
| machine_gone: "sys_step s (s\<lparr>sys_world := remove_machine k (sys_world s)\<rparr>)"
| tick: "0 \<le> d \<Longrightarrow> sys_step s (s\<lparr>sys_world := (sys_world s)\<lparr>w_now := w_now (sys_world s) + d\<rparr>\<rparr>)"
| pools: "sys_step s (s\<lparr>sys_world := (sys_world s)\<lparr>w_pools := ps\<rparr>\<rparr>)"
| claim_call: "Reconcile_ENIClaim srv_ports (w_now (sys_world s)) n (sys_world s) = (r, w) \<Longrightarrow>
    sys_step s (s\<lparr>sys_world := w\<rparr>)"
| machine_call: "Reconcile_AWSMachine srv_ports ns n (sys_world s) = (r, w) \<Longrightarrow> sys_step s (s\<lparr>sys_world := w\<rparr>)"
| pool_call: "Reconcile_ENIPool srv_ports n (sys_world s) = (r, w) \<Longrightarrow> sys_step s (s\<lparr>sys_world := w\<rparr>)"

definition reachable :: "system \<Rightarrow> bool" where
  "reachable s \<longleftrightarrow> (\<exists>s0. start s0 \<and> sys_step\<^sup>*\<^sup>* s0 s)"

section \<open>Frames of the steps\<close>

lemma srv_machines_store: "srv_machines (store_machine m w) = (srv_machines w)(am_key m \<mapsto> m)"
  by (simp add: srv_machines_def store_machine_def)

lemma srv_machines_remove: "srv_machines (remove_machine k w) = (srv_machines w)(k := None)"
  by (simp add: srv_machines_def remove_machine_def)

lemma store_frames [simp]:
  "srv_claims (store_machine m w) = srv_claims w" "srv_claims (remove_machine k w) = srv_claims w"
  "w_now (store_machine m w) = w_now w" "w_now (remove_machine k w) = w_now w"
  "srv_claims (w\<lparr>w_now := t\<rparr>) = srv_claims w" "srv_claims (w\<lparr>w_pools := ps\<rparr>) = srv_claims w"
  "srv_machines (w\<lparr>w_now := t\<rparr>) = srv_machines w" "srv_machines (w\<lparr>w_pools := ps\<rparr>) = srv_machines w"
  by (simp_all add: store_machine_def remove_machine_def srv_claims_def srv_machines_def)

lemma srv_machines_named: "srv_machines w k = Some m \<Longrightarrow> am_key m = k"
  by (rule srv_api.machine_named)

lemma srv_machines_reads: "srv_get_awsmachine w = srv_get_awsmachine w' \<Longrightarrow> srv_machines w = srv_machines w'"
proof
  fix k :: "string \<times> string"
  assume "srv_get_awsmachine w = srv_get_awsmachine w'"
  then have "srv_get_awsmachine w (fst k) (snd k) = srv_get_awsmachine w' (fst k) (snd k)" by simp
  then show "srv_machines w k = srv_machines w' k"
    by (simp add: srv_get_awsmachine_def or_not_found_def split: option.splits)
qed

lemma claim_call_frames:
  assumes "Reconcile_ENIClaim srv_ports t n w = (r, w')"
  shows "srv_machines w' = srv_machines w" "w_now w' = w_now w"
proof -
  have "srv_claim_api.same_reads w w'" using assms by (rule srv_claim_api.Reconcile_claim_reads)
  then have reads: "srv_get_awsmachine w' = srv_get_awsmachine w" and "w_now w' = w_now w"
    by (simp_all add: srv_claim_api.same_reads_def)
  then show "w_now w' = w_now w" by simp
  show "srv_machines w' = srv_machines w" using reads by (rule srv_machines_reads)
qed

lemma pool_call_frames:
  assumes "Reconcile_ENIPool srv_ports n w = (r, w')"
  shows "srv_machines w' = srv_machines w" "w_now w' = w_now w" "srv_claims w' = srv_claims w"
proof -
  have upd: "srv_machines u = srv_machines v \<and> w_now u = w_now v \<and> srv_claims u = srv_claims v"
    if "srv_update_pool_status p v = (e, u)" for p e u v
    using that by (auto simp: srv_update_pool_status_def srv_machines_def srv_claims_def split: option.splits)
  have avail: "srv_machines (p_set_available srv_ports x y z k v) = srv_machines v"
    "w_now (p_set_available srv_ports x y z k v) = w_now v"
    "srv_claims (p_set_available srv_ports x y z k v) = srv_claims v" for x y z k v
    by (simp_all add: srv_ports_def srv_machines_def srv_claims_def)
  have "srv_machines w' = srv_machines w \<and> w_now w' = w_now w \<and> srv_claims w' = srv_claims w"
  proof (cases "p_get_pool srv_ports w n")
    case (Inl e)
    with assms show ?thesis by (simp add: Reconcile_ENIPool_def)
  next
    case (Inr pool)
    from assms [unfolded Reconcile_ENIPool_eq [OF Inr srv_ports_simps(5)]] show ?thesis
      by (auto simp: avail dest!: upd split: prod.splits option.splits if_splits)
  qed
  then show "srv_machines w' = srv_machines w" "w_now w' = w_now w" "srv_claims w' = srv_claims w" by simp_all
qed

lemma create_frames:
  assumes "srv_create_claim c w = (x, w')"
  shows "srv_machines w' = srv_machines w" "w_now w' = w_now w"
  using assms by (auto simp: srv_create_claim_def split: if_splits)

section \<open>The invariant\<close>

text \<open>
  A stored machine has no interface, or exactly one, whose claim is stored, is the machine's and is not
  being deleted. An admission that holds a young claim will find it in the store when it persists.
\<close>

definition created_at :: "ENIClaim \<Rightarrow> instant" where
  "created_at c = m_creationTimestamp (claim_meta c)"

definition backed :: "(string \<rightharpoonup> ENIClaim) \<Rightarrow> AWSMachine \<Rightarrow> bool" where
  "backed cs m \<longleftrightarrow> map_index (am_annotations m) AllocatorPausedAnnotation \<noteq> ''true'' \<and>
     (am_networkInterfaces m = [] \<or>
      (\<exists>i c. am_networkInterfaces m = [i] \<and> cs i = Some c \<and> claim_machine c = machine_ref m \<and> \<not> releasing c))"

definition promised :: "(string \<rightharpoonup> ENIClaim) \<Rightarrow> instant \<Rightarrow> admission \<Rightarrow> bool" where
  "promised cs now adm = (case adm of
     Trying m p rs \<Rightarrow> submittable m
   | Holding m c \<Rightarrow> submittable m \<and> (now - created_at c < 30 * Second \<longrightarrow>
       (\<exists>d. cs (claim_eni c) = Some d \<and> claim_machine d = machine_ref m \<and> \<not> releasing d \<and> created_at d = created_at c)))"

definition safe :: "system \<Rightarrow> bool" where
  "safe s \<longleftrightarrow> (\<forall>m\<in>ran (srv_machines (sys_world s)). backed (srv_claims (sys_world s)) m) \<and>
     (\<forall>adm\<in>ran (sys_adms s). promised (srv_claims (sys_world s)) (w_now (sys_world s)) adm)"

text \<open>A claim outlives a step: it is stored after it, for the same machine, and not being deleted.\<close>

definition kept :: "(string \<rightharpoonup> ENIClaim) \<Rightarrow> string \<Rightarrow> ENIClaim \<Rightarrow> bool" where
  "kept cs' i c \<longleftrightarrow> (\<exists>c'. cs' i = Some c' \<and> claim_spec c' = claim_spec c \<and> \<not> releasing c' \<and> created_at c' = created_at c)"

lemma kept_same: "cs' i = Some c \<Longrightarrow> \<not> releasing c \<Longrightarrow> kept cs' i c"
  by (simp add: kept_def)

definition needed :: "world \<Rightarrow> ENIClaim \<Rightarrow> bool" where
  "needed w c \<longleftrightarrow> srv_machines w (nref_namespace (claim_machine c), nref_name (claim_machine c)) \<noteq> None \<or>
     w_now w - created_at c < 30 * Second"

lemma backed_kept:
  assumes "backed cs m" "\<And>i c. cs i = Some c \<Longrightarrow> \<not> releasing c \<Longrightarrow> claim_machine c = machine_ref m \<Longrightarrow> kept cs' i c"
  shows "backed cs' m"
proof (cases "am_networkInterfaces m = []")
  case True
  with assms(1) show ?thesis by (simp add: backed_def)
next
  case False
  with assms(1) obtain i c where i: "am_networkInterfaces m = [i]" "cs i = Some c" "claim_machine c = machine_ref m" "\<not> releasing c"
    and p: "map_index (am_annotations m) AllocatorPausedAnnotation \<noteq> ''true''"
    by (auto simp: backed_def)
  from assms(2) [OF i(2,4,3)] obtain c' where "cs' i = Some c'" "claim_spec c' = claim_spec c" "\<not> releasing c'"
    by (auto simp: kept_def)
  with i(1,3) p show ?thesis by (auto simp: backed_def)
qed

lemma promised_kept:
  assumes "promised cs t adm" "t \<le> t'"
    and "\<And>i c. cs i = Some c \<Longrightarrow> \<not> releasing c \<Longrightarrow> t' - created_at c < 30 * Second \<Longrightarrow> kept cs' i c"
  shows "promised cs' t' adm"
proof (cases adm)
  case (Holding m c)
  show ?thesis
  proof (cases "t' - created_at c < 30 * Second")
    case True
    with assms(1,2) Holding obtain d where d: "submittable m" "cs (claim_eni c) = Some d" "claim_machine d = machine_ref m"
      "\<not> releasing d" "created_at d = created_at c" by (auto simp: promised_def)
    with assms(3) [OF d(2,4)] True have "kept cs' (claim_eni c) d" by simp
    then obtain d' where "cs' (claim_eni c) = Some d'" "claim_spec d' = claim_spec d" "\<not> releasing d'" "created_at d' = created_at d"
      by (auto simp: kept_def)
    with d Holding show ?thesis by (auto simp: promised_def)
  qed (use assms(1) Holding in \<open>simp add: promised_def\<close>)
qed (use assms(1) in \<open>simp add: promised_def\<close>)

text \<open>A step that keeps every needed claim, stores only backed machines and starts only promised admissions.\<close>

lemma safe_step:
  assumes s: "safe s" and time: "w_now (sys_world s) \<le> w_now w"
    and claims: "\<And>i c. srv_claims (sys_world s) i = Some c \<Longrightarrow> \<not> releasing c \<Longrightarrow> needed (sys_world s) c \<Longrightarrow> kept (srv_claims w) i c"
    and machines: "\<And>m. m \<in> ran (srv_machines w) \<Longrightarrow> m \<in> ran (srv_machines (sys_world s)) \<or> backed (srv_claims w) m"
    and admissions: "\<And>adm. adm \<in> ran adms \<Longrightarrow> adm \<in> ran (sys_adms s) \<or> promised (srv_claims w) (w_now w) adm"
  shows "safe (s\<lparr>sys_world := w, sys_adms := adms\<rparr>)"
proof -
  have "backed (srv_claims w) m" if m: "m \<in> ran (srv_machines w)" for m
  proof (cases "m \<in> ran (srv_machines (sys_world s))")
    case True
    then obtain k where k: "srv_machines (sys_world s) k = Some m" by (auto simp: ran_def)
    have key: "k = (am_namespace m, am_name m)" using srv_machines_named [OF k] by (simp add: meta_key_def)
    from True s have "backed (srv_claims (sys_world s)) m" by (simp add: safe_def)
    then show ?thesis
    proof (rule backed_kept)
      fix i c
      assume c: "srv_claims (sys_world s) i = Some c" "\<not> releasing c" "claim_machine c = machine_ref m"
      from c(3) k key have "needed (sys_world s) c" by (simp add: needed_def machine_ref_def)
      with c show "kept (srv_claims w) i c" by (intro claims)
    qed
  next
    case False
    with machines [OF m] show ?thesis by simp
  qed
  moreover have "promised (srv_claims w) (w_now w) adm" if a: "adm \<in> ran adms" for adm
  proof (cases "adm \<in> ran (sys_adms s)")
    case True
    with s have "promised (srv_claims (sys_world s)) (w_now (sys_world s)) adm" by (simp add: safe_def)
    then show ?thesis
      using time by (rule promised_kept) (use time in \<open>auto intro!: claims simp: needed_def\<close>)
  next
    case False
    with admissions [OF a] show ?thesis by simp
  qed
  ultimately show ?thesis by (simp add: safe_def)
qed

lemma ran_upd: "x \<in> ran (m(a \<mapsto> y)) \<Longrightarrow> x \<in> ran m \<or> x = y" "x \<in> ran (m(a := None)) \<Longrightarrow> x \<in> ran m"
  by (auto simp: ran_def split: if_splits)

lemma safe_world:
  assumes "safe s" "w_now (sys_world s) \<le> w_now w"
    "\<And>i c. srv_claims (sys_world s) i = Some c \<Longrightarrow> \<not> releasing c \<Longrightarrow> needed (sys_world s) c \<Longrightarrow> kept (srv_claims w) i c"
    "\<And>m. m \<in> ran (srv_machines w) \<Longrightarrow> m \<in> ran (srv_machines (sys_world s)) \<or> backed (srv_claims w) m"
  shows "safe (s\<lparr>sys_world := w\<rparr>)"
proof -
  have "safe (s\<lparr>sys_world := w, sys_adms := sys_adms s\<rparr>)"
    by (rule safe_step [OF assms]) simp_all
  then show ?thesis by simp
qed

lemma safe_adm: "safe s \<Longrightarrow> sys_adms s a = Some adm \<Longrightarrow> promised (srv_claims (sys_world s)) (w_now (sys_world s)) adm"
  by (simp add: safe_def ranI)

lemma safe_same_claims:
  assumes "safe s" "w_now (sys_world s) \<le> w_now w" "srv_claims w = srv_claims (sys_world s)"
    "\<And>m. m \<in> ran (srv_machines w) \<Longrightarrow> m \<in> ran (srv_machines (sys_world s)) \<or> backed (srv_claims w) m"
    "\<And>adm. adm \<in> ran adms \<Longrightarrow> adm \<in> ran (sys_adms s) \<or> promised (srv_claims w) (w_now w) adm"
  shows "safe (s\<lparr>sys_world := w, sys_adms := adms\<rparr>)"
  by (rule safe_step) (use assms in \<open>auto intro: kept_same\<close>)

lemma submittable_backed: "submittable m \<Longrightarrow> backed cs m"
  by (simp add: submittable_def backed_def)

lemma injected_backed:
  assumes "submittable m" "cs i = Some c" "claim_machine c = machine_ref m" "\<not> releasing c"
  shows "backed cs (injected m i)"
proof -
  have "map_index (am_annotations (injected m i)) AllocatorPausedAnnotation =
      map_index (am_annotations m) AllocatorPausedAnnotation"
    by (auto simp: map_index_def entries_def split: option.splits)
  moreover have "machine_ref (injected m i) = machine_ref m" by (simp add: machine_ref_def)
  ultimately show ?thesis using assms by (auto simp: backed_def submittable_def)
qed

lemma safe_created:
  assumes "safe s" "sys_adms s a = Some (Trying m p (r # rs))"
    "srv_create_claim (new_claim (machine_ref m) p r) (sys_world s) = (Inr c, w)"
  shows "safe (s\<lparr>sys_world := w, sys_adms := (sys_adms s)(a \<mapsto> Holding m c)\<rparr>)"
proof (rule safe_step [OF assms(1)])
  note new = srv.create_new_claim [OF assms(3)]
  note frames = create_frames [OF assms(3)]
  have rel: "\<not> releasing c" using srv.create_keeps [OF assms(3)] by (simp add: releasing_def)
  show "w_now (sys_world s) \<le> w_now w" by (simp add: frames)
  show "kept (srv_claims w) i d" if "srv_claims (sys_world s) i = Some d" "\<not> releasing d" for i d
    using that new by (intro kept_same) auto
  show "x \<in> ran (srv_machines (sys_world s)) \<or> backed (srv_claims w) x" if "x \<in> ran (srv_machines w)" for x
    using that by (simp add: frames)
  have "submittable m" using safe_adm [OF assms(1,2)] by (simp add: promised_def)
  then have "promised (srv_claims w) (w_now w) (Holding m c)"
    using new rel by (auto simp: promised_def reserves_def)
  then show "adm \<in> ran (sys_adms s) \<or> promised (srv_claims w) (w_now w) adm"
    if "adm \<in> ran ((sys_adms s)(a \<mapsto> Holding m c))" for adm
    using ran_upd(1) [OF that] by auto
qed

lemma safe_claim_call:
  assumes "safe s" "Reconcile_ENIClaim srv_ports (w_now (sys_world s)) n (sys_world s) = (r, w)"
  shows "safe (s\<lparr>sys_world := w\<rparr>)"
proof (rule safe_world [OF assms(1)])
  note frames = claim_call_frames [OF assms(2)]
  show "w_now (sys_world s) \<le> w_now w" by (simp add: frames)
  show "x \<in> ran (srv_machines (sys_world s)) \<or> backed (srv_claims w) x" if "x \<in> ran (srv_machines w)" for x
    using that by (simp add: frames)
  fix i c
  assume c: "srv_claims (sys_world s) i = Some c" "\<not> releasing c" "needed (sys_world s) c"
  show "kept (srv_claims w) i c"
  proof (cases "i = n")
    case True
    have "p_get_awsmachine srv_ports (sys_world s) (nref_namespace (claim_machine c)) (nref_name (claim_machine c)) \<noteq>
        Inl NotFound \<or> \<not> expired (w_now (sys_world s)) c"
      using c(3) by (auto simp: needed_def expired_def created_at_def srv_get_awsmachine_def)
    from srv_claim_api.Reconcile_claim_keeps [OF c(1) [unfolded True] c(2) this assms(2)] True
    show ?thesis by (auto simp: kept_def created_at_def)
  next
    case False
    with srv_claim_api.Reconcile_claim_others [OF assms(2) False] c show ?thesis by (simp add: kept_same)
  qed
qed

lemma safe_machine_call:
  assumes "safe s" "Reconcile_AWSMachine srv_ports ns n (sys_world s) = (r, w)"
  shows "w = sys_world s"
proof (cases "srv_machines (sys_world s) (ns, n)")
  case None
  then show ?thesis using srv_api.Reconcile_missing [OF _ assms(2)] by blast
next
  case (Some m)
  with assms(1) have "backed (srv_claims (sys_world s)) m" by (auto simp: safe_def dest: ranI)
  then have "\<not> served m" by (simp add: backed_def served_def)
  moreover have "p_get_awsmachine srv_ports (sys_world s) ns n = Inr m" using Some by (simp add: srv_get_awsmachine_def)
  ultimately show ?thesis using assms(2) by (simp add: Reconcile_not_served)
qed

lemma safe_preserved:
  assumes "sys_step s s'" "safe s"
  shows "safe s'"
  using assms
proof (induction rule: sys_step.induct)
  case (submit a s m pool k cfg)
  let ?adm = "Trying m (pool_name pool) (sort_Slice ip_less cfg)"
  have "safe (s\<lparr>sys_world := sys_world s, sys_adms := (sys_adms s)(a \<mapsto> ?adm)\<rparr>)"
  proof (rule safe_same_claims [OF submit.prems])
    show "x \<in> ran (sys_adms s) \<or> promised (srv_claims (sys_world s)) (w_now (sys_world s)) x"
      if "x \<in> ran ((sys_adms s)(a \<mapsto> ?adm))" for x
      using ran_upd(1) [OF that] submit.hyps(2) by (auto simp: promised_def)
  qed simp_all
  then show ?case by simp
next
  case (created s a m p r rs c w)
  then show ?case by (intro safe_created)
next
  case (taken s a m p r rs w)
  have w: "w = sys_world s" using srv_create_cases(2) [OF taken.hyps(2)] .
  have sub: "submittable m" using safe_adm [OF taken.prems taken.hyps(1)] by (simp add: promised_def)
  show ?case unfolding w
  proof (rule safe_same_claims [OF taken.prems])
    show "x \<in> ran (sys_adms s) \<or> promised (srv_claims (sys_world s)) (w_now (sys_world s)) x"
      if "x \<in> ran ((sys_adms s)(a \<mapsto> Trying m p rs))" for x
      using ran_upd(1) [OF that] sub by (auto simp: promised_def)
  qed simp_all
next
  case (persist s a m c)
  have "promised (srv_claims (sys_world s)) (w_now (sys_world s)) (Holding m c)"
    by (rule safe_adm [OF persist.prems persist.hyps(1)])
  with persist.hyps(3) obtain d where d: "submittable m" "srv_claims (sys_world s) (claim_eni c) = Some d"
    "claim_machine d = machine_ref m" "\<not> releasing d"
    by (auto simp: promised_def created_at_def)
  let ?w = "store_machine (injected m (claim_eni c)) (sys_world s)"
  show ?case
  proof (rule safe_same_claims [OF persist.prems])
    show "x \<in> ran (srv_machines (sys_world s)) \<or> backed (srv_claims ?w) x" if "x \<in> ran (srv_machines ?w)" for x
      using ran_upd(1) [OF that [unfolded srv_machines_store]] injected_backed [of m "srv_claims (sys_world s)", OF d] by auto
    show "x \<in> ran (sys_adms s) \<or> promised (srv_claims ?w) (w_now ?w) x" if "x \<in> ran ((sys_adms s)(a := None))" for x
      using ran_upd(2) [OF that] by simp
  qed simp_all
next
  case (persist_plain m s a)
  let ?w = "store_machine m (sys_world s)"
  show ?case
  proof (rule safe_same_claims [OF persist_plain.prems])
    show "x \<in> ran (srv_machines (sys_world s)) \<or> backed (srv_claims ?w) x" if "x \<in> ran (srv_machines ?w)" for x
      using ran_upd(1) [OF that [unfolded srv_machines_store]] submittable_backed [OF persist_plain.hyps(1)] by auto
    show "x \<in> ran (sys_adms s) \<or> promised (srv_claims ?w) (w_now ?w) x" if "x \<in> ran ((sys_adms s)(a := None))" for x
      using ran_upd(2) [OF that] by simp
  qed simp_all
next
  case (abandon s a)
  then show ?case by (auto simp: safe_def dest: ran_upd(2))
next
  case (machine_gone s k)
  show ?case
    by (rule safe_world [OF machine_gone.prems])
      (auto simp: srv_machines_remove intro: kept_same dest: ran_upd(2))
next
  case (tick d s)
  show ?case by (rule safe_world [OF tick.prems]) (auto simp: tick.hyps intro: kept_same)
next
  case (pools s ps)
  show ?case by (rule safe_world [OF pools.prems]) (auto intro: kept_same)
next
  case (claim_call s n r w)
  then show ?case by (intro safe_claim_call)
next
  case (machine_call ns n s r w)
  from safe_machine_call [OF machine_call.prems machine_call.hyps] machine_call.prems show ?case by simp
next
  case (pool_call n s r w)
  note frames = pool_call_frames [OF pool_call.hyps]
  show ?case by (rule safe_world [OF pool_call.prems]) (auto simp: frames intro: kept_same)
qed

lemma safe_start: "start s \<Longrightarrow> safe s"
  by (simp add: safe_def start_def srv_machines_def)

lemma reachable_safe: "reachable s \<Longrightarrow> safe s"
proof -
  have "sys_step\<^sup>*\<^sup>* s0 s \<Longrightarrow> safe s0 \<Longrightarrow> safe s" for s0
    by (induction rule: rtranclp_induct) (auto intro: safe_preserved)
  then show "reachable s \<Longrightarrow> safe s" by (auto simp: reachable_def safe_start)
qed

lemma reachable_step: "reachable s \<Longrightarrow> sys_step s s' \<Longrightarrow> reachable s'"
  by (auto simp: reachable_def intro: rtranclp.rtrancl_into_rtrancl)

section \<open>Admissions run as their steps\<close>

lemma create_first_steps:
  assumes "create_first srv_create_claim (machine_ref m) p rs (sys_world s) = (Inr (Some c), w)"
    and "sys_adms s a = Some (Trying m p rs)"
  shows "sys_step\<^sup>*\<^sup>* s (s\<lparr>sys_world := w, sys_adms := (sys_adms s)(a \<mapsto> Holding m c)\<rparr>) \<and>
    w_now w = w_now (sys_world s) \<and> srv_machines w = srv_machines (sys_world s) \<and> created_at c = w_now w"
  using assms
proof (induction rs arbitrary: s)
  case (Cons r rs)
  obtain x u where x: "srv_create_claim (new_claim (machine_ref m) p r) (sys_world s) = (x, u)" by force
  note frames = create_frames [OF x]
  show ?case
  proof (cases x)
    case (Inr d)
    with Cons.prems x have d: "c = d" "w = u" by auto
    have "sys_step s (s\<lparr>sys_world := w, sys_adms := (sys_adms s)(a \<mapsto> Holding m c)\<rparr>)"
      using x Inr d by (auto intro: sys_step.created [OF Cons.prems(2)])
    then have "sys_step\<^sup>*\<^sup>* s (s\<lparr>sys_world := w, sys_adms := (sys_adms s)(a \<mapsto> Holding m c)\<rparr>)"
      by (rule r_into_rtranclp)
    moreover have "created_at c = w_now w"
      using frames d srv_create_cases(1) [OF x [unfolded Inr]] by (simp add: created_at_def)
    ultimately show ?thesis using frames d by (simp del: fun_upd_apply)
  next
    case (Inl e)
    with Cons.prems(1) x have e: "e = AlreadyExists" "create_first srv_create_claim (machine_ref m) p rs u = (Inr (Some c), w)"
      by (auto split: if_splits)
    let ?s = "s\<lparr>sys_world := u, sys_adms := (sys_adms s)(a \<mapsto> Trying m p rs)\<rparr>"
    have "sys_step s ?s" using x Inl e by (auto intro: sys_step.taken [OF Cons.prems(2)])
    moreover have "sys_step\<^sup>*\<^sup>* ?s (s\<lparr>sys_world := w, sys_adms := (sys_adms s)(a \<mapsto> Holding m c)\<rparr>) \<and>
        w_now w = w_now u \<and> srv_machines w = srv_machines u \<and> created_at c = w_now w"
      using Cons.IH [of ?s] e by (simp del: fun_upd_apply add: fun_upd_same)
    ultimately show ?thesis using frames converse_rtranclp_into_rtranclp [of sys_step s ?s]
      by (simp del: fun_upd_apply)
  qed
qed simp

lemma admission_steps:
  assumes "Default_AWSMachine (Some srv_ports) request m (sys_world s) = ((r, m'), w)" "m' \<noteq> m"
    and "submittable m" "srv_machines (sys_world s) (am_key m) = None" "sys_adms s a = None"
  shows "sys_step\<^sup>*\<^sup>* s (s\<lparr>sys_world := store_machine m' w\<rparr>)"
proof -
  obtain pool k c where t: "wants_eni request m" "wh_target srv_ports m (sys_world s) pool k" "m' = injected m (claim_eni c)"
    using Default_changed [OF srv_claim_store assms(1,2)] by blast
  obtain oc u where o: "allocate srv_create_claim (machine_ref m) pool k (sys_world s) = (oc, u)" by force
  with assms(1) t obtain d where d: "oc = Inr (Some d)" "w = u" "m' = injected m (claim_eni d)"
    using assms(2) by (auto simp: Default_at_target wh_claimInterface_def split: sum.splits option.splits)
  from o d obtain cfg where cfg: "configured_for pool k = Inr cfg"
    "create_first srv_create_claim (machine_ref m) (pool_name pool) (sort_Slice ip_less cfg) (sys_world s) = (Inr (Some d), w)"
    by (auto simp: allocate_def split: sum.splits)
  let ?s1 = "s\<lparr>sys_adms := (sys_adms s)(a \<mapsto> Trying m (pool_name pool) (sort_Slice ip_less cfg))\<rparr>"
  let ?s2 = "s\<lparr>sys_world := w, sys_adms := (sys_adms s)(a \<mapsto> Holding m d)\<rparr>"
  have one: "sys_step s ?s1" using assms(3,5) cfg(1) by (intro sys_step.submit) auto
  have run: "sys_step\<^sup>*\<^sup>* ?s1 ?s2 \<and> w_now w = w_now (sys_world s) \<and> srv_machines w = srv_machines (sys_world s) \<and>
      created_at d = w_now w"
    using create_first_steps [of m "pool_name pool" _ ?s1 d w a] cfg(2) by simp
  have "sys_step ?s2 (?s2\<lparr>sys_world := store_machine (injected m (claim_eni d)) (sys_world ?s2),
      sys_adms := (sys_adms ?s2)(a := None)\<rparr>)"
    using run assms(4) by (intro sys_step.persist [of _ _ m d]) (auto simp: created_at_def Second_def)
  moreover have "(sys_adms s)(a := None) = sys_adms s" using assms(5) by (simp add: fun_upd_idem)
  ultimately have "sys_step ?s2 (s\<lparr>sys_world := store_machine m' w\<rparr>)" using d(3) by simp
  with one run show ?thesis by (meson converse_rtranclp_into_rtranclp rtranclp.rtrancl_into_rtrancl)
qed

text \<open>The example cluster as a state of the system; its admission of the machine \<^verbatim>\<open>a\<close> injects an ENI.\<close>

definition ex_system :: system where
  "ex_system = \<lparr>sys_world = ex_world, sys_adms = Map.empty\<rparr>"

lemma ex_system_free: "srv_machines (sys_world ex_system) k = None" "sys_adms ex_system 0 = None"
  by (simp_all add: ex_system_def srv_machines_def ex_world_def empty_world_def)

lemma ex_submittable: "submittable (ex_machine n)"
  by (simp add: submittable_def ex_machine_def map_index_Some)

lemma ex_admission: "\<exists>m' w. Default_AWSMachine (Some srv_ports) None (ex_machine ''a'') ex_world = ((None, m'), w) \<and>
    am_networkInterfaces m' = [''eni-0123''] \<and> m' \<noteq> ex_machine ''a''"
proof -
  let ?run = "Default_AWSMachine (Some srv_ports) None (ex_machine ''a'') ex_world"
  have "fst (fst ?run) = None" "am_networkInterfaces (snd (fst ?run)) = [''eni-0123'']" by code_simp+
  then obtain m' w where run: "?run = ((None, m'), w)" "am_networkInterfaces m' = [''eni-0123'']"
    by (metis prod.collapse)
  moreover have "am_networkInterfaces (ex_machine ''a'') = []" by (simp add: ex_machine_def)
  ultimately show ?thesis by force
qed

text \<open>
  The webhook's handler on the reference server is one uninterrupted run of the transition system: if
  it injects an ENI, the steps of one admission lead from the state before the call to the state with the
  claims after it, and on to the state in which the changed machine is stored.
\<close>
theorem admission_is_run:
  assumes "Default_AWSMachine (Some srv_ports) request m (sys_world s) = ((r, m'), w)" "m' \<noteq> m"
    and "submittable m" "srv_machines (sys_world s) (am_key m) = None" "sys_adms s a = None"
  shows "sys_step\<^sup>*\<^sup>* s (s\<lparr>sys_world := store_machine m' w\<rparr>)"
  using assms by (rule admission_steps)

theorem admission_is_run_witness:
  "\<exists>w m. sys_step\<^sup>*\<^sup>* ex_system (ex_system\<lparr>sys_world := store_machine m w\<rparr>) \<and> am_networkInterfaces m = [''eni-0123'']"
proof -
  obtain m w where run: "Default_AWSMachine (Some srv_ports) None (ex_machine ''a'') (sys_world ex_system) = ((None, m), w)"
    "am_networkInterfaces m = [''eni-0123'']" "m \<noteq> ex_machine ''a''"
    using ex_admission by (auto simp: ex_system_def)
  from admission_is_run [OF run(1,3) ex_submittable ex_system_free] run(2) show ?thesis by blast
qed

section \<open>Exclusivity\<close>

text \<open>
  However admissions, reconciliations, deletions and time interleave, an ENI that a stored machine has
  is held by a claim of that machine that is not being deleted, and no other stored machine has it.
\<close>
theorem no_shared_eni:
  assumes "reachable s" and "srv_machines (sys_world s) k = Some m" and "i \<in> set (am_networkInterfaces m)"
  shows "am_networkInterfaces m = [i] \<and>
    (\<exists>c. srv_claims (sys_world s) i = Some c \<and> claim_machine c = machine_ref m \<and> \<not> releasing c) \<and>
    (\<forall>k' m'. srv_machines (sys_world s) k' = Some m' \<longrightarrow> i \<in> set (am_networkInterfaces m') \<longrightarrow> k' = k)"
proof -
  have backed: "backed (srv_claims (sys_world s)) x" if "srv_machines (sys_world s) l = Some x" for l x
    using reachable_safe [OF assms(1)] ranI [of "srv_machines (sys_world s)", OF that] by (simp add: safe_def)
  from backed [OF assms(2)] assms(3) obtain c where c: "am_networkInterfaces m = [i]"
    "srv_claims (sys_world s) i = Some c" "claim_machine c = machine_ref m" "\<not> releasing c"
    by (auto simp: backed_def)
  have "k' = k" if m': "srv_machines (sys_world s) k' = Some m'" "i \<in> set (am_networkInterfaces m')" for k' m'
  proof -
    from backed [OF m'(1)] m'(2) c(2) have "claim_machine c = machine_ref m'" by (auto simp: backed_def)
    with c(3) have "am_key m = am_key m'" by (simp add: machine_ref_eq_iff meta_key_def)
    then show ?thesis using srv_machines_named [OF m'(1)] srv_machines_named [OF assms(2)] by simp
  qed
  with c show ?thesis by blast
qed

theorem no_shared_eni_witness:
  "\<exists>s m c. reachable s \<and> srv_machines (sys_world s) (''workload'', ''a'') = Some m \<and>
     am_networkInterfaces m = [''eni-0123''] \<and> srv_claims (sys_world s) ''eni-0123'' = Some c \<and>
     claim_machine c = machine_ref m \<and> \<not> releasing c"
proof -
  obtain m w where run: "Default_AWSMachine (Some srv_ports) None (ex_machine ''a'') (sys_world ex_system) = ((None, m), w)"
    "am_networkInterfaces m = [''eni-0123'']" "m \<noteq> ex_machine ''a''"
    using ex_admission by (auto simp: ex_system_def)
  let ?s = "ex_system\<lparr>sys_world := store_machine m w\<rparr>"
  have "start ex_system" by (simp add: start_def ex_system_def ex_world_def empty_world_def)
  with admission_steps [OF run(1,3) ex_submittable ex_system_free] have r: "reachable ?s"
    by (auto simp: reachable_def)
  obtain i where "m = injected (ex_machine ''a'') i"
    using Default_changed [OF srv_claim_store run(1,3)] by blast
  then have "am_key m = (''workload'', ''a'')"
    by (simp add: injected_def set_annotations_def meta_key_def ex_machine_def meta_def)
  then have "srv_machines (sys_world ?s) (''workload'', ''a'') = Some m" by (simp add: srv_machines_store)
  note stored = this
  have "''eni-0123'' \<in> set (am_networkInterfaces m)" by (simp only: run(2)) simp
  from no_shared_eni [OF r stored this]
  obtain c where "srv_claims (sys_world ?s) ''eni-0123'' = Some c" "claim_machine c = machine_ref m"
    "\<not> releasing c"
    by blast
  with r stored run(2) show ?thesis by blast
qed

section \<open>Two ways to lose exclusivity\<close>

text \<open>The admission of \<open>m\<close>, and its outcome: the object to be stored and the next world.\<close>

definition admit :: "AWSMachine \<Rightarrow> world \<Rightarrow> AWSMachine \<times> world" where
  "admit m w = (case Default_AWSMachine (Some srv_ports) None m w of ((_, m'), w') \<Rightarrow> (m', w'))"

definition claim_tick :: "string \<Rightarrow> duration \<Rightarrow> world \<Rightarrow> world" where
  "claim_tick n d w = snd (Reconcile_ENIClaim srv_ports (w_now w + d) n (w\<lparr>w_now := w_now w + d\<rparr>))"

text \<open>
  The grace period is a real condition: if the API server takes 30 seconds to store an admitted
  machine, the claim reconciler reclaims its claim in two calls, the next admission gets the same ENI,
  and both machines are submitted with it.
\<close>
theorem late_persist_shares_eni:
  "let (a, w1) = admit (ex_machine ''a'') ex_world;
       w2 = claim_tick ''eni-0123'' (30 * Second) w1;
       w3 = claim_tick ''eni-0123'' 0 w2;
       (b, w4) = admit (ex_machine ''b'') w3
   in am_networkInterfaces a = [''eni-0123''] \<and> am_networkInterfaces b = [''eni-0123''] \<and>
      map_option claim_machine (srv_claims w4 ''eni-0123'') = Some (ex_ref ''b'')"
  by code_simp


end
