(* ===== verification/Isolated_Calls.thy ===== *)
theory Isolated_Calls
  imports Handler_Runs System
begin

text \<open>
  The processes of \<open>Handler_Runs\<close> are the handlers: a process that runs alone, on coherent reads, with
  each write answered by the server, makes the writes of the handler's call on the reference server,
  returns what it returns, and leaves the same objects. The proof is compositional: \<open>performs f\<close> relates
  a fragment of a handler to the log of its writes, and fragments compose like the code does.
\<close>

section \<open>A process alone\<close>

definition coherent :: "world \<Rightarrow> views" where
  "coherent w = \<lparr>see_claims = w, see_machines = w, see_rest = w\<rparr>"

lemma coherent_simps [simp]: "see_claims (coherent w) = w" "see_machines (coherent w) = w" "see_rest (coherent w) = w"
  by (simp_all add: coherent_def)

definition answered :: "process \<Rightarrow> answer \<Rightarrow> views \<Rightarrow> process" where
  "answered p a v = p\<lparr>pr_rounds := pr_rounds p @ [(a, v)]\<rparr>"

text \<open>The process run to its end, each write taken by the server at once; \<open>None\<close> when the fuel is used up.\<close>

fun alone :: "nat \<Rightarrow> process \<Rightarrow> world \<Rightarrow> (process \<times> world) option" where
  "alone 0 p w = None"
| "alone (Suc k) p w = (case awaits p of
     None \<Rightarrow> Some (p, w)
   | Some rq \<Rightarrow> (case exec rq w of (a, w') \<Rightarrow> alone k (answered p a (coherent w')) w'))"

text \<open>The objects of a state, without the metrics and the events, which a script does not record.\<close>

definition objects :: "world \<Rightarrow> world" where
  "objects w = w\<lparr>w_fallbacks := (\<lambda>_. 0), w_available := (\<lambda>_. 0), w_events := []\<rparr>"

section \<open>Fragments and their logs\<close>

abbreviation at :: "views \<Rightarrow> (answer \<times> views) list \<Rightarrow> script" where
  "at v rs \<equiv> \<lparr>sees = v, answers = rs, waits = None\<rparr>"

fun logged :: "(script \<Rightarrow> 'r \<times> script) \<Rightarrow> views \<Rightarrow> (answer \<times> views) list \<Rightarrow> (answer \<times> views) list \<Rightarrow> world \<Rightarrow> world \<Rightarrow> bool" where
  "logged f v pre [] w w' = (w' = w)"
| "logged f v pre ((a, u) # log) w w' = (\<exists>rq w1. waits (snd (f (at v pre))) = Some rq \<and> exec rq w = (a, w1) \<and>
     u = coherent w1 \<and> logged f v (pre @ [(a, u)]) log w1 w')"

text \<open>\<open>f\<close> started in \<open>w\<close> makes the writes of \<open>log\<close>, returns \<open>r\<close> and ends in \<open>w'\<close>.\<close>

definition performs :: "(script \<Rightarrow> 'r \<times> script) \<Rightarrow> (answer \<times> views) list \<Rightarrow> world \<Rightarrow> 'r \<Rightarrow> world \<Rightarrow> bool" where
  "performs f log w r w' \<longleftrightarrow> (\<forall>rest. f (at (coherent w) (log @ rest)) = (r, at (coherent w') rest)) \<and>
     logged f (coherent w) [] log w w'"

text \<open>A fragment that is waiting goes on waiting for the same write.\<close>

definition patient :: "(script \<Rightarrow> 'r \<times> script) \<Rightarrow> bool" where
  "patient f \<longleftrightarrow> (\<forall>s. waits s \<noteq> None \<longrightarrow> waits (snd (f s)) = waits s)"

lemma logged_cong:
  assumes "\<And>rs. f (at v rs) = g (at v rs)"
  shows "logged f v pre log w w' = logged g v pre log w w'"
  by (induction log arbitrary: pre w) (auto simp: assms)

lemma performs_cong:
  assumes "performs f log w r w'" "\<And>rs. f (at (coherent w) rs) = g (at (coherent w) rs)"
  shows "performs g log w r w'"
  using assms(1) logged_cong [of f "coherent w" g, OF assms(2)] by (simp add: performs_def assms(2))

lemma performs_return: "performs (\<lambda>s. (r, s)) [] w r w"
  by (simp add: performs_def)

lemma performs_ask:
  assumes "exec rq w = (a, w')"
  shows "performs (ask_claim rq) [(a, coherent w')] w (claim_answer (Some a)) w'"
    "performs (ask_done rq) [(a, coherent w')] w (done_answer (Some a)) w'"
  using assms by (simp_all add: performs_def ask_claim_simps ask_done_simps)

lemma patient_ask: "patient (ask_claim rq)" "patient (ask_done rq)" "patient (\<lambda>s. (r, s))"
proof -
  have "waits (snd (ask rq s)) = waits s" if "waits s \<noteq> None" for s
    using that by (auto simp: ask_def split: list.split)
  then show "patient (ask_claim rq)" "patient (ask_done rq)" by (simp_all add: patient_def ask_claim_def ask_done_def)
qed (simp add: patient_def)

text \<open>Sequencing: the case on the result that every \<open>if err != nil\<close> of the code is.\<close>

definition andthen :: "('s \<Rightarrow> 'a \<times> 's) \<Rightarrow> ('a \<Rightarrow> 's \<Rightarrow> 'b \<times> 's) \<Rightarrow> 's \<Rightarrow> 'b \<times> 's" where
  "andthen f g s = (case f s of (x, s') \<Rightarrow> g x s')"

lemma patient_andthen: "patient f \<Longrightarrow> (\<And>x. patient (g x)) \<Longrightarrow> patient (andthen f g)"
  by (fastforce simp: patient_def andthen_def split: prod.split)

lemma logged_first:
  assumes "\<And>x. patient (g x)"
  shows "logged f v pre log w w' \<Longrightarrow> logged (andthen f g) v pre log w w'"
proof (induction log arbitrary: pre w)
  case (Cons au log)
  obtain a u where au: "au = (a, u)" by force
  with Cons.prems obtain rq w1 where f: "waits (snd (f (at v pre))) = Some rq" "exec rq w = (a, w1)" "u = coherent w1"
    "logged f v (pre @ [(a, u)]) log w1 w'" by auto
  have "waits (snd (andthen f g (at v pre))) = Some rq"
    using f(1) assms by (auto simp: andthen_def patient_def split: prod.splits)
  with f Cons.IH [OF f(4)] au show ?case by auto
qed simp

lemma logged_second:
  assumes "\<And>rest. f (at v (log @ rest)) = (x, at u rest)"
  shows "logged (g x) u pre log' w w' \<Longrightarrow> logged (andthen f g) v (log @ pre) log' w w'"
proof (induction log' arbitrary: pre w)
  case (Cons au log')
  then show ?case using Cons.IH by (cases au) (auto simp: andthen_def assms)
qed simp

lemma logged_append:
  "logged f v pre log w w1 \<Longrightarrow> logged f v (pre @ log) log' w1 w' \<Longrightarrow> logged f v pre (log @ log') w w'"
  by (induction log arbitrary: pre w) auto

lemma performs_andthen:
  assumes "performs f log w x w1" "performs (g x) log' w1 r w'" "\<And>x. patient (g x)"
  shows "performs (andthen f g) (log @ log') w r w'"
proof -
  from assms(1) have f: "f (at (coherent w) (log @ rest)) = (x, at (coherent w1) rest)" for rest
    by (simp add: performs_def)
  have "andthen f g (at (coherent w) ((log @ log') @ rest)) = (r, at (coherent w') rest)" for rest
    using assms(2) f [of "log' @ rest"] by (simp add: andthen_def performs_def)
  moreover have "logged (andthen f g) (coherent w) [] (log @ log') w w'"
    using assms f logged_first [of g f "coherent w" "[]" log w w1]
      logged_second [of f "coherent w" log x "coherent w1" g "[]" log' w1 w']
    by (intro logged_append) (simp_all add: performs_def)
  ultimately show ?thesis by (simp add: performs_def)
qed

text \<open>A fragment that performs a log, run as a process.\<close>

lemma alone_logged:
  assumes "logged (run_call script_ports j) v pre log w w'"
    and "fst (run_call script_ports j (at v (pre @ log))) = r" "waits (snd (run_call script_ports j (at v (pre @ log)))) = None"
  shows "\<exists>p'. alone (Suc (length log)) \<lparr>pr_job = j, pr_first = v, pr_rounds = pre\<rparr> w = Some (p', w') \<and>
    pr_job p' = j \<and> awaits p' = None \<and> returns p' = r"
  using assms
proof (induction log arbitrary: pre w)
  case Nil
  then show ?case by (simp add: awaits_def returns_def script_of_def)
next
  case (Cons au log)
  obtain a u where au: "au = (a, u)" by force
  with Cons.prems obtain rq w1 where f: "waits (snd (run_call script_ports j (at v pre))) = Some rq" "exec rq w = (a, w1)"
    "u = coherent w1" "logged (run_call script_ports j) v (pre @ [(a, u)]) log w1 w'" by auto
  from Cons.IH [OF f(4)] Cons.prems(2,3) au obtain p' where
    "alone (Suc (length log)) \<lparr>pr_job = j, pr_first = v, pr_rounds = pre @ [(a, u)]\<rparr> w1 = Some (p', w')"
    "pr_job p' = j" "awaits p' = None" "returns p' = r" by auto
  with f(1-3) show ?case by (simp add: awaits_def script_of_def answered_def)
qed


section \<open>The fragments of the handlers\<close>

lemma script_reads [simp]:
  "p_get_machine script_ports (at (coherent w) rs) = p_get_machine srv_ports w"
  "p_get_cluster script_ports (at (coherent w) rs) = p_get_cluster srv_ports w"
  "p_get_awscluster script_ports (at (coherent w) rs) = p_get_awscluster srv_ports w"
  "p_parse_group script_ports = p_parse_group srv_ports"
  "p_ref_defined script_ports = p_ref_defined srv_ports"
  by (simp_all add: script_ports_def)

lemma same_reads:
  "wh_resolveClusterNetwork script_ports m (at (coherent w) rs) = wh_resolveClusterNetwork srv_ports m w"
  "wh_findPool script_ports region vpc (at (coherent w) rs) = wh_findPool srv_ports region vpc w"
  "wh_resolveInterfaceKey script_ports m (at (coherent w) rs) = wh_resolveInterfaceKey srv_ports m w"
  "rc_resolveClusterNetwork script_ports m (at (coherent w) rs) = rc_resolveClusterNetwork srv_ports m w"
  "rc_findPool script_ports region vpc (at (coherent w) rs) = rc_findPool srv_ports region vpc w"
  "rc_resolveInterfaceKey script_ports m (at (coherent w) rs) = rc_resolveInterfaceKey srv_ports m w"
proof -
  have owner: "is_machine_owner script_ports o' = is_machine_owner srv_ports o'" for o'
    by (simp add: is_machine_owner_def)
  have owners: "key_from_owners script_ports ns (at (coherent w) rs) os = key_from_owners srv_ports ns w os" for ns os
    by (induction os) (simp_all add: owner)
  have name: "find_owner_name script_ports os = find_owner_name srv_ports os" for os
    by (induction os) (simp_all add: owner)
  show "wh_resolveClusterNetwork script_ports m (at (coherent w) rs) = wh_resolveClusterNetwork srv_ports m w"
    "wh_findPool script_ports region vpc (at (coherent w) rs) = wh_findPool srv_ports region vpc w"
    "wh_resolveInterfaceKey script_ports m (at (coherent w) rs) = wh_resolveInterfaceKey srv_ports m w"
    by (simp_all add: wh_resolveClusterNetwork_def wh_findPool_def wh_resolveInterfaceKey_def owners cong: if_cong sum.case_cong)
  show "rc_resolveClusterNetwork script_ports m (at (coherent w) rs) = rc_resolveClusterNetwork srv_ports m w"
    "rc_findPool script_ports region vpc (at (coherent w) rs) = rc_findPool srv_ports region vpc w"
    "rc_resolveInterfaceKey script_ports m (at (coherent w) rs) = rc_resolveInterfaceKey srv_ports m w"
    by (simp_all add: rc_resolveClusterNetwork_def rc_findPool_def rc_resolveInterfaceKey_def owners name
        cong: if_cong sum.case_cong)
qed

abbreviation script_create :: "ENIClaim \<Rightarrow> script \<Rightarrow> (api_error + ENIClaim) \<times> script" where
  "script_create c \<equiv> ask_claim (Create c)"

definition next_candidate :: "(ENIClaim \<Rightarrow> 's \<Rightarrow> (api_error + ENIClaim) \<times> 's) \<Rightarrow> NamespacedObjectReference \<Rightarrow> string \<Rightarrow>
    ENIReference list \<Rightarrow> api_error + ENIClaim \<Rightarrow> 's \<Rightarrow> (error + ENIClaim option) \<times> 's" where
  "next_candidate create mref pool xs r s = (case r of
     Inl e \<Rightarrow> if e = AlreadyExists then create_first create mref pool xs s else (Inl (ApiError e), s)
   | Inr c \<Rightarrow> (Inr (Some c), s))"

lemma create_first_Cons: "create_first create mref pool (x # xs) =
    andthen (create (new_claim mref pool x)) (next_candidate create mref pool xs)"
  by (auto simp: andthen_def next_candidate_def fun_eq_iff)

lemma patient_create_first: "patient (create_first script_create mref pool xs)"
proof (induction xs)
  case Nil
  then show ?case by (simp add: patient_def)
next
  case (Cons x xs)
  then have "patient (next_candidate script_create mref pool xs r)" for r
    by (cases r) (auto simp: next_candidate_def patient_def)
  then show ?case by (simp only: create_first_Cons patient_andthen patient_ask)
qed

lemma patient_next_candidate: "patient (next_candidate script_create mref pool xs r)"
  using patient_create_first [of mref pool xs] by (cases r) (auto simp: next_candidate_def patient_def)

lemma create_first_performs:
  "create_first srv_create_claim mref pool xs w = (r, w') \<Longrightarrow> \<exists>log. performs (create_first script_create mref pool xs) log w r w'"
proof (induction xs arbitrary: w)
  case Nil
  then have "performs (create_first script_create mref pool []) [] w r w'" by (simp add: performs_def)
  then show ?case by blast
next
  case (Cons x xs)
  obtain a w1 where a: "srv_create_claim (new_claim mref pool x) w = (a, w1)" by force
  then have "performs (script_create (new_claim mref pool x)) [(Claim a, coherent w1)] w a w1"
    using performs_ask(1) [of "Create (new_claim mref pool x)" w "Claim a" w1] by (simp add: claim_answer_def)
  moreover have "\<exists>log. performs (next_candidate script_create mref pool xs a) log w1 r w'"
  proof (cases "a = Inl AlreadyExists")
    case True
    with Cons.prems a have "create_first srv_create_claim mref pool xs w1 = (r, w')" by simp
    moreover have "next_candidate script_create mref pool xs a = create_first script_create mref pool xs"
      using True by (simp add: next_candidate_def fun_eq_iff)
    ultimately show ?thesis using Cons.IH by simp
  next
    case False
    with Cons.prems a have "w' = w1" "next_candidate script_create mref pool xs a s = (r, s)" for s
      by (auto simp: next_candidate_def split: sum.splits if_splits)
    then have "performs (next_candidate script_create mref pool xs a) [] w1 r w'" by (simp add: performs_def)
    then show ?thesis by blast
  qed
  ultimately show ?case
    using performs_andthen [of "script_create (new_claim mref pool x)" _ w a w1 "next_candidate script_create mref pool xs"
        _ r w'] patient_next_candidate
    unfolding create_first_Cons by blast
qed

lemma allocate_performs:
  assumes "allocate srv_create_claim mref pool k w = (r, w')"
  shows "\<exists>log. performs (allocate script_create mref pool k) log w r w'"
proof (cases "configured_for pool k")
  case (Inl e)
  with assms have "performs (allocate script_create mref pool k) [] w r w'" by (simp add: allocate_def performs_def)
  then show ?thesis by blast
next
  case (Inr cfg)
  with assms have "create_first srv_create_claim mref (pool_name pool) (sort_Slice ip_less cfg) w = (r, w')"
    by (simp add: allocate_def)
  moreover have "allocate script_create mref pool k =
      create_first script_create mref (pool_name pool) (sort_Slice ip_less cfg)"
    using Inr by (simp add: allocate_def fun_eq_iff)
  ultimately show ?thesis using create_first_performs by simp
qed

lemma patient_allocate: "patient (allocate script_create mref pool k)"
  using patient_create_first [of mref "pool_name pool"]
  by (cases "configured_for pool k") (auto simp: allocate_def patient_def)

text \<open>The end of a handler that makes no write, and the use of a fragment as one.\<close>

lemma performs_none:
  assumes "\<And>rs. f (at (coherent w) rs) = (r, at (coherent w) rs)"
  shows "performs f [] w r w"
  using assms by (simp add: performs_def)

lemma performs_done:
  assumes "performs f log w x w'" "\<And>rs. g (at (coherent w) rs) = map_prod h id (f (at (coherent w) rs))"
  shows "performs g log w (h x) w'"
proof -
  have "patient (\<lambda>s. (h y, s))" "performs (\<lambda>s. (h x, s)) [] w' (h x) w'" for y
    by (rule patient_ask(3), rule performs_return)
  then have "performs (andthen f (\<lambda>x s. (h x, s))) log w (h x) w'"
    using performs_andthen [of f log w x w' "\<lambda>x s. (h x, s)" "[]" "h x" w', OF assms(1)] by simp
  then show ?thesis by (rule performs_cong) (simp add: assms(2) andthen_def map_prod_def case_prod_beta)
qed

section \<open>The webhook alone\<close>

lemma webhook_performs:
  assumes "Default_AWSMachine (Some srv_ports) rq m w = (r, w')"
  shows "\<exists>log. performs (Default_AWSMachine (Some script_ports) rq m) log w r w'"
proof (cases "\<exists>pool k. wants_eni rq m \<and> wh_target srv_ports m w pool k")
  case False
  have "Default_AWSMachine (Some script_ports) rq m (at (coherent w) rs) = (r, at (coherent w) rs) \<and> w' = w" for rs
    using False assms
    by (auto simp: Default_AWSMachine_def wants_eni_def wh_target_def same_reads Let_def
        split: if_splits sum.splits option.splits prod.splits)
  then show ?thesis by (blast intro: performs_none)
next
  case True
  then obtain pool k where t: "wants_eni rq m" "wh_target srv_ports m w pool k" by blast
  then have t': "wh_target script_ports m (at (coherent w) rs) pool k" for rs by (simp add: wh_target_def same_reads)
  obtain x w1 where a: "allocate srv_create_claim (machine_ref m) pool k w = (x, w1)" by force
  let ?h = "\<lambda>x. case x of Inl e \<Rightarrow> (Some e, m) | Inr None \<Rightarrow> (None, m) | Inr (Some c) \<Rightarrow> (None, injected m (claim_eni c))"
  have run: "Default_AWSMachine (Some script_ports) rq m (at (coherent w) rs) =
      map_prod ?h id (allocate script_create (machine_ref m) pool k (at (coherent w) rs))" for rs
    by (simp add: Default_at_target [OF t(1) t'] wh_claimInterface_def allocate_script split: prod.split sum.split option.split)
  have "r = ?h x" "w' = w1"
    using assms Default_at_target [OF t] a by (auto simp: wh_claimInterface_def split: sum.splits option.splits)
  with allocate_performs [OF a] performs_done [of "allocate script_create (machine_ref m) pool k" _ w x w1 _ ?h, OF _ run]
  show ?thesis by blast
qed


section \<open>The reconcilers alone\<close>

text \<open>The writes look only at the objects, so they do the same after a metric or an event.\<close>

lemma objects_simps [simp]: "w_awsmachines (objects w) = w_awsmachines w" "w_claims (objects w) = w_claims w"
  "w_pools (objects w) = w_pools w" "w_now (objects w) = w_now w" "objects (objects w) = objects w"
  "objects (p_inc_fallbacks srv_ports r w) = objects w" "objects (p_set_available srv_ports n re v k w) = objects w"
  "objects (record_event srv_ports e w) = objects w"
  by (simp_all add: objects_def srv_ports_def record_event_def)

lemma objects_writes:
  "map_prod id objects (srv_patch_awsmachine b m (objects w)) = map_prod id objects (srv_patch_awsmachine b m w)"
  "map_prod id objects (srv_update_pool_status p (objects w)) = map_prod id objects (srv_update_pool_status p w)"
  by (auto simp: srv_patch_awsmachine_def srv_update_pool_status_def srv_machines_def objects_def split: option.split)

lemma same_objects_writes:
  assumes "objects w = objects u"
  shows "map_prod id objects (srv_patch_awsmachine b m w) = map_prod id objects (srv_patch_awsmachine b m u)"
    "map_prod id objects (srv_update_pool_status p w) = map_prod id objects (srv_update_pool_status p u)"
  by (metis assms objects_writes)+

text \<open>\<open>agrees f w r w'\<close>: alone from \<open>w\<close>, \<open>f\<close> returns \<open>r\<close> and leaves the objects of \<open>w'\<close>.\<close>

definition agrees :: "(script \<Rightarrow> 'r \<times> script) \<Rightarrow> world \<Rightarrow> 'r \<times> world \<Rightarrow> bool" where
  "agrees f w res \<longleftrightarrow> (\<exists>log w''. performs f log w (fst res) w'' \<and> objects w'' = objects (snd res))"

lemma agrees_none:
  assumes "\<And>rs. f (at (coherent w) rs) = (r, at (coherent w) rs)" "objects w = objects w'"
  shows "agrees f w (r, w')"
proof -
  have "performs f [] w r w" using assms(1) by (rule performs_none)
  with assms(2) show ?thesis by (auto simp: agrees_def)
qed

lemma agrees_done:
  assumes "exec rq w = (Done e, w1)" "\<And>rs. f (at (coherent w) rs) = map_prod h id (ask_done rq (at (coherent w) rs))"
    "r = h e" "objects w1 = objects w'"
  shows "agrees f w (r, w')"
  using performs_done [OF performs_ask(2) [OF assms(1)] assms(2)] assms(3,4)
  by (auto simp: agrees_def done_answer_def)

lemma patient_patch: "patient (patch_result script_ports b m)"
  using patient_ask(2) [of "PatchMachine b m"] by (fastforce simp: patient_def patch_result_def split: prod.split)

lemma patch_agrees:
  assumes "objects u = objects w"
  shows "agrees (patch_result script_ports b m) w (patch_result srv_ports b m u)"
proof -
  obtain e w1 where e: "srv_patch_awsmachine b m w = (e, w1)" by force
  obtain e' u1 where e': "srv_patch_awsmachine b m u = (e', u1)" by force
  from same_objects_writes(1) [OF assms, of b m] e e' have "e' = e" "objects w1 = objects u1" by simp_all
  with e e' show ?thesis
    by (auto simp: patch_result_def intro!: agrees_done [where h = return_err and rq = "PatchMachine b m"] split: prod.split)
qed


lemma agrees_andthen:
  assumes "performs f log w x w1" "agrees (g x) w1 res" "\<And>x. patient (g x)"
  shows "agrees (andthen f g) w res"
proof -
  from assms(2) obtain log' w2 where "performs (g x) log' w1 (fst res) w2" "objects w2 = objects (snd res)"
    by (auto simp: agrees_def)
  with performs_andthen [of f log w x w1 g log' "fst res" w2] assms(1,3) show ?thesis unfolding agrees_def by blast
qed

lemma agrees_cong:
  assumes "agrees f w res" "\<And>rs. g (at (coherent w) rs) = f (at (coherent w) rs)" "res' = res"
  shows "agrees g w res'"
proof -
  from assms(1) obtain log w'' where "performs f log w (fst res) w''" "objects w'' = objects (snd res)"
    by (auto simp: agrees_def)
  moreover from performs_cong [OF this(1) assms(2) [symmetric]] have "performs g log w (fst res) w''" .
  ultimately show ?thesis using assms(3) by (auto simp: agrees_def)
qed

lemma agrees_performs: "performs f log w r w' \<Longrightarrow> agrees f w (r, w')"
  by (auto simp: agrees_def)

subsection \<open>Machines\<close>

lemma fall_back_agrees:
  assumes "served m"
  shows "agrees (dynamicFallback script_ports m why) w (dynamicFallback srv_ports m why w)"
proof -
  let ?m = "released m [] AllocationResultDynamicFallback (if why = '''' then None else Some why)"
  let ?u = "record_event srv_ports \<lparr>ev_type = ''Warning'', ev_reason = ''DynamicFallback'', ev_action = ''ReleaseToCAPA'',
         ev_args = [why]\<rparr> (p_inc_fallbacks srv_ports why w)"
  have "agrees (patch_result script_ports m ?m) w (patch_result srv_ports m ?m ?u)" by (rule patch_agrees) simp
  then show ?thesis by (rule agrees_cong) (simp_all only: steps_on_served [OF assms] script_ports_simps)
qed

lemma mark_agrees:
  assumes "why \<noteq> ''''"
  shows "agrees (markFailed script_ports m why) w (markFailed srv_ports m why w)"
proof -
  have "agrees (patch_result script_ports m (failed m why)) w (patch_result srv_ports m (failed m why) w)"
    by (rule patch_agrees) simp
  then show ?thesis by (rule agrees_cong) (simp_all add: markFailed_eq assms)
qed

lemma release_agrees:
  assumes "served m"
  shows "agrees (release_allocated script_ports m pool c) w (release_allocated srv_ports m pool c w)"
proof -
  let ?rq = "PatchMachine m (released m [claim_eni c] AllocationResultAllocated None)"
  let ?h = "\<lambda>e. case e of Some e \<Rightarrow> Inl (ApiError e) | None \<Rightarrow> Inr no_requeue"
  obtain e w1 where e: "srv_patch_awsmachine m (released m [claim_eni c] AllocationResultAllocated None) w = (e, w1)" by force
  have "agrees (release_allocated script_ports m pool c) w (?h e, snd (release_allocated srv_ports m pool c w))"
    using e by (intro agrees_done [of ?rq w e w1 _ ?h])
      (auto simp: steps_on_served [OF assms] split: option.split prod.split)
  moreover have "fst (release_allocated srv_ports m pool c w) = ?h e"
    using e by (simp add: steps_on_served [OF assms] split: option.split)
  ultimately show ?thesis by (metis prod.collapse)
qed

definition serve :: "'s ports \<Rightarrow> AWSMachine \<Rightarrow> ENIPool \<Rightarrow> error + ENIClaim option \<Rightarrow> 's \<Rightarrow> (error + Result) \<times> 's" where
  "serve P m pool r s = (case r of
       Inl e \<Rightarrow> (Inl e, s)
     | Inr None \<Rightarrow>
         if ps_exhaustionPolicy (pool_spec pool) = ExhaustionPolicyWait
         then (Inr (requeue_after (30 * Second)), s)
         else if ps_exhaustionPolicy (pool_spec pool) = ExhaustionPolicyFail
         then markFailed P m ''PoolExhausted'' s
         else dynamicFallback P m ''PoolExhausted'' s
     | Inr (Some claim) \<Rightarrow> release_allocated P m pool claim s)"

lemma Reconcile_serve:
  assumes "p_get_awsmachine P s ns n = Inr m" "served m" "rc_target P m s pool k"
  shows "Reconcile_AWSMachine P ns n s = andthen (rc_claimInterface P m pool k) (serve P m pool) s"
  by (auto simp: Reconcile_at_target [OF assms] andthen_def serve_def split: prod.split sum.split option.split)

lemma patient_serve:
  assumes "served m"
  shows "patient (serve script_ports m pool r)"
proof -
  have "patient (dynamicFallback script_ports m why)" for why
    using patient_patch by (simp add: patient_def steps_on_served [OF assms])
  moreover have "patient (markFailed script_ports m ''PoolExhausted'')"
    using patient_patch by (simp add: patient_def markFailed_eq)
  moreover have "patient (release_allocated script_ports m pool c)" for c
    using patient_ask(2) [of "PatchMachine m (released m [claim_eni c] AllocationResultAllocated None)"]
    by (fastforce simp: patient_def steps_on_served [OF assms] split: prod.split option.split)
  ultimately show ?thesis by (auto simp: serve_def patient_def split: sum.split option.split)
qed

lemma serve_None: "serve P m pool (Inr None) = (if ps_exhaustionPolicy (pool_spec pool) = ExhaustionPolicyWait
    then \<lambda>s. (Inr (requeue_after (30 * Second)), s)
    else if ps_exhaustionPolicy (pool_spec pool) = ExhaustionPolicyFail then markFailed P m ''PoolExhausted''
    else dynamicFallback P m ''PoolExhausted'')"
  by (rule ext) (simp add: serve_def)

lemma serve_agrees: "served m \<Longrightarrow> agrees (serve script_ports m pool r) w (serve srv_ports m pool r w)"
proof (cases r)
  case (Inl e)
  then show ?thesis by (simp add: serve_def agrees_none)
next
  case (Inr oc)
  assume served: "served m"
  show ?thesis
  proof (cases oc)
    case None
    have "agrees (\<lambda>s. (Inr (requeue_after (30 * Second)) :: error + Result, s)) w (Inr (requeue_after (30 * Second)), w)"
      by (rule agrees_none) simp_all
    then show ?thesis
      using mark_agrees [of "''PoolExhausted''" m w] fall_back_agrees [OF served, of "''PoolExhausted''" w]
      by (simp add: Inr None serve_None)
  next
    case (Some c)
    from release_agrees [OF served] show ?thesis by (rule agrees_cong) (simp_all add: serve_def Inr Some)
  qed
qed

lemma claimInterface_performs:
  assumes "rc_claimInterface srv_ports m pool k w = (r, w')"
  shows "\<exists>log. performs (rc_claimInterface script_ports m pool k) log w r w'"
proof (cases "find_claim m (srv_list_claims w)")
  case (Some c)
  with assms have "performs (rc_claimInterface script_ports m pool k) [] w r w'"
    by (auto simp: rc_claimInterface_def performs_def)
  then show ?thesis by blast
next
  case None
  with assms have "allocate srv_create_claim (machine_ref m) pool k w = (r, w')"
    by (simp add: rc_claimInterface_def)
  then obtain log where "performs (allocate script_create (machine_ref m) pool k) log w r w'"
    using allocate_performs by blast
  then have "performs (rc_claimInterface script_ports m pool k) log w r w'"
    by (rule performs_cong) (simp add: rc_claimInterface_def None allocate_script)
  then show ?thesis by blast
qed

lemma machine_agrees: "agrees (Reconcile_AWSMachine script_ports ns n) w (Reconcile_AWSMachine srv_ports ns n w)"
proof (cases "srv_get_awsmachine w ns n")
  case (Inl e)
  then show ?thesis by (simp add: Reconcile_AWSMachine_def agrees_none)
next
  case (Inr m)
  show ?thesis
  proof (cases "served m")
    case False
    with Inr show ?thesis by (simp add: Reconcile_not_served agrees_none)
  next
    case True
    have get: "p_get_awsmachine script_ports (at (coherent w) rs) ns n = Inr m" "p_get_awsmachine srv_ports w ns n = Inr m" for rs
      using Inr by simp_all
    show ?thesis
    proof (cases "\<exists>pool k. rc_target srv_ports m w pool k")
      case False
      show ?thesis
      proof (cases "\<exists>region vpc. rc_resolveClusterNetwork srv_ports m w = Inr (region, vpc) \<and> rc_findPool srv_ports region vpc w = Inr None")
        case True
        then obtain region vpc where "rc_resolveClusterNetwork srv_ports m w = Inr (region, vpc)"
          "rc_findPool srv_ports region vpc w = Inr None" by blast
        with fall_back_agrees [OF \<open>served m\<close>, of "''NoMatchingPool''" w] show ?thesis
          by (elim agrees_cong)
            (simp_all add: Reconcile_served [OF get(1) \<open>served m\<close>] Reconcile_served [OF get(2) \<open>served m\<close>] same_reads)
      next
        case no: False
        have "\<exists>r. Reconcile_AWSMachine srv_ports ns n w = (r, w) \<and>
            (\<forall>rs. Reconcile_AWSMachine script_ports ns n (at (coherent w) rs) = (r, at (coherent w) rs))"
          using False no unfolding Reconcile_served [OF get(1) \<open>served m\<close>] Reconcile_served [OF get(2) \<open>served m\<close>] same_reads rc_target_def
          by (auto split: sum.splits option.splits)
        then obtain r where "Reconcile_AWSMachine srv_ports ns n w = (r, w)"
          "\<And>rs. Reconcile_AWSMachine script_ports ns n (at (coherent w) rs) = (r, at (coherent w) rs)" by blast
        then show ?thesis by (simp add: agrees_none)
      qed
    next
      case target: True
      then obtain pool k where t: "rc_target srv_ports m w pool k" by blast
      then have t': "rc_target script_ports m (at (coherent w) rs) pool k" for rs by (simp add: rc_target_def same_reads)
      obtain x w1 where x: "rc_claimInterface srv_ports m pool k w = (x, w1)" by force
      then obtain log where "performs (rc_claimInterface script_ports m pool k) log w x w1"
        using claimInterface_performs by blast
      from agrees_andthen [OF this serve_agrees [OF True] patient_serve [OF True]]
      show ?thesis
        by (rule agrees_cong) (simp_all add: Reconcile_serve [OF get(1) True t'] Reconcile_serve [OF get(2) True t] andthen_def x)
    qed
  qed
qed


subsection \<open>Claims\<close>

lemma removeFinalizer_agrees:
  "agrees (\<lambda>s. map_prod return_err id (removeFinalizer script_ports c s)) w
     (map_prod return_err id (removeFinalizer srv_ports c w))"
proof (cases "ClaimFinalizer \<in> set (claim_finalizers c)")
  case False
  then show ?thesis by (simp add: removeFinalizer_def agrees_none)
next
  case True
  let ?new = "with_finalizers (removeString (claim_finalizers c) ClaimFinalizer) c"
  let ?h = "\<lambda>r. return_err (case r of Inl e \<Rightarrow> Some e | Inr _ \<Rightarrow> None)"
  obtain a w1 where a: "srv_patch_claim c ?new w = (a, w1)" by force
  then have "exec (PatchClaim c ?new) w = (Claim a, w1)" by simp
  from performs_done [OF performs_ask(1) [OF this], of "\<lambda>s. map_prod return_err id (removeFinalizer script_ports c s)" ?h]
  have "performs (\<lambda>s. map_prod return_err id (removeFinalizer script_ports c s)) [(Claim a, coherent w1)] w (?h a) w1"
    using True by (simp add: removeFinalizer_def claim_answer_def split: prod.split sum.split)
  moreover have "map_prod return_err id (removeFinalizer srv_ports c w) = (?h a, w1)"
    using True a by (simp add: removeFinalizer_def split: sum.split)
  ultimately show ?thesis by (simp only: agrees_performs)
qed

lemma reclaim_agrees: "agrees (reclaim script_ports now c) w (reclaim srv_ports now c w)"
proof (cases "expired now c")
  case False
  then show ?thesis by (simp add: reclaim_def expired_Since agrees_none)
next
  case True
  obtain e w1 where e: "srv_delete_claim c w = (e, w1)" by force
  let ?h = "\<lambda>e. case e of Some e \<Rightarrow> if e \<noteq> NotFound then Inl (ApiError e) else Inr no_requeue | None \<Rightarrow> Inr no_requeue"
  have "reclaim srv_ports now c w = (?h e, w1)" using True e by (simp add: reclaim_def expired_Since split: option.split)
  moreover have "agrees (reclaim script_ports now c) w (?h e, w1)"
    using e True by (intro agrees_done [of "DeleteClaim c" w e w1 _ ?h])
      (auto simp: reclaim_def expired_Since split: option.split prod.split)
  ultimately show ?thesis by simp
qed

lemma observe_agrees: "agrees (observe script_ports pool c) w (observe srv_ports pool c w)"
proof (cases "up_to_date pool c")
  case True
  then show ?thesis by (simp add: observe_eq agrees_none)
next
  case False
  let ?c = "published srv_set_condition pool c"
  obtain e w1 where e: "srv_update_claim_status ?c w = (e, w1)" by force
  let ?h = "\<lambda>e. case e of Some e \<Rightarrow> Inl (ApiError e) | None \<Rightarrow> Inr (requeue_after (5 * Minute))"
  have "observe srv_ports pool c w = (?h e, w1)" using False e by (simp add: observe_eq split: option.split)
  moreover have "agrees (observe script_ports pool c) w (?h e, w1)"
    using e False by (intro agrees_done [of "UpdateClaimStatus ?c" w e w1 _ ?h])
      (auto simp: observe_eq split: option.split prod.split)
  ultimately show ?thesis by simp
qed

definition decide :: "'s ports \<Rightarrow> instant \<Rightarrow> ENIPool \<Rightarrow> api_error + ENIClaim \<Rightarrow> 's \<Rightarrow> (error + Result) \<times> 's" where
  "decide P now pool r s = (case r of
     Inl e \<Rightarrow> (Inl (ApiError e), s)
   | Inr c \<Rightarrow> (case p_get_awsmachine P s (nref_namespace (claim_machine c)) (nref_name (claim_machine c)) of
       Inl e \<Rightarrow> if e = NotFound then reclaim P now c s else (Inl (ApiError e), s)
     | Inr machine \<Rightarrow> observe P pool c s))"

lemma patient_decide: "patient (decide script_ports now pool r)"
proof -
  have "patient (reclaim script_ports now c)" for c
    using patient_ask(2) [of "DeleteClaim c"]
    by (fastforce simp: patient_def reclaim_def split: prod.split option.split)
  moreover have "patient (observe script_ports pool c)" for c
    using patient_ask(2) [of "UpdateClaimStatus (published srv_set_condition pool c)"]
    by (fastforce simp: patient_def observe_eq split: prod.split option.split)
  ultimately show ?thesis by (auto simp: decide_def patient_def split: sum.split)
qed

lemma decide_agrees: "agrees (decide script_ports now pool r) w (decide srv_ports now pool r w)"
proof (cases r)
  case (Inl e)
  then show ?thesis by (simp add: decide_def agrees_none)
next
  case (Inr c)
  show ?thesis
  proof (cases "srv_get_awsmachine w (nref_namespace (claim_machine c)) (nref_name (claim_machine c))")
    case (Inr m)
    from observe_agrees show ?thesis by (rule agrees_cong) (simp_all add: decide_def Inr \<open>r = Inr c\<close>)
  next
    case (Inl e)
    show ?thesis
    proof (cases "e = NotFound")
      case True
      from reclaim_agrees show ?thesis by (rule agrees_cong) (simp_all add: decide_def Inl \<open>r = Inr c\<close> True)
    qed (simp add: decide_def Inl \<open>r = Inr c\<close> agrees_none)
  qed
qed

lemma ensure_performs:
  assumes "ensure_finalizer srv_ports c w = (r, w')"
  shows "\<exists>log. performs (ensure_finalizer script_ports c) log w r w'"
proof (cases "ClaimFinalizer \<in> set (claim_finalizers c)")
  case True
  with assms have "performs (ensure_finalizer script_ports c) [] w r w'"
    by (simp add: ensure_finalizer_def performs_def)
  then show ?thesis by blast
next
  case False
  let ?rq = "PatchClaim c (with_finalizers (claim_finalizers c @ [ClaimFinalizer]) c)"
  from False assms have "exec ?rq w = (Claim r, w')" by (simp add: ensure_finalizer_def)
  from performs_ask(1) [OF this] have "performs (ask_claim ?rq) [(Claim r, coherent w')] w r w'"
    by (simp add: claim_answer_def)
  then have "performs (ensure_finalizer script_ports c) [(Claim r, coherent w')] w r w'"
    by (rule performs_cong) (simp add: ensure_finalizer_def False)
  then show ?thesis by blast
qed

lemma claim_agrees: "agrees (Reconcile_ENIClaim script_ports now n) w (Reconcile_ENIClaim srv_ports now n w)"
proof (cases "srv_get_claim w n")
  case (Inl e)
  then show ?thesis by (simp add: Reconcile_ENIClaim_def agrees_none)
next
  case (Inr c)
  show ?thesis
  proof (cases "m_deletionTimestamp (claim_meta c) \<noteq> None \<and> (\<forall>e. srv_get_pool w (claim_pool c) = Inl e \<longrightarrow> e = NotFound)")
    case True
    from removeFinalizer_agrees [of c w] show ?thesis
      by (rule agrees_cong)
        (use True in \<open>auto simp: Reconcile_ENIClaim_def Inr map_prod_def split: sum.split prod.split\<close>)
  next
    case no: False
    show ?thesis
    proof (cases "srv_get_pool w (claim_pool c)")
      case (Inl e)
      with no have "Reconcile_ENIClaim script_ports now n (at (coherent w) rs) = (Inl (ApiError e), at (coherent w) rs)"
        "Reconcile_ENIClaim srv_ports now n w = (Inl (ApiError e), w)" for rs
        by (auto simp: Reconcile_ENIClaim_def Inr)
      then show ?thesis by (simp add: agrees_none)
    next
      case (Inr pool)
      with no have alive: "m_deletionTimestamp (claim_meta c) = None" by auto
      obtain r w1 where r: "ensure_finalizer srv_ports c w = (r, w1)" by force
      then obtain log where "performs (ensure_finalizer script_ports c) log w r w1" using ensure_performs by blast
      from agrees_andthen [OF this decide_agrees patient_decide]
      show ?thesis
        by (rule agrees_cong)
          (simp_all add: Reconcile_ENIClaim_def \<open>srv_get_claim w n = Inr c\<close> Inr alive andthen_def decide_def r
            split: prod.split sum.split)
    qed
  qed
qed

subsection \<open>Pools\<close>

lemma pool_agrees: "agrees (Reconcile_ENIPool script_ports n) w (Reconcile_ENIPool srv_ports n w)"
proof (cases "srv_get_pool w n")
  case (Inl e)
  then show ?thesis by (simp add: Reconcile_ENIPool_def agrees_none)
next
  case (Inr pool)
  let ?cs = "claimByENI Map.empty (srv_list_claims w)"
  let ?p = "pool\<lparr>pool_status := inventory srv_ports ?cs pool\<rparr>"
  let ?u = "p_set_available srv_ports (pool_name pool) (pool_region pool) (pool_vpcID pool) (available_count ?cs pool) w"
  have inv: "inventory script_ports ?cs pool = inventory srv_ports ?cs pool" by (simp add: inventory_def)
  obtain e w1 where e: "srv_update_pool_status ?p w = (e, w1)" by force
  obtain e' u1 where e': "srv_update_pool_status ?p ?u = (e', u1)" by force
  have same: "e' = e" "objects w1 = objects u1" using same_objects_writes(2) [of w ?u ?p] e e' by simp_all
  let ?h = "\<lambda>e. case e of Some e \<Rightarrow> if e \<noteq> Conflict then Inl (ApiError e) else Inr (requeue_after (5 * Minute))
    | None \<Rightarrow> Inr (requeue_after (5 * Minute))"
  have get: "p_get_pool srv_ports w n = Inr pool" "p_get_pool script_ports (at (coherent w) rs) n = Inr pool" for rs
    using Inr by simp_all
  have "Reconcile_ENIPool srv_ports n w = (?h e, u1)"
    using e' same by (auto simp: Reconcile_ENIPool_eq [OF get(1) srv_ports_simps(5)] split: option.split)
  moreover have "agrees (Reconcile_ENIPool script_ports n) w (?h e, u1)"
  proof (rule agrees_done [of "UpdatePoolStatus ?p" w e w1 _ ?h])
    show "exec (UpdatePoolStatus ?p) w = (Done e, w1)" using e by simp
    show "Reconcile_ENIPool script_ports n (at (coherent w) rs) =
        map_prod ?h id (ask_done (UpdatePoolStatus ?p) (at (coherent w) rs))" for rs
      by (simp add: Reconcile_ENIPool_eq [OF get(2) script_ports_simps(5)] inv split: prod.split option.split)
  qed (simp_all add: same)
  ultimately show ?thesis by simp
qed

section \<open>Every call\<close>

lemma agrees_returned: "agrees f w res \<Longrightarrow> agrees (\<lambda>s. map_prod h id (f s)) w (map_prod h id res)"
  unfolding agrees_def by (auto dest: performs_done [of f _ w _ _ "\<lambda>s. map_prod h id (f s)" h])

lemma call_agrees: "agrees (run_call script_ports j) w (run_call srv_ports j w)"
proof (cases j)
  case (Admit rq m)
  obtain r w' where r: "Default_AWSMachine (Some srv_ports) rq m w = (r, w')" by (metis prod.collapse)
  from webhook_performs [OF this] have "agrees (Default_AWSMachine (Some script_ports) rq m) w (r, w')"
    by (elim exE agrees_performs)
  from agrees_returned [OF this, of "\<lambda>(e, m'). Admitted e m'"] show ?thesis
    by (rule agrees_cong) (auto simp: Admit r split: prod.split)
next
  case (ReconcileMachine ns n)
  from agrees_returned [OF machine_agrees] show ?thesis by (rule agrees_cong) (simp_all add: ReconcileMachine)
next
  case (ReconcileClaim now n)
  from agrees_returned [OF claim_agrees] show ?thesis by (rule agrees_cong) (simp_all add: ReconcileClaim)
next
  case (ReconcilePool n)
  from agrees_returned [OF pool_agrees] show ?thesis by (rule agrees_cong) (simp_all add: ReconcilePool)
qed

lemma call_alone:
  assumes "run_call srv_ports j w = (r, w')"
  shows "\<exists>k p w''. alone k (begin_call j (coherent w)) w = Some (p, w'') \<and> pr_job p = j \<and>
    awaits p = None \<and> returns p = r \<and> objects w'' = objects w'"
proof -
  from call_agrees [of j w] assms obtain log w'' where "performs (run_call script_ports j) log w r w''"
    "objects w'' = objects w'" by (auto simp: agrees_def)
  then have log: "logged (run_call script_ports j) (coherent w) [] log w w''"
    "run_call script_ports j (at (coherent w) (log @ [])) = (r, at (coherent w'') [])"
    unfolding performs_def by (blast, metis)
  from alone_logged [OF log(1), of r] log(2) obtain p where
    "alone (Suc (length log)) (begin_call j (coherent w)) w = Some (p, w'')" "pr_job p = j" "awaits p = None" "returns p = r"
    by (auto simp: begin_call_def simp del: alone.simps)
  with \<open>objects w'' = objects w'\<close> show ?thesis by blast
qed


section \<open>Every call alone is the handler\<close>


end
