(* ===== verification/Interleaved.thy ===== *)
theory Interleaved
  imports Isolated_Calls
begin

text \<open>
  The controller with its calls interleaved: any number of admissions and reconciliations are under way
  at once, each the real handler run on its script (\<open>Handler_Runs\<close>), one API call per step. Reads may
  return any past state of the cluster, per kind of object; a write takes effect, or is refused, or
  takes effect and its answer is lost. Processes crash at any point.

  The assumptions, each a guard of a step: a machine is stored less than \<open>delay\<close> after the first
  admission of its name; the claim reconciler runs once per claim at a time, sees the machines at most
  \<open>lag\<close> behind its clock, and never takes a claim of another machine for the one that is stored. With
  \<open>lag + delay\<close> within the grace period of 30 seconds every stored machine keeps its ENI, alone.
\<close>

section \<open>States and steps\<close>

text \<open>
  \<open>net_seen\<close> are the states the cluster has been in, \<open>net_due\<close> is until when the machine of a name may
  be stored.
\<close>

record net =
  net_world :: world
  net_seen :: "world set"
  net_due :: "string \<times> string \<rightharpoonup> instant"
  net_procs :: "nat \<rightharpoonup> process"

definition is_error :: "answer \<Rightarrow> bool" where
  "is_error a \<longleftrightarrow> (\<exists>e. a = Claim (Inl e) \<or> a = Done (Some e))"

inductive outcome :: "request \<Rightarrow> world \<Rightarrow> answer \<Rightarrow> world \<Rightarrow> bool" where
  accepted: "exec rq w = (a, w') \<Longrightarrow> outcome rq w a w'"
| refused: "is_error a \<Longrightarrow> outcome rq w a w"
| answer_lost: "exec rq w = (a', w') \<Longrightarrow> is_error a \<Longrightarrow> outcome rq w a w'"

text \<open>What a reconciler may see in a round, and the claim the claim reconciler may start from.\<close>

definition may_see :: "duration \<Rightarrow> net \<Rightarrow> job \<Rightarrow> views \<Rightarrow> bool" where
  "may_see lag s j v = (case j of
     Admit rq m \<Rightarrow> True
   | ReconcileMachine ns n \<Rightarrow> see_claims v \<in> net_seen s \<and> see_machines v \<in> net_seen s
   | ReconcileClaim now n \<Rightarrow> see_machines v \<in> net_seen s \<and> now - lag \<le> w_now (see_machines v)
   | ReconcilePool n \<Rightarrow> True)"

definition same_machine :: "(string \<rightharpoonup> ENIClaim) \<Rightarrow> string \<Rightarrow> ENIClaim \<Rightarrow> bool" where
  "same_machine cs n c \<longleftrightarrow> (\<exists>d. cs n = Some d \<and> claim_machine d = claim_machine c)"

definition may_start :: "net \<Rightarrow> job \<Rightarrow> views \<Rightarrow> bool" where
  "may_start s j v = (case j of
     ReconcileClaim now n \<Rightarrow> see_claims v \<in> net_seen s \<and>
       (\<forall>c. srv_claims (see_claims v) n = Some c \<longrightarrow> same_machine (srv_claims (net_world s)) n c)
   | _ \<Rightarrow> True)"

definition busy :: "net \<Rightarrow> string \<Rightarrow> bool" where
  "busy s n \<longleftrightarrow> (\<exists>p\<in>ran (net_procs s). \<exists>now. pr_job p = ReconcileClaim now n)"

definition is_admit :: "job \<Rightarrow> bool" where
  "is_admit j \<longleftrightarrow> (\<exists>rq m. j = Admit rq m)"

definition advance :: "world \<Rightarrow> net \<Rightarrow> net" where
  "advance w s = s\<lparr>net_world := w, net_seen := insert w (net_seen s)\<rparr>"

definition set_proc :: "nat \<Rightarrow> process option \<Rightarrow> net \<Rightarrow> net" where
  "set_proc i p s = s\<lparr>net_procs := (net_procs s)(i := p)\<rparr>"

definition set_due :: "duration \<Rightarrow> string \<times> string \<Rightarrow> net \<Rightarrow> net" where
  "set_due delay k s = (if net_due s k = None
     then s\<lparr>net_due := (net_due s)(k \<mapsto> w_now (net_world s) + delay)\<rparr> else s)"

inductive net_step :: "duration \<Rightarrow> duration \<Rightarrow> net \<Rightarrow> net \<Rightarrow> bool" for lag delay where
  submit: "i \<notin> dom (net_procs s) \<Longrightarrow> am_networkInterfaces m = [] \<Longrightarrow>
    net_step lag delay s (set_proc i (Some (begin_call (Admit rq m) v)) (set_due delay (am_key m) s))"
| call: "i \<notin> dom (net_procs s) \<Longrightarrow> \<not> is_admit j \<Longrightarrow> may_see lag s j v \<Longrightarrow> may_start s j v \<Longrightarrow>
    (\<And>now n. j = ReconcileClaim now n \<Longrightarrow> \<not> busy s n) \<Longrightarrow>
    net_step lag delay s (set_proc i (Some (begin_call j v)) s)"
| read_again: "net_procs s i = Some p \<Longrightarrow> pr_rounds p = rs @ [(a, u)] \<Longrightarrow> may_see lag s (pr_job p) v \<Longrightarrow>
    net_step lag delay s (set_proc i (Some (p\<lparr>pr_rounds := rs @ [(a, v)]\<rparr>)) s)"
| respond: "net_procs s i = Some p \<Longrightarrow> awaits p = Some rq \<Longrightarrow> outcome rq (net_world s) a w \<Longrightarrow>
    may_see lag (advance w s) (pr_job p) v \<Longrightarrow>
    net_step lag delay s (set_proc i (Some (p\<lparr>pr_rounds := pr_rounds p @ [(a, v)]\<rparr>)) (advance w s))"
| persist: "net_procs s i = Some p \<Longrightarrow> pr_job p = Admit rq m \<Longrightarrow> awaits p = None \<Longrightarrow>
    returns p = Admitted None m' \<Longrightarrow>
    net_due s (am_key m) = Some t \<Longrightarrow> w_now (net_world s) < t \<Longrightarrow>
    net_step lag delay s (set_proc i None (advance (store_machine m' (net_world s)) s))"
| gone: "net_step lag delay s (set_proc i None s)"
| edit: "srv_machines (net_world s) (am_key m) = Some m0 \<Longrightarrow> am_networkInterfaces m = am_networkInterfaces m0 \<Longrightarrow>
    net_step lag delay s (advance (store_machine m (net_world s)) s)"
| remove: "net_step lag delay s (advance (remove_machine k (net_world s)) s)"
| tick: "0 \<le> d \<Longrightarrow> net_step lag delay s (advance ((net_world s)\<lparr>w_now := w_now (net_world s) + d\<rparr>) s)"
| pools: "net_step lag delay s (advance ((net_world s)\<lparr>w_pools := ps\<rparr>) s)"

text \<open>At the start there are no machines, no claims and no calls; the rest of the cluster is any.\<close>

definition net_start :: "net \<Rightarrow> bool" where
  "net_start s \<longleftrightarrow> w_awsmachines (net_world s) = [] \<and> w_claims (net_world s) = [] \<and>
     net_seen s = {net_world s} \<and> net_due s = Map.empty \<and> net_procs s = Map.empty"

definition net_reachable :: "duration \<Rightarrow> duration \<Rightarrow> net \<Rightarrow> bool" where
  "net_reachable lag delay s \<longleftrightarrow> (\<exists>s0. net_start s0 \<and> (net_step lag delay)\<^sup>*\<^sup>* s0 s)"

section \<open>What a write does\<close>

lemma exec_now: "exec rq w = (a, w') \<Longrightarrow> w_now w' = w_now w"
  by (cases rq) (auto simp: srv_create_claim_def srv_patch_awsmachine_def srv_patch_claim_def srv_delete_claim_def
      srv_update_claim_status_def srv_update_pool_status_def split: if_splits option.splits)

lemma exec_machines:
  assumes "exec rq w = (a, w')"
  shows "srv_machines w' = srv_machines w \<or> (\<exists>b m cur. rq = PatchMachine b m \<and> srv_machines w (am_key b) = Some cur \<and>
    srv_machines w' = (srv_machines w)(am_key b \<mapsto> merge_awsmachine b m cur))"
proof (cases rq)
  case (PatchMachine b m)
  obtain e where e: "srv_patch_awsmachine b m w = (e, w')" using assms PatchMachine by (auto split: prod.splits)
  show ?thesis
  proof (cases e)
    case None
    with e PatchMachine srv_api.patch_done [of b m w w'] show ?thesis by auto
  next
    case (Some x)
    with e srv_api.patch_failed [of b m w x w'] show ?thesis by auto
  qed
qed (use assms in \<open>auto simp: srv_create_claim_def srv_patch_claim_def srv_delete_claim_def
      srv_update_claim_status_def srv_update_pool_status_def srv_machines_def srv_set_claim_def split: if_splits option.splits\<close>)

text \<open>The claim a write is about.\<close>

fun about :: "request \<Rightarrow> string option" where
  "about (Create c) = Some (claim_name c)"
| "about (PatchMachine b m) = None"
| "about (PatchClaim b c) = Some (claim_name b)"
| "about (DeleteClaim c) = Some (claim_name c)"
| "about (UpdateClaimStatus c) = Some (claim_name c)"
| "about (UpdatePoolStatus p) = None"

text \<open>What becomes of the claim a write is about, by kind of write.\<close>

fun rewritten :: "request \<Rightarrow> instant \<Rightarrow> ENIClaim \<Rightarrow> ENIClaim option" where
  "rewritten (PatchClaim b c) t cur = settle (merge_claim b c cur)"
| "rewritten (DeleteClaim c) t cur = settle (stamp t cur)"
| "rewritten (UpdateClaimStatus c) t cur = Some (cur\<lparr>claim_status := claim_status c\<rparr>)"
| "rewritten _ t cur = Some cur"

lemma exec_claims:
  assumes "exec rq w = (a, w')"
  shows "srv_claims w' = srv_claims w \<or>
    (\<exists>n. about rq = Some n \<and>
      ((\<exists>c. rq = Create c \<and> srv_claims w n = None \<and> claim_eni c = n \<and> a = Claim (Inr (created_claim (w_now w) c)) \<and>
          srv_claims w' = (srv_claims w)(n \<mapsto> created_claim (w_now w) c)) \<or>
       (\<exists>cur. srv_claims w n = Some cur \<and> srv_claims w' = (srv_claims w)(n := rewritten rq (w_now w) cur))))"
proof (cases rq)
  case (Create c)
  obtain r where r: "srv_create_claim c w = (r, w')" "a = Claim r" using assms Create by (auto split: prod.splits)
  show ?thesis
  proof (cases r)
    case (Inr c')
    with r srv_create_cases(1) [of c w c' w'] Create show ?thesis by (auto simp: srv_claims_set_Some claim_named_def)
  next
    case (Inl e)
    with r srv_create_cases(2) [of c w e w'] show ?thesis by auto
  qed
next
  case (PatchMachine b m)
  with assms show ?thesis
    by (auto simp: srv_patch_awsmachine_def srv_claims_def split: prod.splits option.splits)
next
  case (PatchClaim b c)
  obtain r where r: "srv_patch_claim b c w = (r, w')" using assms PatchClaim by (auto split: prod.splits)
  with PatchClaim show ?thesis
    by (cases "srv_claims w (claim_name b)")
      (auto simp: srv_patch_claim_def srv_claims_named intro!: srv_claims_set dest!: settle_Some split: if_splits)
next
  case (DeleteClaim c)
  obtain r where r: "srv_delete_claim c w = (r, w')" using assms DeleteClaim by (auto split: prod.splits)
  with DeleteClaim show ?thesis
    by (cases "srv_claims w (claim_name c)")
      (auto simp: srv_delete_claim_def srv_claims_named intro!: srv_claims_set dest!: settle_Some)
next
  case (UpdateClaimStatus c)
  obtain r where r: "srv_update_claim_status c w = (r, w')" using assms UpdateClaimStatus by (auto split: prod.splits)
  with UpdateClaimStatus show ?thesis
    by (cases "srv_claims w (claim_name c)")
      (auto simp: srv_update_claim_status_def srv_claims_set_Some srv_claims_named)
next
  case (UpdatePoolStatus p)
  with assms show ?thesis
    by (auto simp: srv_update_pool_status_def srv_claims_def split: prod.splits option.splits)
qed


section \<open>The invariant\<close>

text \<open>
  A machine is alive when it is stored or may still be. The claims of living machines are held: the
  claim now stored under that name is the machine's, and it is not being deleted.
\<close>

definition alive :: "net \<Rightarrow> string \<times> string \<Rightarrow> bool" where
  "alive s k \<longleftrightarrow> k \<in> dom (srv_machines (net_world s)) \<or> (\<exists>t. net_due s k = Some t \<and> w_now (net_world s) < t)"

definition holds :: "(string \<rightharpoonup> ENIClaim) \<Rightarrow> string \<Rightarrow> NamespacedObjectReference \<Rightarrow> bool" where
  "holds cs n r \<longleftrightarrow> (\<exists>d. cs n = Some d \<and> claim_machine d = r \<and> \<not> releasing d)"

definition clock_ok :: "duration \<Rightarrow> net \<Rightarrow> bool" where
  "clock_ok delay s \<longleftrightarrow> net_world s \<in> net_seen s \<and> (\<forall>v\<in>net_seen s. w_now v \<le> w_now (net_world s)) \<and>
     (\<forall>k t. net_due s k = Some t \<longrightarrow> t \<le> w_now (net_world s) + delay)"

definition claims_ok :: "duration \<Rightarrow> net \<Rightarrow> bool" where
  "claims_ok delay s \<longleftrightarrow> (\<forall>v\<in>net_seen s. \<forall>n c. srv_claims v n = Some c \<longrightarrow>
     claim_eni c = n \<and> (\<exists>t. net_due s (claim_key c) = Some t \<and> t \<le> created_at c + delay))"

definition machines_ok :: "net \<Rightarrow> bool" where
  "machines_ok s \<longleftrightarrow> (\<forall>v\<in>net_seen s. \<forall>k\<in>dom (srv_machines v). net_due s k \<noteq> None) \<and>
     (\<forall>k\<in>dom (srv_machines (net_world s)). \<forall>v\<in>net_seen s. \<forall>t. net_due s k = Some t \<longrightarrow> t \<le> w_now v \<longrightarrow>
        k \<in> dom (srv_machines v))"

definition held :: "net \<Rightarrow> bool" where
  "held s \<longleftrightarrow> (\<forall>v\<in>net_seen s. \<forall>n c. srv_claims v n = Some c \<longrightarrow> alive s (claim_key c) \<longrightarrow>
     holds (srv_claims (net_world s)) n (claim_machine c))"

text \<open>At some point the claim stored under \<open>n\<close> was one of machine \<open>r\<close>.\<close>

definition witnessed :: "net \<Rightarrow> string \<Rightarrow> NamespacedObjectReference \<Rightarrow> bool" where
  "witnessed s n r \<longleftrightarrow> (\<exists>v\<in>net_seen s. \<exists>c. srv_claims v n = Some c \<and> claim_machine c = r)"

definition supplied :: "net \<Rightarrow> AWSMachine \<Rightarrow> bool" where
  "supplied s m \<longleftrightarrow> am_networkInterfaces m = [] \<or>
     (\<exists>i. am_networkInterfaces m = [i] \<and> witnessed s i (machine_ref m))"

definition machines_supplied :: "net \<Rightarrow> bool" where
  "machines_supplied s \<longleftrightarrow> (\<forall>m\<in>ran (srv_machines (net_world s)). supplied s m)"

text \<open>
  What holds of the processes: the claims their CREATEs returned were stored; the machine reconciler
  read past states; the claim reconciler's claim is still stored, for the same machine.
\<close>

definition subject_ok :: "duration \<Rightarrow> net \<Rightarrow> instant \<Rightarrow> string \<Rightarrow> ENIClaim \<Rightarrow> views \<Rightarrow> bool" where
  "subject_ok lag s now n c v \<longleftrightarrow> claim_name c = n \<and> same_machine (srv_claims (net_world s)) n c \<and>
     (\<exists>u\<in>net_seen s. \<exists>d. srv_claims u n = Some d \<and> claim_machine d = claim_machine c \<and> created_at d = created_at c) \<and>
     see_machines v \<in> net_seen s \<and> now - lag \<le> w_now (see_machines v)"

definition proc_ok :: "duration \<Rightarrow> net \<Rightarrow> process \<Rightarrow> bool" where
  "proc_ok lag s p \<longleftrightarrow> (case pr_job p of
     Admit rq m \<Rightarrow> net_due s (am_key m) \<noteq> None \<and> am_networkInterfaces m = [] \<and>
       (\<forall>c. created_in (pr_rounds p) c \<longrightarrow> witnessed s (claim_eni c) (machine_ref m))
   | ReconcileMachine ns n \<Rightarrow> see_claims (pr_first p) \<in> net_seen s \<and> see_machines (pr_first p) \<in> net_seen s \<and>
       (\<forall>c. created_in (pr_rounds p) c \<longrightarrow> witnessed s (claim_eni c) \<lparr>nref_namespace = ns, nref_name = n\<rparr>)
   | ReconcileClaim now n \<Rightarrow>
       (pr_rounds p = [] \<longrightarrow> (\<forall>c. srv_claims (see_claims (pr_first p)) n = Some c \<longrightarrow>
          same_machine (srv_claims (net_world s)) n c)) \<and>
       (\<forall>c v. subject (script_of p) n = Some (c, v) \<longrightarrow> subject_ok lag s now n c v)
   | ReconcilePool n \<Rightarrow> True)"

definition procs_ok :: "duration \<Rightarrow> net \<Rightarrow> bool" where
  "procs_ok lag s \<longleftrightarrow> (\<forall>p\<in>ran (net_procs s). proc_ok lag s p)"

definition one_each :: "net \<Rightarrow> bool" where
  "one_each s \<longleftrightarrow> (\<forall>i j p q now now' n. net_procs s i = Some p \<longrightarrow> net_procs s j = Some q \<longrightarrow>
     pr_job p = ReconcileClaim now n \<longrightarrow> pr_job q = ReconcileClaim now' n \<longrightarrow> i = j)"

definition net_inv :: "duration \<Rightarrow> duration \<Rightarrow> net \<Rightarrow> bool" where
  "net_inv lag delay s \<longleftrightarrow> clock_ok delay s \<and> claims_ok delay s \<and> machines_ok s \<and> held s \<and>
     machines_supplied s \<and> procs_ok lag s \<and> one_each s"

lemma net_invD:
  assumes "net_inv lag delay s"
  shows "clock_ok delay s" "claims_ok delay s" "machines_ok s" "held s" "machines_supplied s" "procs_ok lag s" "one_each s"
  using assms by (simp_all add: net_inv_def)

section \<open>The claims of dead machines\<close>

text \<open>
  The heart of the argument: when the claim reconciler, on the views it has, decides to delete a claim,
  the machine of that claim is not stored and never will be.
\<close>

lemma expired_is_dead:
  assumes inv: "clock_ok delay s" "claims_ok delay s" "machines_ok s" and bound: "lag + delay \<le> 30 * Second"
    and ok: "subject_ok lag s now n c v" and dec: "expired now c" "srv_machines (see_machines v) (claim_key c) = None"
  shows "\<not> alive s (claim_key c)"
proof
  let ?k = "claim_key c"
  assume a: "alive s ?k"
  from ok obtain u d where u: "u \<in> net_seen s" "srv_claims u n = Some d" "claim_machine d = claim_machine c"
    "created_at d = created_at c" by (auto simp: subject_ok_def)
  from u(3) have "claim_key d = ?k" by (simp add: claim_key_def)
  with inv(2) u obtain t where t: "net_due s ?k = Some t" "t \<le> created_at c + delay"
    by (fastforce simp: claims_ok_def)
  from ok have v: "see_machines v \<in> net_seen s" "now - lag \<le> w_now (see_machines v)" by (simp_all add: subject_ok_def)
  from dec(1) bound t(2) v(2) have due: "t \<le> w_now (see_machines v)" by (simp add: expired_def created_at_def)
  from inv(1) v(1) have "w_now (see_machines v) \<le> w_now (net_world s)" by (simp add: clock_ok_def)
  with due a t(1) have "?k \<in> dom (srv_machines (net_world s))" by (auto simp: alive_def)
  with inv(3) v(1) t(1) due have "?k \<in> dom (srv_machines (see_machines v))" by (simp add: machines_ok_def)
  with dec(2) show False by blast
qed

section \<open>Steps that change the cluster\<close>

text \<open>
  What a step may do to the claims without hurting the invariant: a claim of a living machine that is
  not being deleted stays so; a claim that appears is new, for a machine that was admitted, and takes a
  free name.
\<close>

definition claims_step :: "net \<Rightarrow> world \<Rightarrow> bool" where
  "claims_step s w \<longleftrightarrow>
     (\<forall>n c. srv_claims (net_world s) n = Some c \<longrightarrow> alive s (claim_key c) \<longrightarrow> \<not> releasing c \<longrightarrow>
        holds (srv_claims w) n (claim_machine c)) \<and>
     (\<forall>n c. srv_claims w n = Some c \<longrightarrow>
        (\<exists>d. srv_claims (net_world s) n = Some d \<and> claim_spec d = claim_spec c \<and> created_at d = created_at c) \<or>
        (srv_claims (net_world s) n = None \<and> claim_eni c = n \<and> net_due s (claim_key c) \<noteq> None \<and>
         \<not> releasing c \<and> created_at c = w_now w))"

definition machines_step :: "net \<Rightarrow> world \<Rightarrow> bool" where
  "machines_step s w \<longleftrightarrow> (\<forall>k\<in>dom (srv_machines w). alive s k) \<and>
     (\<forall>m\<in>ran (srv_machines w). supplied (advance w s) m)"

lemma advance_simps [simp]:
  "net_world (advance w s) = w" "net_seen (advance w s) = insert w (net_seen s)"
  "net_due (advance w s) = net_due s" "net_procs (advance w s) = net_procs s"
  by (simp_all add: advance_def)

lemma set_proc_simps [simp]:
  "net_world (set_proc i p s) = net_world s" "net_seen (set_proc i p s) = net_seen s"
  "net_due (set_proc i p s) = net_due s" "net_procs (set_proc i p s) = (net_procs s)(i := p)"
  by (simp_all add: set_proc_def)

lemma claims_step_keeps:
  "claims_step s w \<Longrightarrow> srv_claims (net_world s) n = Some c \<Longrightarrow> alive s (claim_key c) \<Longrightarrow> \<not> releasing c \<Longrightarrow>
     holds (srv_claims w) n (claim_machine c)"
  unfolding claims_step_def by blast

lemma claims_step_cases:
  assumes "claims_step s w" "srv_claims w n = Some c"
  obtains (old) d where "srv_claims (net_world s) n = Some d" "claim_spec d = claim_spec c" "created_at d = created_at c"
  | (fresh) "srv_claims (net_world s) n = None" "claim_eni c = n" "net_due s (claim_key c) \<noteq> None" "\<not> releasing c"
      "created_at c = w_now w"
proof -
  from assms(1) [unfolded claims_step_def, THEN conjunct2, rule_format, OF assms(2)]
  show thesis by (elim disjE exE conjE) (rule old fresh; assumption)+
qed

lemma clock_okD:
  assumes "clock_ok delay s"
  shows "net_world s \<in> net_seen s" "v \<in> net_seen s \<Longrightarrow> w_now v \<le> w_now (net_world s)"
    "net_due s k = Some t \<Longrightarrow> t \<le> w_now (net_world s) + delay"
  using assms unfolding clock_ok_def by blast+

lemma machines_okD: "machines_ok s \<Longrightarrow> v \<in> net_seen s \<Longrightarrow> k \<in> dom (srv_machines v) \<Longrightarrow> net_due s k \<noteq> None"
  unfolding machines_ok_def by (drule conjunct1, drule bspec, assumption, drule bspec, assumption)

lemma claim_key_spec: "claim_spec d = claim_spec c \<Longrightarrow> claim_key d = claim_key c"
  by (simp add: claim_key_def)

lemma alive_advance:
  assumes "w_now (net_world s) \<le> w_now w" "\<forall>k\<in>dom (srv_machines w). alive s k"
    and "alive (advance w s) k"
  shows "alive s k"
  using assms by (fastforce simp: alive_def)

lemma clock_advance: "clock_ok delay s \<Longrightarrow> w_now (net_world s) \<le> w_now w \<Longrightarrow> clock_ok delay (advance w s)"
  by (force simp: clock_ok_def)

lemma claims_advance:
  assumes "clock_ok delay s" "claims_ok delay s" "claims_step s w" "w_now (net_world s) \<le> w_now w"
  shows "claims_ok delay (advance w s)"
proof -
  have "claim_eni c = n \<and> (\<exists>t. net_due s (claim_key c) = Some t \<and> t \<le> created_at c + delay)"
    if c: "srv_claims w n = Some c" for n c
  proof -
    from assms(3) c show ?thesis
    proof (cases rule: claims_step_cases)
      case (old d)
      with assms(2) clock_okD(1) [OF assms(1)]
      have "claim_eni d = n \<and> (\<exists>t. net_due s (claim_key d) = Some t \<and> t \<le> created_at d + delay)"
        unfolding claims_ok_def by blast
      with old(2,3) claim_key_spec [OF old(2)] show ?thesis by simp
    next
      case fresh
      then obtain t where t: "net_due s (claim_key c) = Some t" by blast
      with clock_okD(3) [OF assms(1)] assms(4) fresh(5) have "t \<le> created_at c + delay" by fastforce
      with fresh t show ?thesis by blast
    qed
  qed
  with assms(2) show ?thesis by (simp add: claims_ok_def)
qed

lemma machines_advance:
  assumes "clock_ok delay s" "machines_ok s" "\<forall>k\<in>dom (srv_machines w). alive s k"
  shows "machines_ok (advance w s)"
proof -
  have due: "net_due s k \<noteq> None" if "k \<in> dom (srv_machines w)" for k
    using assms(2,3) that clock_okD(1) [OF assms(1)] unfolding machines_ok_def alive_def by blast
  have "k \<in> dom (srv_machines v)"
    if k: "k \<in> dom (srv_machines w)" and v: "v \<in> net_seen s" "net_due s k = Some t" "t \<le> w_now v" for k v t
  proof -
    from clock_okD(2) [OF assms(1) v(1)] v(2,3) assms(3) k have "k \<in> dom (srv_machines (net_world s))"
      by (fastforce simp: alive_def)
    with assms(2) v show ?thesis unfolding machines_ok_def by blast
  qed
  with due assms(2) show ?thesis unfolding machines_ok_def advance_simps by blast
qed

lemma held_advance:
  assumes "clock_ok delay s" "held s" "claims_step s w" "\<forall>k\<in>dom (srv_machines w). alive s k"
    "w_now (net_world s) \<le> w_now w"
  shows "held (advance w s)"
proof -
  have keep: "holds (srv_claims w) n (claim_machine c)"
    if c: "srv_claims v n = Some c" "v \<in> net_seen s" "alive s (claim_key c)" for v n c
  proof -
    from assms(2) that have "holds (srv_claims (net_world s)) n (claim_machine c)" by (simp add: held_def)
    then obtain d where d: "srv_claims (net_world s) n = Some d" "claim_machine d = claim_machine c" "\<not> releasing d"
      by (auto simp: holds_def)
    with c(3) have "alive s (claim_key d)" by (simp add: claim_key_def)
    from claims_step_keeps [OF assms(3) d(1) this d(3)] d(2) show ?thesis by simp
  qed
  have "holds (srv_claims w) n (claim_machine c)" if c: "srv_claims w n = Some c" "alive s (claim_key c)" for n c
    using assms(3) c(1)
  proof (cases rule: claims_step_cases)
    case (old d)
    from keep [OF old(1) clock_okD(1) [OF assms(1)]] old(2) claim_key_spec [OF old(2)] c(2) show ?thesis by simp
  next
    case fresh
    with c show ?thesis by (simp add: holds_def)
  qed
  with keep alive_advance [OF assms(5,4)] show ?thesis by (auto simp: held_def)
qed


text \<open>The processes that do not act: what they rely on is kept as long as their claim stays its machine's.\<close>

definition steady :: "net \<Rightarrow> world \<Rightarrow> string \<Rightarrow> bool" where
  "steady s w n \<longleftrightarrow> (\<forall>d. srv_claims (net_world s) n = Some d \<longrightarrow> same_machine (srv_claims w) n d)"

lemma steadyD: "steady s w n \<Longrightarrow> same_machine (srv_claims (net_world s)) n c \<Longrightarrow> same_machine (srv_claims w) n c"
  by (auto simp: steady_def same_machine_def)

lemma witnessed_advance: "witnessed s n r \<Longrightarrow> witnessed (advance w s) n r"
  by (auto simp: witnessed_def)

lemma subject_ok_advance: "subject_ok lag s now n c v \<Longrightarrow> steady s w n \<Longrightarrow> subject_ok lag (advance w s) now n c v"
  by (auto simp: subject_ok_def dest: steadyD)

lemma proc_advance:
  assumes "proc_ok lag s p" "\<And>now n. pr_job p = ReconcileClaim now n \<Longrightarrow> steady s w n"
  shows "proc_ok lag (advance w s) p"
proof (cases "pr_job p")
  case (ReconcileClaim now n)
  with assms show ?thesis by (auto simp: proc_ok_def dest: steadyD intro: subject_ok_advance)
qed (use assms in \<open>auto simp: proc_ok_def dest: witnessed_advance\<close>)

lemma proc_ok_set_proc [simp]: "proc_ok lag (set_proc i x s) p = proc_ok lag s p"
  by (simp add: proc_ok_def witnessed_def subject_ok_def split: job.split)

lemma net_inv_set_proc:
  assumes "net_inv lag delay s" "\<And>p. x = Some p \<Longrightarrow> proc_ok lag s p"
    and "\<And>p now n j q now'. x = Some p \<Longrightarrow> pr_job p = ReconcileClaim now n \<Longrightarrow> net_procs s j = Some q \<Longrightarrow>
      pr_job q = ReconcileClaim now' n \<Longrightarrow> j = i"
  shows "net_inv lag delay (set_proc i x s)"
proof -
  note inv = net_invD [OF assms(1)]
  have "clock_ok delay (set_proc i x s)" "claims_ok delay (set_proc i x s)" "machines_ok (set_proc i x s)"
    "held (set_proc i x s)" "machines_supplied (set_proc i x s)"
    using inv by (simp_all add: clock_ok_def claims_ok_def machines_ok_def held_def machines_supplied_def
        supplied_def witnessed_def alive_def)
  moreover have "procs_ok lag (set_proc i x s)"
    using inv(6) assms(2) by (auto simp: procs_ok_def ran_def)
  moreover have "one_each (set_proc i x s)"
    using inv(7) assms(3) unfolding one_each_def set_proc_simps by (metis fun_upd_apply)
  ultimately show ?thesis by (simp add: net_inv_def)
qed

lemma net_inv_advance:
  assumes "net_inv lag delay s" "w_now (net_world s) \<le> w_now w" "claims_step s w" "machines_step s w"
    and "\<And>p. p \<in> ran (net_procs s) \<Longrightarrow> proc_ok lag (advance w s) p"
  shows "net_inv lag delay (advance w s)"
proof -
  note inv = net_invD [OF assms(1)]
  from assms(4) have dom: "\<forall>k\<in>dom (srv_machines w). alive s k" by (simp add: machines_step_def)
  have "machines_supplied (advance w s)" using assms(4) by (simp add: machines_step_def machines_supplied_def)
  moreover have "procs_ok lag (advance w s)" using assms(5) by (simp add: procs_ok_def)
  moreover have "one_each (advance w s)" using inv(7) by (simp add: one_each_def)
  ultimately show ?thesis
    using clock_advance [OF inv(1) assms(2)] claims_advance [OF inv(1,2) assms(3,2)] machines_advance [OF inv(1,3) dom]
      held_advance [OF inv(1,4) assms(3) dom assms(2)]
    by (simp add: net_inv_def)
qed

text \<open>Steps of the environment: the claims stay as they are.\<close>

lemma claims_step_same: "srv_claims w = srv_claims (net_world s) \<Longrightarrow> claims_step s w"
  by (auto simp: claims_step_def holds_def)

lemma steady_same: "srv_claims w = srv_claims (net_world s) \<Longrightarrow> steady s w n"
  by (simp add: steady_def same_machine_def)

lemma supplied_advance: "supplied s m \<Longrightarrow> supplied (advance w s) m"
  by (auto simp: supplied_def witnessed_advance)

lemma machines_step_sub:
  assumes "machines_supplied s" "srv_machines w \<subseteq>\<^sub>m srv_machines (net_world s)"
  shows "machines_step s w"
proof -
  have "m \<in> ran (srv_machines (net_world s))" if "m \<in> ran (srv_machines w)" for m
    using that assms(2) by (auto simp: ran_def map_le_def dom_def) metis
  moreover have "alive s k" if "k \<in> dom (srv_machines w)" for k
    using that map_le_implies_dom_le [OF assms(2)] by (auto simp: alive_def)
  ultimately show ?thesis using assms(1) by (auto simp: machines_step_def machines_supplied_def intro: supplied_advance)
qed

lemma net_inv_env:
  assumes "net_inv lag delay s" "w_now (net_world s) \<le> w_now w" "srv_claims w = srv_claims (net_world s)" "machines_step s w"
  shows "net_inv lag delay (advance w s)"
  using assms(1,2) claims_step_same [OF assms(3)] assms(4)
  by (rule net_inv_advance)
    (use net_invD(6) [OF assms(1)] in \<open>auto simp: procs_ok_def intro: proc_advance steady_same [OF assms(3)]\<close>)


lemma machines_step_store:
  assumes "clock_ok delay s" "machines_supplied s" "alive s (am_key m)" "supplied s m"
  shows "machines_step s (store_machine m (net_world s))"
proof -
  have "\<forall>k\<in>dom (srv_machines (store_machine m (net_world s))). alive s k"
    using assms(3) by (auto simp: srv_machines_store alive_def)
  moreover have "supplied (advance w s) x" if "x \<in> ran (srv_machines (store_machine m (net_world s)))" for x w
    using that assms(2,4) ran_upd(1) [of x "srv_machines (net_world s)" "am_key m" m]
    by (auto simp: srv_machines_store machines_supplied_def intro: supplied_advance)
  ultimately show ?thesis by (simp add: machines_step_def)
qed

lemma net_inv_remove: "net_inv lag delay s \<Longrightarrow> net_inv lag delay (advance (remove_machine k (net_world s)) s)"
  by (rule net_inv_env) (auto simp: srv_machines_remove map_le_def intro!: machines_step_sub dest: net_invD(5))

lemma net_inv_tick: "net_inv lag delay s \<Longrightarrow> 0 \<le> d \<Longrightarrow>
    net_inv lag delay (advance ((net_world s)\<lparr>w_now := w_now (net_world s) + d\<rparr>) s)"
  by (rule net_inv_env) (auto intro!: machines_step_sub dest: net_invD(5))

lemma net_inv_pools: "net_inv lag delay s \<Longrightarrow> net_inv lag delay (advance ((net_world s)\<lparr>w_pools := ps\<rparr>) s)"
  by (rule net_inv_env) (auto intro!: machines_step_sub dest: net_invD(5))

lemma machine_ref_key: "am_key m = am_key m' \<Longrightarrow> machine_ref m = machine_ref m'"
  by (simp add: machine_ref_def meta_key_def)

lemma supplied_same:
  "supplied s m \<Longrightarrow> am_networkInterfaces m' = am_networkInterfaces m \<Longrightarrow> am_key m' = am_key m \<Longrightarrow> supplied s m'"
  by (simp add: supplied_def machine_ref_key [of m' m])

lemma net_inv_store:
  assumes "net_inv lag delay s" "alive s (am_key m)" "supplied s m"
  shows "net_inv lag delay (advance (store_machine m (net_world s)) s)"
  using machines_step_store [OF net_invD(1,5) [OF assms(1)] assms(2,3)]
  by (intro net_inv_env [OF assms(1)]) simp_all

lemma net_inv_edit:
  assumes "net_inv lag delay s" "srv_machines (net_world s) (am_key m) = Some m0"
    "am_networkInterfaces m = am_networkInterfaces m0"
  shows "net_inv lag delay (advance (store_machine m (net_world s)) s)"
proof (rule net_inv_store [OF assms(1)])
  show "alive s (am_key m)" using assms(2) by (auto simp: alive_def)
  have "supplied s m0" using net_invD(5) [OF assms(1)] assms(2) by (simp add: machines_supplied_def ranI)
  then show "supplied s m"
    using assms(3) srv_machines_named [OF assms(2)] by (intro supplied_same [of s m0 m]) simp_all
qed

section \<open>Steps of the processes\<close>

lemma created_in_simps [simp]: "\<not> created_in [] c"
  "created_in (rs @ [(a, v)]) c \<longleftrightarrow> created_in rs c \<or> a = Claim (Inr c)"
  by (auto simp: created_in_def)

lemma witnessed_due: "witnessed (set_due delay k s) n r = witnessed s n r"
  by (simp add: witnessed_def set_due_def)

lemma net_inv_set_due:
  assumes "net_inv lag delay s"
  shows "net_inv lag delay (set_due delay k s)"
proof (cases "net_due s k = None")
  case True
  let ?s = "set_due delay k s"
  have s: "net_world ?s = net_world s" "net_seen ?s = net_seen s" "net_procs ?s = net_procs s"
    "net_due ?s = (net_due s)(k \<mapsto> w_now (net_world s) + delay)" using True by (simp_all add: set_due_def)
  note inv = net_invD [OF assms]
  have mono: "net_due s j \<noteq> None \<Longrightarrow> net_due ?s j = net_due s j" for j using True by (auto simp: s)
  have "clock_ok delay ?s" using inv(1) by (auto simp: clock_ok_def s)
  moreover have "claims_ok delay ?s"
    unfolding claims_ok_def s(2)
  proof (intro ballI allI impI)
    fix v n c
    assume "v \<in> net_seen s" "srv_claims v n = Some c"
    with inv(2) have "claim_eni c = n \<and> (\<exists>t. net_due s (claim_key c) = Some t \<and> t \<le> created_at c + delay)"
      unfolding claims_ok_def by blast
    with mono [of "claim_key c"] show "claim_eni c = n \<and> (\<exists>t. net_due ?s (claim_key c) = Some t \<and> t \<le> created_at c + delay)"
      by auto
  qed
  moreover have "machines_ok ?s"
  proof -
    have "j \<noteq> k" if "j \<in> dom (srv_machines v)" "v \<in> net_seen s" for j v
      using inv(3) that True unfolding machines_ok_def by blast
    with inv(3) clock_okD(1) [OF inv(1)] show ?thesis unfolding machines_ok_def s fun_upd_apply
      by (metis option.distinct(1))
  qed
  moreover have "held ?s"
  proof -
    have "alive s (claim_key c)" if "alive ?s (claim_key c)" "srv_claims v n = Some c" "v \<in> net_seen s" for c v n
    proof -
      from inv(2) that have "net_due s (claim_key c) \<noteq> None" unfolding claims_ok_def by blast
      with that(1) mono show ?thesis by (simp add: alive_def s(1))
    qed
    with inv(4) show ?thesis unfolding held_def s by blast
  qed
  moreover have "machines_supplied ?s" using inv(5) by (simp add: machines_supplied_def supplied_def witnessed_def s)
  moreover have "procs_ok lag ?s"
  proof -
    have "proc_ok lag ?s p" if "proc_ok lag s p" for p
      using that mono by (auto simp: proc_ok_def witnessed_def subject_ok_def s split: job.splits)
    with inv(6) show ?thesis by (simp add: procs_ok_def s)
  qed
  moreover have "one_each ?s" using inv(7) unfolding one_each_def s .
  ultimately show ?thesis by (simp add: net_inv_def)
next
  case False
  then show ?thesis using assms by (auto simp: set_due_def)
qed

lemma net_inv_submit:
  assumes "net_inv lag delay s" "am_networkInterfaces m = []"
  shows "net_inv lag delay (set_proc i (Some (begin_call (Admit rq m) v)) (set_due delay (am_key m) s))"
proof (rule net_inv_set_proc [OF net_inv_set_due [OF assms(1)]])
  show "proc_ok lag (set_due delay (am_key m) s) p" if "Some (begin_call (Admit rq m) v) = Some p" for p
    using that assms(2) by (auto simp: proc_ok_def begin_call_def set_due_def)
qed (auto simp: begin_call_def)

lemma subject_first: "subject (script_of (begin_call j v)) n = Some (c, u) \<Longrightarrow>
    srv_claims (see_claims v) n = Some c \<and> u = v"
  by (auto simp: subject_def begin_call_def split: option.splits if_splits)

lemma net_inv_call:
  assumes "net_inv lag delay s" "\<not> is_admit j" "may_see lag s j v" "may_start s j v"
    and "\<And>now n. j = ReconcileClaim now n \<Longrightarrow> \<not> busy s n"
  shows "net_inv lag delay (set_proc i (Some (begin_call j v)) s)"
proof (rule net_inv_set_proc [OF assms(1)])
  fix p :: process
  assume p: "Some (begin_call j v) = Some p"
  show "proc_ok lag s p"
  proof (cases j)
    case (ReconcileClaim now n)
    have "subject_ok lag s now n c u" if "subject (script_of (begin_call j v)) n = Some (c, u)" for c u
    proof -
      from subject_first [OF that] have c: "srv_claims (see_claims v) n = Some c" "u = v" by simp_all
      with assms(3,4) ReconcileClaim srv_claims_named [OF c(1)] show ?thesis
        by (auto simp: subject_ok_def may_see_def may_start_def)
    qed
    with p ReconcileClaim assms(4) show ?thesis
      by (auto simp: proc_ok_def may_start_def begin_call_def)
  qed (use p assms(2,3) in \<open>auto simp: proc_ok_def begin_call_def is_admit_def may_see_def\<close>)
next
  fix p :: process and now n k q now'
  assume "Some (begin_call j v) = Some p" "pr_job p = ReconcileClaim now n" "net_procs s k = Some q" "pr_job q = ReconcileClaim now' n"
  then have "busy s n" "j = ReconcileClaim now n" by (auto simp: begin_call_def busy_def ran_def)
  with assms(5) show "k = i" by blast
qed

lemma net_inv_read_again:
  assumes "net_inv lag delay s" "net_procs s i = Some p" "pr_rounds p = rs @ [(a, u)]" "may_see lag s (pr_job p) v"
  shows "net_inv lag delay (set_proc i (Some (p\<lparr>pr_rounds := rs @ [(a, v)]\<rparr>)) s)"
proof (rule net_inv_set_proc [OF assms(1)])
  fix q
  assume "Some (p\<lparr>pr_rounds := rs @ [(a, v)]\<rparr>) = Some q"
  then have q: "q = p\<lparr>pr_rounds := rs @ [(a, v)]\<rparr>" by simp
  have ok: "proc_ok lag s p" using net_invD(6) [OF assms(1)] assms(2) by (simp add: procs_ok_def ranI)
  show "proc_ok lag s q"
  proof (cases "pr_job p")
    case (ReconcileClaim now n)
    have "subject_ok lag s now n c w" if "subject (script_of q) n = Some (c, w)" for c w
    proof -
      from that have "w = v" "subject (script_of p) n = Some (c, u)"
        by (auto simp: subject_def q assms(3) script_of_def split: option.splits if_splits list.splits prod.splits
            answer.splits sum.splits)
      with ok ReconcileClaim assms(4) show ?thesis by (auto simp: proc_ok_def subject_ok_def may_see_def)
    qed
    with ReconcileClaim q show ?thesis by (simp add: proc_ok_def)
  qed (use ok q assms(3) in \<open>auto simp: proc_ok_def\<close>)
next
  fix q now n j r now'
  assume "Some (p\<lparr>pr_rounds := rs @ [(a, v)]\<rparr>) = Some q" "pr_job q = ReconcileClaim now n" "net_procs s j = Some r"
    "pr_job r = ReconcileClaim now' n"
  with net_invD(7) [OF assms(1)] assms(2) show "j = i" by (auto simp: one_each_def)
qed


section \<open>Writes\<close>

text \<open>What a process may ask for, given what holds of it.\<close>

fun permitted :: "net \<Rightarrow> request \<Rightarrow> bool" where
  "permitted s (Create c) = (net_due s (claim_key c) \<noteq> None)"
| "permitted s (PatchMachine b m) = (am_networkInterfaces b = [] \<and> (am_networkInterfaces m = [] \<or>
     (\<exists>i. am_networkInterfaces m = [i] \<and> witnessed s i (machine_ref b))))"
| "permitted s (DeleteClaim c) =
     (same_machine (srv_claims (net_world s)) (claim_name c) c \<and> \<not> alive s (claim_key c))"
| "permitted s _ = True"

definition creates :: "request \<Rightarrow> bool" where
  "creates rq \<longleftrightarrow> (\<exists>c. rq = Create c)"

lemma machine_key_ref: "srv_machines w (ns, n) = Some m \<Longrightarrow> machine_ref m = \<lparr>nref_namespace = ns, nref_name = n\<rparr>"
  by (auto simp: machine_ref_def meta_key_def dest: srv_machines_named)

lemma ref_key_new_claim: "claim_key (new_claim (machine_ref m) pool x) = am_key m"
  by (simp add: claim_key_def machine_ref_def meta_key_def)

lemma awaits_permitted:
  assumes inv: "net_inv lag delay s" and bound: "lag + delay \<le> 30 * Second"
    and p: "net_procs s i = Some p" and rq: "awaits p = Some rq"
  shows "permitted s rq \<and> (\<forall>n. about rq = Some n \<longrightarrow> \<not> creates rq \<longrightarrow> (\<exists>now. pr_job p = ReconcileClaim now n))"
proof -
  note I = net_invD [OF inv]
  from I(6) p have ok: "proc_ok lag s p" by (simp add: procs_ok_def ranI)
  show ?thesis
  proof (cases "pr_job p")
    case (Admit ar m)
    obtain e m' s' where run: "Default_AWSMachine (Some script_ports) ar m (script_of p) = ((e, m'), s')"
      by (metis prod.collapse)
    from rq Admit run have "waits s' = Some rq" by (simp add: awaits_def)
    with admission_asks [OF run] obtain pool x where "rq = Create (new_claim (machine_ref m) pool x)" by auto
    with ok Admit ref_key_new_claim show ?thesis by (auto simp: proc_ok_def creates_def)
  next
    case (ReconcileMachine ns n)
    obtain r s' where run: "Reconcile_AWSMachine script_ports ns n (script_of p) = (r, s')" by force
    from rq ReconcileMachine run have "waits s' = Some rq" by (simp add: awaits_def)
    from machine_asks [OF run _ this] obtain m where m: "srv_machines (see_machines (pr_first p)) (ns, n) = Some m" "served m"
      and asks: "(\<exists>pool x. rq = Create (new_claim (machine_ref m) pool x)) \<or>
        machine_patch m (\<lambda>c. (c \<in> ran (srv_claims (see_claims (pr_first p))) \<and> claim_machine c = machine_ref m) \<or>
          created_in (pr_rounds p) c) rq" by auto
    from ok ReconcileMachine have seen: "see_claims (pr_first p) \<in> net_seen s" "see_machines (pr_first p) \<in> net_seen s"
      and new: "\<forall>c. created_in (pr_rounds p) c \<longrightarrow> witnessed s (claim_eni c) (machine_ref m)"
      by (simp_all add: proc_ok_def machine_key_ref [OF m(1)])
    from asks show ?thesis
    proof
      assume "\<exists>pool x. rq = Create (new_claim (machine_ref m) pool x)"
      moreover have "net_due s (am_key m) \<noteq> None"
        using machines_okD [OF I(3) seen(2), of "(ns, n)"] m(1) srv_machines_named [OF m(1)] by (simp add: domI)
      ultimately show ?thesis by (auto simp: ref_key_new_claim creates_def)
    next
      have listed: "witnessed s (claim_eni c) (machine_ref m)"
        if "c \<in> ran (srv_claims (see_claims (pr_first p)))" "claim_machine c = machine_ref m" for c
      proof -
        from that(1) obtain k where k: "srv_claims (see_claims (pr_first p)) k = Some c" by (auto simp: ran_def)
        with I(2) seen(1) have "claim_eni c = k" by (simp add: claims_ok_def)
        with k that(2) seen(1) show ?thesis by (auto simp: witnessed_def)
      qed
      assume "machine_patch m (\<lambda>c. (c \<in> ran (srv_claims (see_claims (pr_first p))) \<and> claim_machine c = machine_ref m) \<or>
          created_in (pr_rounds p) c) rq"
      with listed new m(2) show ?thesis by (auto simp: machine_patch_def served_def)
    qed
  next
    case (ReconcileClaim now n)
    obtain r s' where run: "Reconcile_ENIClaim script_ports now n (script_of p) = (r, s')" by force
    from rq ReconcileClaim run have w: "waits s' = Some rq" by (simp add: awaits_def)
    from claim_asks [OF run _ w] obtain c0 where c0: "srv_claims (see_claims (pr_first p)) n = Some c0"
      and asks: "(\<exists>new. rq = PatchClaim c0 new) \<or> (\<exists>c v. subject (script_of p) n = Some (c, v) \<and> claim_decides now c v rq)"
      by auto
    from asks show ?thesis
    proof
      assume "\<exists>new. rq = PatchClaim c0 new"
      with srv_claims_named [OF c0] ReconcileClaim show ?thesis by auto
    next
      assume "\<exists>c v. subject (script_of p) n = Some (c, v) \<and> claim_decides now c v rq"
      then obtain c v where cv: "subject (script_of p) n = Some (c, v)" "claim_decides now c v rq" by blast
      with ok ReconcileClaim have sub: "subject_ok lag s now n c v" by (simp add: proc_ok_def)
      from cv(2) show ?thesis unfolding claim_decides_def
      proof (elim disjE exE conjE)
        assume "rq = DeleteClaim c" "expired now c" "srv_machines (see_machines v) (claim_key c) = None"
        with expired_is_dead [OF I(1-3) bound sub] sub ReconcileClaim show ?thesis by (simp add: subject_ok_def)
      next
        fix c'
        assume "rq = UpdateClaimStatus c'" "claim_name c' = claim_name c"
        with sub ReconcileClaim show ?thesis by (simp add: subject_ok_def)
      qed
    qed
  next
    case (ReconcilePool n)
    obtain r s' where run: "Reconcile_ENIPool script_ports n (script_of p) = (r, s')" by force
    with rq ReconcilePool have "waits s' = Some rq" by (simp add: awaits_def)
    from pool_asks [OF run _ this] show ?thesis by auto
  qed
qed

text \<open>A rewritten claim keeps its spec and its age, and one that is not being deleted stays unless it is deleted.\<close>

lemma rewritten_Some:
  assumes "rewritten rq t cur = Some c"
  shows "claim_spec c = claim_spec cur" "created_at c = created_at cur"
  using assms by (cases rq; auto simp: created_at_def merge_claim_def stamp_def dest!: settle_Some)+

lemma rewritten_alive:
  assumes "\<not> releasing cur" "\<And>c. rq \<noteq> DeleteClaim c"
  shows "\<exists>c. rewritten rq t cur = Some c \<and> \<not> releasing c"
  using assms by (cases rq) (auto simp: settle_def releasing_def merge_claim_def)

lemma created_claim_key: "claim_key (created_claim t c) = claim_key c"
  by (simp add: claim_key_def)

lemma exec_claims_step:
  assumes inv: "net_inv lag delay s" and ok: "permitted s rq" and run: "exec rq (net_world s) = (a, w)"
  shows "claims_step s w"
proof -
  note I = net_invD [OF inv]
  let ?w = "net_world s"
  from exec_claims [OF run] consider "srv_claims w = srv_claims ?w"
    | (new) n c where "rq = Create c" "srv_claims ?w n = None" "claim_eni c = n"
        "srv_claims w = (srv_claims ?w)(n \<mapsto> created_claim (w_now ?w) c)"
    | (upd) n cur where "about rq = Some n" "srv_claims ?w n = Some cur"
        "srv_claims w = (srv_claims ?w)(n := rewritten rq (w_now ?w) cur)"
    by blast
  then show ?thesis
  proof cases
    case 1
    then show ?thesis by (rule claims_step_same)
  next
    case new
    have "net_due s (claim_key c) \<noteq> None" using ok new(1) by simp
    with new exec_now [OF run] show ?thesis
      by (auto simp: claims_step_def holds_def created_claim_key releasing_def created_at_def)
  next
    case upd
    have stays: "holds (srv_claims w) n (claim_machine cur)" if "alive s (claim_key cur)" "\<not> releasing cur"
    proof -
      have "rq \<noteq> DeleteClaim c" for c
      proof
        assume d: "rq = DeleteClaim c"
        with ok upd(1,2) have "claim_machine c = claim_machine cur" by (auto simp: same_machine_def)
        with ok d that(1) show False by (simp add: claim_key_def)
      qed
      with rewritten_alive [OF that(2)] obtain c where "rewritten rq (w_now ?w) cur = Some c" "\<not> releasing c" by blast
      with rewritten_Some [of rq "w_now ?w" cur c] upd(3) show ?thesis by (simp add: holds_def)
    qed
    have "holds (srv_claims w) k (claim_machine c)"
      if "srv_claims ?w k = Some c" "alive s (claim_key c)" "\<not> releasing c" for k c
    proof (cases "k = n")
      case True
      with that upd(2) stays show ?thesis by simp
    next
      case False
      with that upd(3) show ?thesis by (simp add: holds_def)
    qed
    moreover have "\<exists>d. srv_claims ?w k = Some d \<and> claim_spec d = claim_spec c \<and> created_at d = created_at c"
      if "srv_claims w k = Some c" for k c
    proof (cases "k = n")
      case True
      with that upd(3) have "rewritten rq (w_now ?w) cur = Some c" by simp
      from rewritten_Some [OF this] True upd(2) show ?thesis by simp
    next
      case False
      with that upd(3) show ?thesis by simp
    qed
    ultimately show ?thesis unfolding claims_step_def by blast
  qed
qed

lemma exec_machines_step:
  assumes inv: "net_inv lag delay s" and ok: "permitted s rq" and run: "exec rq (net_world s) = (a, w)"
  shows "machines_step s w"
proof -
  note I = net_invD [OF inv]
  from exec_machines [OF run] show ?thesis
  proof (elim disjE exE conjE)
    assume "srv_machines w = srv_machines (net_world s)"
    with machines_step_sub [OF I(5)] show ?thesis by simp
  next
    fix b m cur
    assume m: "rq = PatchMachine b m" "srv_machines (net_world s) (am_key b) = Some cur"
      "srv_machines w = (srv_machines (net_world s))(am_key b \<mapsto> merge_awsmachine b m cur)"
    let ?m = "merge_awsmachine b m cur"
    have key: "am_key ?m = am_key cur" "am_key cur = am_key b" using srv_machines_named [OF m(2)] by simp_all
    have cur: "supplied s cur" using I(5) m(2) by (simp add: machines_supplied_def ranI)
    have "supplied s ?m"
    proof (cases "am_networkInterfaces m = []")
      case True
      with ok m(1) have "am_networkInterfaces ?m = am_networkInterfaces cur" by (simp add: merge_field_def)
      from supplied_same [OF cur this key(1)] show ?thesis .
    next
      case False
      with ok m(1) have "am_networkInterfaces ?m = am_networkInterfaces m" by (auto simp: merge_field_def)
      with ok m(1) False key machine_ref_key [of ?m b] show ?thesis by (auto simp: supplied_def)
    qed
    then have "supplied (advance w s) x" if "x \<in> ran (srv_machines w)" for x
      using that I(5) ran_upd(1) [of x "srv_machines (net_world s)" "am_key b" ?m] m(3)
      by (auto simp: machines_supplied_def intro: supplied_advance)
    with m show ?thesis by (auto simp: machines_step_def alive_def)
  qed
qed

lemma exec_steady:
  assumes "exec rq (net_world s) = (a, w)" "about rq = Some n \<longrightarrow> creates rq"
  shows "steady s w n"
  using exec_claims [OF assms(1)] assms(2) by (auto simp: steady_def same_machine_def creates_def)


lemma outcome_effect:
  assumes inv: "net_inv lag delay s" and ok: "permitted s rq" and out: "outcome rq (net_world s) a w"
  shows "w_now w = w_now (net_world s)" "claims_step s w" "machines_step s w"
    "\<And>n. about rq = Some n \<longrightarrow> creates rq \<Longrightarrow> steady s w n"
proof -
  have same: "claims_step s (net_world s)" "machines_step s (net_world s)" "steady s (net_world s) n" for n
    using claims_step_same [of "net_world s" s] machines_step_sub [OF net_invD(5) [OF inv], of "net_world s"]
      steady_same [of "net_world s" s n] by simp_all
  from out consider b where "exec rq (net_world s) = (b, w)" | "w = net_world s"
    by (auto elim: outcome.cases)
  then have "w_now w = w_now (net_world s) \<and> claims_step s w \<and> machines_step s w \<and>
      (\<forall>n. (about rq = Some n \<longrightarrow> creates rq) \<longrightarrow> steady s w n)"
  proof cases
    case 1
    from exec_now [OF 1] exec_claims_step [OF inv ok 1] exec_machines_step [OF inv ok 1] exec_steady [OF 1]
    show ?thesis by blast
  next
    case 2
    with same show ?thesis by simp
  qed
  then show "w_now w = w_now (net_world s)" "claims_step s w" "machines_step s w"
    "\<And>n. about rq = Some n \<longrightarrow> creates rq \<Longrightarrow> steady s w n" by blast+
qed

lemma outcome_Inr: "outcome rq w a w' \<Longrightarrow> a = Claim (Inr c) \<Longrightarrow> exec rq w = (Claim (Inr c), w')"
  by (auto simp: is_error_def elim: outcome.cases)

lemma created_witnessed:
  assumes "exec rq w = (Claim (Inr c), w')" "rq = Create (new_claim r pool x)"
  shows "witnessed (advance w' s) (claim_eni c) r"
proof -
  obtain y where y: "srv_create_claim (new_claim r pool x) w = (Inr c, w')" using assms by (auto split: prod.splits)
  have "c = created_claim (w_now w) (new_claim r pool x)"
    "srv_claims w' = (srv_claims w)(ref_id x \<mapsto> c)"
    using srv_create_cases(1) [OF y] srv.create_stores [OF y] by simp_all
  then show ?thesis by (auto simp: witnessed_def)
qed

text \<open>The claim that the PATCH of the finalizer returns is stored and still the machine's.\<close>

lemma patched_subject:
  assumes run: "exec (PatchClaim b new) w = (Claim (Inr d), w')" and same: "same_machine (srv_claims w) (claim_name b) b"
    and fins: "claim_finalizers new \<noteq> claim_finalizers b" "claim_finalizers new \<noteq> []"
  shows "srv_claims w' (claim_name b) = Some d \<and> claim_name d = claim_name b \<and> claim_machine d = claim_machine b"
proof -
  let ?n = "claim_name b"
  from same obtain cur where cur: "srv_claims w ?n = Some cur" "claim_machine cur = claim_machine b"
    by (auto simp: same_machine_def)
  have "claim_finalizers (merge_claim b new cur) \<noteq> []" using fins by (simp add: merge_claim_def merge_field_def)
  then have keep: "settle (merge_claim b new cur) = Some (merge_claim b new cur)" by (simp add: settle_guarded)
  from srv.patch_ok [OF cur(1), of new] run keep have "d = merge_claim b new cur"
    "srv_claims w' = (srv_claims w)(?n \<mapsto> d)" by (auto split: prod.splits)
  with cur srv_claims_named [OF cur(1)] show ?thesis by simp
qed

lemma responded_ok:
  assumes inv: "net_inv lag delay s" and bound: "lag + delay \<le> 30 * Second"
    and p: "net_procs s i = Some p" and rq: "awaits p = Some rq" and out: "outcome rq (net_world s) a w"
    and v: "may_see lag (advance w s) (pr_job p) v"
  shows "proc_ok lag (advance w s) (p\<lparr>pr_rounds := pr_rounds p @ [(a, v)]\<rparr>)"
proof -
  note I = net_invD [OF inv]
  from I(6) p have ok: "proc_ok lag s p" by (simp add: procs_ok_def ranI)
  show ?thesis
  proof (cases "pr_job p")
    case (Admit ar m)
    have "witnessed (advance w s) (claim_eni c) (machine_ref m)" if "a = Claim (Inr c)" for c
    proof -
      obtain e m' s' where run: "Default_AWSMachine (Some script_ports) ar m (script_of p) = ((e, m'), s')"
        by (metis prod.collapse)
      from rq Admit run have "waits s' = Some rq" by (simp add: awaits_def)
      with admission_asks [OF run] obtain pool x where "rq = Create (new_claim (machine_ref m) pool x)" by auto
      from created_witnessed [OF outcome_Inr [OF out that] this] show ?thesis .
    qed
    with ok Admit show ?thesis by (auto simp: proc_ok_def intro: witnessed_advance)
  next
    case (ReconcileMachine ns n)
    have "witnessed (advance w s) (claim_eni c) \<lparr>nref_namespace = ns, nref_name = n\<rparr>" if a: "a = Claim (Inr c)" for c
    proof -
      obtain r s' where run: "Reconcile_AWSMachine script_ports ns n (script_of p) = (r, s')" by force
      from rq ReconcileMachine run have "waits s' = Some rq" by (simp add: awaits_def)
      from machine_asks [OF run _ this] obtain m where m: "srv_machines (see_machines (pr_first p)) (ns, n) = Some m"
        and "(\<exists>pool x. rq = Create (new_claim (machine_ref m) pool x)) \<or> (\<exists>m'. rq = PatchMachine m m')"
        by (auto simp: machine_patch_def)
      with outcome_Inr [OF out a] obtain pool x where "rq = Create (new_claim (machine_ref m) pool x)"
        by (auto split: prod.splits)
      from created_witnessed [OF outcome_Inr [OF out a] this] machine_key_ref [OF m] show ?thesis by simp
    qed
    with ok ReconcileMachine show ?thesis by (auto simp: proc_ok_def intro: witnessed_advance)
  next
    case (ReconcileClaim now n)
    have "subject_ok lag (advance w s) now n c u"
      if sub: "subject (script_of (p\<lparr>pr_rounds := pr_rounds p @ [(a, v)]\<rparr>)) n = Some (c, u)" for c u
    proof -
      from sub obtain c0 where c0: "srv_claims (see_claims (pr_first p)) n = Some c0" "\<not> releasing c0"
        "ClaimFinalizer \<notin> set (claim_finalizers c0)" and a: "pr_rounds p = []" "a = Claim (Inr c)" "u = v"
        by (auto simp: subject_def script_of_def split: option.splits if_splits list.splits prod.splits
            answer.splits sum.splits dest: append_eq_Cons_conv [THEN iffD1])
      obtain r s' where run: "Reconcile_ENIClaim script_ports now n (script_of p) = (r, s')" by force
      from rq ReconcileClaim run have "waits s' = Some rq" by (simp add: awaits_def)
      moreover have "subject (script_of p) n = None" using c0 a(1) by (simp add: subject_def)
      ultimately obtain new where new: "rq = PatchClaim c0 new" "claim_finalizers new \<noteq> claim_finalizers c0"
        "claim_finalizers new \<noteq> []" using claim_asks [OF run] c0(1,2) by auto
      have name: "claim_name c0 = n" using srv_claims_named [OF c0(1)] .
      have "same_machine (srv_claims (net_world s)) n c0" using ok ReconcileClaim c0(1) a(1) by (simp add: proc_ok_def)
      with patched_subject [OF outcome_Inr [OF out a(2), unfolded new(1)] _ new(2,3)] name
      have "srv_claims w n = Some c" "claim_name c = n" by simp_all
      with v ReconcileClaim a(3) show ?thesis by (auto simp: subject_ok_def same_machine_def may_see_def)
    qed
    with ReconcileClaim show ?thesis by (simp add: proc_ok_def)
  qed (simp add: proc_ok_def)
qed

lemma net_inv_respond:
  assumes inv: "net_inv lag delay s" and bound: "lag + delay \<le> 30 * Second"
    and p: "net_procs s i = Some p" and rq: "awaits p = Some rq" and out: "outcome rq (net_world s) a w"
    and v: "may_see lag (advance w s) (pr_job p) v"
  shows "net_inv lag delay (set_proc i (Some (p\<lparr>pr_rounds := pr_rounds p @ [(a, v)]\<rparr>)) (advance w s))"
proof -
  let ?p = "p\<lparr>pr_rounds := pr_rounds p @ [(a, v)]\<rparr>" and ?t = "set_proc i None s"
  from awaits_permitted [OF inv bound p rq] have ok: "permitted s rq"
    and job: "\<And>n. about rq = Some n \<Longrightarrow> \<not> creates rq \<Longrightarrow> \<exists>now. pr_job p = ReconcileClaim now n" by blast+
  note eff = outcome_effect [OF inv ok out]
  have t: "net_inv lag delay ?t" by (rule net_inv_set_proc [OF inv]) simp_all
  have "net_inv lag delay (advance w ?t)"
  proof (rule net_inv_advance [OF t])
    show "w_now (net_world ?t) \<le> w_now w" using eff(1) by simp
    show "claims_step ?t w" using eff(2) by (simp add: claims_step_def alive_def)
    show "machines_step ?t w" using eff(3) by (simp add: machines_step_def alive_def supplied_def witnessed_def)
    fix q
    assume "q \<in> ran (net_procs ?t)"
    then obtain j where j: "j \<noteq> i" "net_procs s j = Some q" by (auto simp: ran_def split: if_splits)
    have "proc_ok lag ?t q" using net_invD(6) [OF inv] j(2) by (simp add: procs_ok_def ranI)
    then show "proc_ok lag (advance w ?t) q"
    proof (rule proc_advance)
      fix now n
      assume n: "pr_job q = ReconcileClaim now n"
      have "steady s w n"
      proof (rule eff(4), rule impI, rule ccontr)
        assume "about rq = Some n" "\<not> creates rq"
        then obtain now' where "pr_job p = ReconcileClaim now' n" using job by blast
        with net_invD(7) [OF inv] p j n show False unfolding one_each_def by blast
      qed
      then show "steady ?t w n" by (simp add: steady_def)
    qed
  qed
  then have "net_inv lag delay (set_proc i (Some ?p) (advance w ?t))"
  proof (rule net_inv_set_proc)
    fix q
    assume "Some ?p = Some q"
    then have q: "q = ?p" by simp
    have "advance w ?t = set_proc i None (advance w s)" by (simp add: advance_def set_proc_def)
    with responded_ok [OF inv bound p rq out v] show "proc_ok lag (advance w ?t) q" by (simp only: q proc_ok_set_proc)
  next
    fix q now n j r now'
    assume "Some ?p = Some q" "pr_job q = ReconcileClaim now n" "net_procs (advance w ?t) j = Some r"
      "pr_job r = ReconcileClaim now' n"
    with net_invD(7) [OF inv] p show "j = i" by (auto simp: one_each_def split: if_splits)
  qed
  moreover have "set_proc i (Some ?p) (advance w ?t) = set_proc i (Some ?p) (advance w s)"
    by (simp add: set_proc_def advance_def)
  ultimately show ?thesis by simp
qed

lemma net_inv_persist:
  assumes inv: "net_inv lag delay s" and p: "net_procs s i = Some p" "pr_job p = Admit rq m" "awaits p = None"
    and adm: "returns p = Admitted None m'" and due: "net_due s (am_key m) = Some t" "w_now (net_world s) < t"
  shows "net_inv lag delay (set_proc i None (advance (store_machine m' (net_world s)) s))"
proof -
  have ok: "proc_ok lag s p" using net_invD(6) [OF inv] p(1) by (simp add: procs_ok_def ranI)
  obtain s' where run: "Default_AWSMachine (Some script_ports) rq m (script_of p) = ((None, m'), s')"
    using adm p(2) by (auto simp: returns_def split: prod.splits)
  have m': "am_key m' = am_key m \<and> supplied s m'"
    using conjunct2 [OF admission_asks [OF run script_of_simps(3)]]
  proof
    assume "m' = m"
    with ok p(2) show ?thesis by (simp add: proc_ok_def supplied_def)
  next
    assume "\<exists>c. m' = injected m (claim_eni c) \<and> created_in (answers (script_of p)) c"
    with ok p(2) show ?thesis by (auto simp: proc_ok_def supplied_def meta_key_def machine_ref_def)
  qed
  have "net_inv lag delay (advance (store_machine m' (net_world s)) s)"
    by (rule net_inv_store [OF inv]) (use m' due in \<open>auto simp: alive_def\<close>)
  then show ?thesis by (rule net_inv_set_proc) simp_all
qed

section \<open>Reachable states\<close>

lemma net_inv_start: "net_start s \<Longrightarrow> net_inv lag delay s"
  by (auto simp: net_start_def net_inv_def clock_ok_def claims_ok_def machines_ok_def held_def machines_supplied_def
      procs_ok_def one_each_def srv_claims_def srv_machines_def)

lemma net_inv_step:
  assumes "net_step lag delay s s'" "net_inv lag delay s" "lag + delay \<le> 30 * Second"
  shows "net_inv lag delay s'"
  using assms(1)
proof cases
  case gone
  with assms(2) show ?thesis by (auto intro: net_inv_set_proc)
qed (use assms(2,3) in \<open>auto intro: net_inv_submit net_inv_call net_inv_read_again net_inv_respond net_inv_persist
      net_inv_edit net_inv_remove net_inv_tick net_inv_pools\<close>)

lemma net_inv_reachable:
  assumes "net_reachable lag delay s" "lag + delay \<le> 30 * Second"
  shows "net_inv lag delay s"
proof -
  from assms(1) obtain s0 where "net_start s0" "(net_step lag delay)\<^sup>*\<^sup>* s0 s" by (auto simp: net_reachable_def)
  from this(2) show ?thesis
    by (induction rule: rtranclp_induct) (use net_inv_start [OF \<open>net_start s0\<close>] net_inv_step assms(2) in blast)+
qed

lemma inv_supplied:
  assumes "net_inv lag delay s" "srv_machines (net_world s) k = Some m"
  shows "am_networkInterfaces m = [] \<or>
    (\<exists>i. am_networkInterfaces m = [i] \<and> holds (srv_claims (net_world s)) i (machine_ref m))"
proof (cases "am_networkInterfaces m = []")
  case False
  have "supplied s m" using net_invD(5) [OF assms(1)] assms(2) by (simp add: machines_supplied_def ranI)
  with False obtain i where i: "am_networkInterfaces m = [i]" "witnessed s i (machine_ref m)"
    by (auto simp: supplied_def)
  then obtain v c where c: "v \<in> net_seen s" "srv_claims v i = Some c" "claim_machine c = machine_ref m"
    by (auto simp: witnessed_def)
  have "claim_key c = am_key m" using c(3) by (simp add: claim_key_def machine_ref_def meta_key_def)
  then have "alive s (claim_key c)" using assms(2) srv_machines_named [OF assms(2)] by (auto simp: alive_def)
  with net_invD(4) [OF assms(1)] c have "holds (srv_claims (net_world s)) i (claim_machine c)"
    unfolding held_def by blast
  with i(1) c(3) show ?thesis by simp
qed simp

section \<open>Exclusivity\<close>

text \<open>Every ENI of a stored machine is held for it by a claim that stays, and no other machine has it.\<close>

definition exclusive :: "world \<Rightarrow> bool" where
  "exclusive w \<longleftrightarrow> (\<forall>k m i. srv_machines w k = Some m \<longrightarrow> i \<in> set (am_networkInterfaces m) \<longrightarrow>
     am_networkInterfaces m = [i] \<and> holds (srv_claims w) i (machine_ref m) \<and>
     (\<forall>k' m'. srv_machines w k' = Some m' \<longrightarrow> i \<in> set (am_networkInterfaces m') \<longrightarrow> k' = k))"

lemma reachable_exclusive:
  assumes "net_reachable lag delay s" "lag + delay \<le> 30 * Second"
  shows "exclusive (net_world s)"
  unfolding exclusive_def
proof (intro allI impI)
  fix k m i
  assume m: "srv_machines (net_world s) k = Some m" "i \<in> set (am_networkInterfaces m)"
  note inv = net_inv_reachable [OF assms]
  from inv_supplied [OF inv m(1)] m(2) have i: "am_networkInterfaces m = [i]" "holds (srv_claims (net_world s)) i (machine_ref m)"
    by auto
  have "k' = k" if m': "srv_machines (net_world s) k' = Some m'" "i \<in> set (am_networkInterfaces m')" for k' m'
  proof -
    from inv_supplied [OF inv m'(1)] m'(2) have "holds (srv_claims (net_world s)) i (machine_ref m')" by auto
    with i(2) have "machine_ref m' = machine_ref m" by (auto simp: holds_def)
    then show ?thesis using srv_machines_named [OF m(1)] srv_machines_named [OF m'(1)]
      by (simp add: machine_ref_eq_iff meta_key_def)
  qed
  with i show "am_networkInterfaces m = [i] \<and> holds (srv_claims (net_world s)) i (machine_ref m) \<and>
      (\<forall>k' m'. srv_machines (net_world s) k' = Some m' \<longrightarrow> i \<in> set (am_networkInterfaces m') \<longrightarrow> k' = k)" by blast
qed

end
