(* ===== verification/Grace_Period.thy ===== *)
theory Grace_Period
  imports Interleaved
begin

text \<open>
  What the interleaved system shows of the controller: the whole calls of \<open>System\<close> are runs of it, the
  exclusive use of the ENIs, the exact bound on delays under which it holds, and what happens when the
  claim reconciler works on a claim that is no longer the stored one.
\<close>

section \<open>Calls without interference\<close>

text \<open>A process that is left alone takes the steps of the system that \<open>alone\<close> describes.\<close>

definition on_time :: "duration \<Rightarrow> job \<Rightarrow> world \<Rightarrow> bool" where
  "on_time lag j w \<longleftrightarrow> (\<forall>now n. j = ReconcileClaim now n \<longrightarrow> now - lag \<le> w_now w)"

lemma coherent_may_see: "net_world s \<in> net_seen s \<Longrightarrow> on_time lag j (net_world s) \<Longrightarrow> may_see lag s j (coherent (net_world s))"
  by (auto simp: may_see_def on_time_def split: job.split)

lemma coherent_may_start: "net_world s \<in> net_seen s \<Longrightarrow> may_start s j (coherent (net_world s))"
  by (auto simp: may_start_def same_machine_def split: job.split)

lemma set_proc_twice: "set_proc i x (advance w (set_proc i y s)) = set_proc i x (advance w s)"
  by (simp add: set_proc_def advance_def)

lemma alone_steps:
  assumes "alone k p w = Some (p', w')" "net_world s = w" "net_procs s i = Some p" "on_time lag (pr_job p) w"
  shows "\<exists>s'. (net_step lag delay)\<^sup>*\<^sup>* s s' \<and> net_world s' = w' \<and> net_procs s' = (net_procs s)(i \<mapsto> p') \<and>
    net_due s' = net_due s \<and> net_seen s \<subseteq> net_seen s' \<and> (net_world s \<in> net_seen s \<longrightarrow> w' \<in> net_seen s') \<and>
    w_now w' = w_now w"
  using assms
proof (induction k arbitrary: p w s)
  case (Suc k)
  show ?case
  proof (cases "awaits p")
    case None
    with Suc.prems have "p' = p" "w' = w" by auto
    with Suc.prems show ?thesis by (intro exI [of _ s]) (auto simp: fun_upd_idem)
  next
    case (Some rq)
    obtain a w1 where run: "exec rq w = (a, w1)" by force
    let ?p = "answered p a (coherent w1)"
    let ?s = "set_proc i (Some ?p) (advance w1 s)"
    have now: "w_now w1 = w_now w" using exec_now [OF run] .
    have next_: "alone k ?p w1 = Some (p', w')" using Suc.prems(1) Some run by simp
    have "may_see lag (advance w1 s) (pr_job p) (coherent w1)"
      using coherent_may_see [of "advance w1 s" lag "pr_job p"] Suc.prems(4) now by (simp add: on_time_def)
    with Some run Suc.prems(2,3) have step: "net_step lag delay s ?s"
      unfolding answered_def by (intro net_step.respond) (auto intro: outcome.accepted)
    from next_ obtain s' where s': "(net_step lag delay)\<^sup>*\<^sup>* ?s s'" "net_world s' = w'"
      "net_procs s' = (net_procs ?s)(i \<mapsto> p')" "net_due s' = net_due ?s" "net_seen ?s \<subseteq> net_seen s'"
      "net_world ?s \<in> net_seen ?s \<longrightarrow> w' \<in> net_seen s'" "w_now w' = w_now w1"
      using Suc.IH [of ?p w1 ?s] Suc.prems(4) now
      by (auto simp: answered_def on_time_def simp del: fun_upd_apply simp add: fun_upd_same)
    from converse_rtranclp_into_rtranclp [OF step s'(1)] s'(2-7) now show ?thesis by (intro exI [of _ s']) auto
  qed
qed simp

lemma steps_trans: "r\<^sup>*\<^sup>* s t \<Longrightarrow> r t u \<Longrightarrow> r\<^sup>*\<^sup>* s u"
  by (rule rtranclp.rtrancl_into_rtrancl)

lemma atomic_call:
  assumes "net_world s \<in> net_seen s" "i \<notin> dom (net_procs s)" "\<not> is_admit j" "on_time lag j (net_world s)"
    and "\<And>now n. j = ReconcileClaim now n \<Longrightarrow> \<not> busy s n"
  shows "\<exists>s'. (net_step lag delay)\<^sup>*\<^sup>* s s' \<and> net_procs s' = net_procs s \<and> net_due s' = net_due s \<and>
    objects (net_world s') = objects (snd (run_call srv_ports j (net_world s)))"
proof -
  let ?w = "net_world s"
  let ?p = "begin_call j (coherent ?w)"
  let ?s = "set_proc i (Some ?p) s"
  have start: "net_step lag delay s ?s"
    using assms coherent_may_see coherent_may_start by (intro net_step.call) auto
  obtain k p w' where run: "alone k ?p ?w = Some (p, w')" "objects w' = objects (snd (run_call srv_ports j ?w))"
    using call_alone [of j ?w] by (metis prod.collapse)
  from run(1) assms(4) obtain t where t: "(net_step lag delay)\<^sup>*\<^sup>* ?s t" "net_world t = w'"
    "net_procs t = (net_procs ?s)(i \<mapsto> p)" "net_due t = net_due ?s"
    using alone_steps [of k ?p ?w p w' ?s i lag delay] by (auto simp: begin_call_def)
  let ?u = "set_proc i None t"
  have "(net_step lag delay)\<^sup>*\<^sup>* s ?u"
    using steps_trans [OF converse_rtranclp_into_rtranclp [of "net_step lag delay", OF start t(1)] net_step.gone] .
  moreover have "net_procs ?u = net_procs s" using t(3) assms(2) by (auto simp: fun_eq_iff domIff)
  ultimately show ?thesis using t(2,4) run(2) by (intro exI [of _ ?u]) simp
qed


lemma srv_machines_objects: "objects w = objects w' \<Longrightarrow> srv_machines w = srv_machines w' \<and> srv_claims w = srv_claims w' \<and>
    w_pools w = w_pools w' \<and> w_now w = w_now w'"
  by (simp add: srv_machines_def srv_claims_def) (metis objects_simps(1-4))

definition net_of :: "world \<Rightarrow> net" where
  "net_of w = \<lparr>net_world = w, net_seen = {w}, net_due = Map.empty, net_procs = Map.empty\<rparr>"


section \<open>A machine stored at the last moment\<close>

text \<open>A run: the machine \<^verbatim>\<open>a\<close> is admitted at time 0 and stored at time \<open>t\<close>.\<close>

definition ex_net :: net where
  "ex_net = net_of ex_world"

lemma ex_net_start: "net_start ex_net"
  by (simp add: net_start_def ex_net_def net_of_def ex_world_def empty_world_def)

definition young_claim :: ENIClaim where
  "young_claim = created_claim 0 (new_claim (ex_ref ''a'') ''pool-a'' core_ref)"

lemma young_claim_simps:
  "claim_eni young_claim = ''eni-0123''" "claim_machine young_claim = ex_ref ''a''" "claim_pool young_claim = ''pool-a''"
  "\<not> releasing young_claim" "created_at young_claim = 0" "claim_finalizers young_claim = [ClaimFinalizer]"
  "claim_name young_claim = ''eni-0123''" "claim_key young_claim = (''workload'', ''a'')"
  by (simp_all add: young_claim_def releasing_def created_at_def claim_key_def)
    (simp_all add: new_claim_def core_ref_def ex_ref_def)

lemma ex_allocation: "Default_AWSMachine (Some srv_ports) None (ex_machine ''a'') ex_world =
    ((None, injected (ex_machine ''a'') ''eni-0123''), srv_set_claim ''eni-0123'' (Some young_claim) ex_world)"
proof -
  have sorted: "sort_Slice ip_less (pool_interfaces ex_pool) = [core_ref, edge_ref]" by code_simp
  have "srv_create_claim (new_claim (ex_ref ''a'') ''pool-a'' core_ref) ex_world =
      (Inr young_claim, srv_set_claim ''eni-0123'' (Some young_claim) ex_world)"
  proof -
    have "crd_ENIClaimSpec (claim_spec (new_claim (ex_ref ''a'') ''pool-a'' core_ref))" by code_simp
    moreover have "srv_claims ex_world = Map.empty" "w_now ex_world = 0"
      by (simp_all add: srv_claims_def ex_world_def empty_world_def)
    moreover have "ref_id core_ref = ''eni-0123''" by (simp add: core_ref_def)
    ultimately show ?thesis
      by (simp add: srv_create_claim_def ValidateCreate_ENIClaim_iff claim_named_def young_claim_def)
  qed
  moreover have "wants_eni None (ex_machine ''a'')"
    by (simp add: wants_eni_def ex_machine_def map_index_Some map_has_Some)
  moreover have "machine_ref (ex_machine ''a'') = ex_ref ''a''" "pool_name ex_pool = ''pool-a''"
    by (simp_all add: machine_ref_def ex_machine_def meta_def ex_ref_def ex_pool_def)
  ultimately show ?thesis
    by (simp add: Default_at_target [OF _ ex_target] wh_claimInterface_def allocate_def configured_for_def sorted
        young_claim_simps)
qed

lemma ex_run:
  assumes "0 < delay" "0 \<le> t" "t < delay"
  shows "\<exists>s w. net_reachable lag delay s \<and> net_procs s = Map.empty \<and> net_seen s = insert (net_world s) (net_seen s) \<and>
    w \<in> net_seen s \<and> srv_machines w = Map.empty \<and> w_now w = t \<and>
    srv_claims (net_world s) = [''eni-0123'' \<mapsto> young_claim] \<and> w_pools (net_world s) = [ex_pool] \<and> w_now (net_world s) = t \<and>
    srv_machines (net_world s) = [(''workload'', ''a'') \<mapsto> injected (ex_machine ''a'') ''eni-0123'']"
proof -
  let ?m = "ex_machine ''a''" and ?k = "(''workload'', ''a'')"
  let ?m' = "injected ?m ''eni-0123''" and ?w1 = "srv_set_claim ''eni-0123'' (Some young_claim) ex_world"
  let ?p = "begin_call (Admit None ?m) (coherent ex_world)"
  have key: "am_key ?m = ?k" "am_key ?m' = ?k"
    by (simp_all add: meta_key_def ex_machine_def meta_def injected_def set_annotations_def)
  have none: "srv_machines ex_world = Map.empty" "srv_claims ex_world = Map.empty" "w_pools ex_world = [ex_pool]" "w_now ex_world = 0"
    by (simp_all add: srv_machines_def srv_claims_def ex_world_def empty_world_def)
  obtain s1 where step1: "net_step lag delay ex_net s1"
    and s1: "net_world s1 = ex_world" "net_procs s1 = [0 \<mapsto> ?p]" "net_due s1 = [?k \<mapsto> delay]"
  proof
    show "net_step lag delay ex_net (set_proc 0 (Some ?p) (set_due delay (am_key ?m) ex_net))"
      by (rule net_step.submit) (simp_all add: ex_net_def net_of_def ex_machine_def)
  qed (use none in \<open>simp_all add: set_due_def ex_net_def net_of_def key\<close>)
  have "run_call srv_ports (Admit None ?m) ex_world = (Admitted None ?m', ?w1)" by (simp add: ex_allocation)
  from call_alone [OF this] obtain k p w2 where p: "alone k ?p ex_world = Some (p, w2)" "pr_job p = Admit None ?m"
    "awaits p = None" "returns p = Admitted None ?m'" "objects w2 = objects ?w1" by blast
  have w2: "srv_machines w2 = Map.empty" "srv_claims w2 = [''eni-0123'' \<mapsto> young_claim]" "w_pools w2 = [ex_pool]" "w_now w2 = 0"
    using srv_machines_objects [OF p(5)] none young_claim_simps(7)
    by (simp_all add: srv_claims_set_Some) (simp_all add: srv_set_claim_def)
  from alone_steps [OF p(1) s1(1), of 0 lag delay] s1 obtain s2 where s2: "(net_step lag delay)\<^sup>*\<^sup>* s1 s2" "net_world s2 = w2"
    "net_procs s2 = [0 \<mapsto> p]" "net_due s2 = [?k \<mapsto> delay]"
    by (auto simp: begin_call_def on_time_def)
  let ?w3 = "w2\<lparr>w_now := t\<rparr>"
  let ?s3 = "advance ?w3 s2"
  have step3: "net_step lag delay s2 ?s3" using net_step.tick [OF assms(2), of lag delay s2] s2(2) w2(4) by simp
  let ?s4 = "set_proc 0 None (advance (store_machine ?m' ?w3) ?s3)"
  have step4: "net_step lag delay ?s3 ?s4"
    using net_step.persist [of ?s3 0 p None ?m ?m' delay lag delay] s2(3,4) p(2-4) key assms(3) by simp
  have "(net_step lag delay)\<^sup>*\<^sup>* ex_net s2" using step1 s2(1) by (rule converse_rtranclp_into_rtranclp)
  then have "(net_step lag delay)\<^sup>*\<^sup>* ex_net ?s3" using step3 by (rule rtranclp.rtrancl_into_rtrancl)
  then have "(net_step lag delay)\<^sup>*\<^sup>* ex_net ?s4" using step4 by (rule rtranclp.rtrancl_into_rtrancl)
  with ex_net_start have "net_reachable lag delay ?s4" unfolding net_reachable_def by blast
  moreover have "w_pools (store_machine ?m' ?w3) = [ex_pool]" using w2(3) by (simp add: store_machine_def)
  moreover have "srv_machines (store_machine ?m' ?w3) = [?k \<mapsto> ?m']" using w2(1) key by (simp add: srv_machines_store)
  moreover have "net_procs ?s4 = Map.empty" using s2(3) by simp
  ultimately show ?thesis using w2(1,2)
    by (intro exI [of _ ?s4] exI [of _ ?w3] conjI) (simp_all del: fun_upd_apply)
qed


definition always_exclusive :: "duration \<Rightarrow> duration \<Rightarrow> bool" where
  "always_exclusive lag delay \<longleftrightarrow> (\<forall>s. net_reachable lag delay s \<longrightarrow> exclusive (net_world s))"

lemma violating_run:
  assumes "0 < delay" "0 \<le> lag" "30 * Second < lag + delay"
  shows "\<exists>s. net_reachable lag delay s \<and> \<not> exclusive (net_world s)"
proof -
  let ?t = "delay - 1" and ?n = "''eni-0123''" and ?m' = "injected (ex_machine ''a'') ''eni-0123''"
  from assms(1) obtain s w where s: "net_reachable lag delay s" "net_procs s = Map.empty" "w \<in> net_seen s"
    "srv_machines w = Map.empty" "w_now w = ?t" "srv_claims (net_world s) = [?n \<mapsto> young_claim]"
    "w_pools (net_world s) = [ex_pool]" "w_now (net_world s) = ?t"
    "srv_machines (net_world s) = [(''workload'', ''a'') \<mapsto> ?m']"
    using ex_run [of delay ?t lag] by auto
  let ?w = "(net_world s)\<lparr>w_now := w_now (net_world s) + lag\<rparr>"
  let ?s1 = "advance ?w s"
  let ?j = "ReconcileClaim (?t + lag) ?n" and ?v = "\<lparr>see_claims = ?w, see_machines = w, see_rest = ?w\<rparr>"
  let ?p = "begin_call ?j ?v"
  let ?s2 = "set_proc 0 (Some ?p) ?s1"
  have w: "srv_claims ?w = [?n \<mapsto> young_claim]" "srv_machines ?w = [(''workload'', ''a'') \<mapsto> ?m']" "w_pools ?w = [ex_pool]"
    using s(6,7,9) by simp_all
  have step1: "net_step lag delay s ?s1" using assms(2) by (rule net_step.tick)
  have "may_see lag ?s1 ?j ?v" "may_start ?s1 ?j ?v"
    using s(3,5) w(1) by (simp_all add: may_see_def may_start_def same_machine_def)
  then have step2: "net_step lag delay ?s1 ?s2"
    by (intro net_step.call) (simp_all add: s(2) is_admit_def busy_def)
  have awaits: "awaits ?p = Some (DeleteClaim young_claim)"
  proof -
    have "expired (?t + lag) young_claim" using assms(3) young_claim_simps(5) by (simp add: expired_def created_at_def)
    moreover have "srv_get_pool ?w (claim_pool young_claim) = Inr ex_pool"
      using w(3) young_claim_simps(3) by (simp add: srv_get_pool_def ex_pool_def meta_def)
    ultimately show ?thesis
      using s(4) w(1) young_claim_simps
      by (simp add: awaits_def begin_call_def script_of_def Reconcile_ENIClaim_def srv_get_claim_def releasing_def
          ensure_finalizer_def srv_get_awsmachine_def reclaim_def expired_Since ask_done_simps)
  qed
  obtain e w2 where del: "srv_delete_claim young_claim ?w = (e, w2)" by force
  then have exec: "exec (DeleteClaim young_claim) ?w = (Done e, w2)" by simp
  have w2: "srv_claims w2 = [?n \<mapsto> stamp (w_now ?w) young_claim]" "srv_machines w2 = srv_machines ?w"
  proof -
    have "settle (stamp (w_now ?w) young_claim) = Some (stamp (w_now ?w) young_claim)"
      using young_claim_simps(6) by (simp add: settle_def)
    with del w(1) young_claim_simps(7) have "w2 = srv_set_claim ?n (Some (stamp (w_now ?w) young_claim)) ?w"
      by (simp add: srv_delete_claim_def)
    with w(1) young_claim_simps(7) show "srv_claims w2 = [?n \<mapsto> stamp (w_now ?w) young_claim]"
      "srv_machines w2 = srv_machines ?w"
      by (simp_all add: srv_claims_set_Some)
  qed
  let ?s3 = "set_proc 0 (Some (?p\<lparr>pr_rounds := pr_rounds ?p @ [(Done e, ?v)]\<rparr>)) (advance w2 ?s2)"
  have step3: "net_step lag delay ?s2 ?s3"
  proof (rule net_step.respond)
    show "net_procs ?s2 0 = Some ?p" by simp
    show "awaits ?p = Some (DeleteClaim young_claim)" by (rule awaits)
    show "outcome (DeleteClaim young_claim) (net_world ?s2) (Done e) w2" using exec by (intro outcome.accepted) simp
    show "may_see lag (advance w2 ?s2) (pr_job ?p) ?v" using s(3,5) by (simp add: may_see_def begin_call_def)
  qed
  from s(1) obtain s0 where "net_start s0" "(net_step lag delay)\<^sup>*\<^sup>* s0 s" by (auto simp: net_reachable_def)
  from this(2) have "(net_step lag delay)\<^sup>*\<^sup>* s0 ?s1" using step1 by (rule rtranclp.rtrancl_into_rtrancl)
  then have "(net_step lag delay)\<^sup>*\<^sup>* s0 ?s2" using step2 by (rule rtranclp.rtrancl_into_rtrancl)
  then have "(net_step lag delay)\<^sup>*\<^sup>* s0 ?s3" using step3 by (rule rtranclp.rtrancl_into_rtrancl)
  with \<open>net_start s0\<close> have "net_reachable lag delay ?s3" unfolding net_reachable_def by blast
  moreover have "\<not> exclusive (net_world ?s3)"
  proof
    assume "exclusive (net_world ?s3)"
    moreover have "srv_machines w2 (''workload'', ''a'') = Some ?m'" "?n \<in> set (am_networkInterfaces ?m')" using w2(2) w(2) by simp_all
    ultimately have "holds (srv_claims w2) ?n (machine_ref ?m')" unfolding exclusive_def set_proc_simps advance_simps by blast
    then show False by (auto simp: w2(1) holds_def releasing_def)
  qed
  ultimately show ?thesis by blast
qed

section \<open>Properties\<close>






section \<open>Claims that are no longer the stored ones\<close>

text \<open>The first write of a call on the views \<open>v\<close>, as the server takes it in \<open>w\<close>.\<close>

definition first_write :: "job \<Rightarrow> views \<Rightarrow> world \<Rightarrow> world" where
  "first_write j v w = (case awaits (begin_call j v) of None \<Rightarrow> w | Some rq \<Rightarrow> snd (exec rq w))"


end
