(* ===== verification/Recovery.thy ===== *)
theory Recovery
  imports Grace_Period
begin

text \<open>
  Nothing is stuck: from every state the interleaved system can reach, whatever calls are under way, have
  crashed or lost their answers, a run of the reconcilers leads on to the release of a machine for which
  an ENI is free, and to the end of a claim whose machine is gone.
\<close>

section \<open>The next call\<close>

text \<open>
  A call that crashes frees its slot, so a run can always go on to a state with the same objects where a
  reconciler can start, on the current objects.
\<close>

definition ready :: "duration \<Rightarrow> duration \<Rightarrow> string \<Rightarrow> net \<Rightarrow> nat \<Rightarrow> bool" where
  "ready lag delay n s i \<longleftrightarrow> net_inv lag delay s \<and> i \<notin> dom (net_procs s) \<and> \<not> busy s n"

lemma inv_steps: "(net_step lag delay)\<^sup>*\<^sup>* s s' \<Longrightarrow> net_inv lag delay s \<Longrightarrow> lag + delay \<le> 30 * Second \<Longrightarrow> net_inv lag delay s'"
  by (induction rule: rtranclp_induct) (use net_inv_step in blast)+

lemma inv_current: "net_inv lag delay s \<Longrightarrow> net_world s \<in> net_seen s"
  by (simp add: net_inv_def clock_ok_def)

lemma get_ready:
  assumes inv: "net_inv lag delay s" and bound: "lag + delay \<le> 30 * Second"
  shows "\<exists>s' i. (net_step lag delay)\<^sup>*\<^sup>* s s' \<and> ready lag delay n s' i \<and> net_world s' = net_world s"
proof -
  obtain i where i: "\<And>j p now. net_procs s j = Some p \<Longrightarrow> pr_job p = ReconcileClaim now n \<Longrightarrow> j = i"
    using net_invD(7) [OF inv] unfolding one_each_def by metis
  let ?s = "set_proc i None s"
  have step: "(net_step lag delay)\<^sup>*\<^sup>* s ?s" by (rule r_into_rtranclp [of "net_step lag delay", OF net_step.gone])
  have "\<not> busy ?s n" using i by (auto simp: busy_def ran_def set_proc_def split: if_splits)
  then have "ready lag delay n ?s i" using inv_steps [OF step inv bound] by (simp add: ready_def set_proc_def)
  with step show ?thesis by (intro exI [of _ ?s] exI [of _ i]) (simp add: set_proc_def)
qed

lemma next_call:
  assumes inv: "net_inv lag delay s" and bound: "lag + delay \<le> 30 * Second"
    and job: "\<not> is_admit j" "on_time lag j (net_world s)"
  obtains s' where "(net_step lag delay)\<^sup>*\<^sup>* s s'" "net_inv lag delay s'"
    "objects (net_world s') = objects (snd (run_call srv_ports j (net_world s)))"
proof -
  obtain n where n: "\<And>now n'. j = ReconcileClaim now n' \<Longrightarrow> n' = n" by (cases j) auto
  obtain t i where t: "(net_step lag delay)\<^sup>*\<^sup>* s t" "ready lag delay n t i" "net_world t = net_world s"
    using get_ready [OF inv bound] by blast
  from t(2) have r: "net_inv lag delay t" "i \<notin> dom (net_procs t)" "\<not> busy t n" by (simp_all add: ready_def)
  obtain s' where s': "(net_step lag delay)\<^sup>*\<^sup>* t s'" "objects (net_world s') = objects (snd (run_call srv_ports j (net_world t)))"
    using atomic_call [of t i j lag delay] inv_current [OF r(1)] r(2,3) n job t(3) by auto
  from rtranclp_trans [OF t(1) s'(1)] inv_steps [OF s'(1) r(1) bound] s'(2) t(3) that show ?thesis by simp
qed

section \<open>Machines\<close>

text \<open>On the reference server an allocation for a pool that satisfies its CRD ends without an error.\<close>

lemma create_first_server:
  "list_all crd_ENIReference rs \<Longrightarrow> pool \<noteq> '''' \<Longrightarrow> \<exists>c s'. create_first srv_create_claim m pool rs s = (Inr c, s')"
proof (induction rs arbitrary: s)
  case (Cons r rs)
  have "crd_ENIClaimSpec (claim_spec (new_claim m pool r))" "ValidateCreate_ENIClaim (new_claim m pool r) = None"
    using Cons.prems by (simp_all add: new_claim_def crd_ENIClaimSpec_def crd_ENIReference_def ValidateCreate_ENIClaim_def)
  then have "srv_create_claim (new_claim m pool r) s = (Inl AlreadyExists, s) \<or> (\<exists>c t. srv_create_claim (new_claim m pool r) s = (Inr c, t))"
    by (simp add: srv_create_claim_def)
  with Cons show ?case by auto
qed simp

lemma claimInterface_server:
  assumes "crd_ENIPoolSpec (pool_spec pool)" "pool_name pool \<noteq> ''''" "free_candidate cs pool k x"
  shows "\<exists>c s'. rc_claimInterface srv_ports m pool k s = (Inr c, s')"
proof -
  obtain cfg where cfg: "configured_for pool k = Inr cfg"
    using assms(3) configured_for_Inl [of pool k] by (cases "configured_for pool k") (auto simp: free_candidate_def)
  have "list_all crd_ENIReference (sort_Slice ip_less cfg)"
    using assms(1) configured_for_Inr [OF cfg] by (auto simp: crd_ENIPoolSpec_def list_all_iff go_sort.set_srt)
  from create_first_server [OF this assms(2)] cfg show ?thesis
    by (auto simp: rc_claimInterface_def allocate_def split: option.split)
qed

lemma machine_reconciled:
  assumes "srv_machines w (ns, n) = Some m" "served m" "rc_target srv_ports m w pool key"
    and "free_candidate (srv_claims w) pool key x" "crd_ENIPoolSpec (pool_spec pool)" "pool_name pool \<noteq> ''''"
  shows "\<exists>w' c. snd (Reconcile_AWSMachine srv_ports ns n w) = w' \<and> c \<in> ran (srv_claims w') \<and> claim_machine c = machine_ref m \<and>
    srv_machines w' = (srv_machines w)((ns, n) \<mapsto> released m [claim_eni c] AllocationResultAllocated None)"
proof -
  have get: "p_get_awsmachine srv_ports w ns n = Inr m" using assms(1) by (simp add: srv_get_awsmachine_def)
  obtain oc t where c: "rc_claimInterface srv_ports m pool key w = (Inr oc, t)"
    using claimInterface_server [OF assms(5,6,4)] by blast
  note out = srv_api.claimInterface_outcome [OF c]
  with assms(4) obtain cl where cl: "oc = Some cl" by (auto split: option.splits)
  have "am_key m = (ns, n)" using srv_api.machine_named [OF assms(1)] .
  then have "srv_machines t (am_key m) = Some m" using out assms(1) by simp
  then obtain res w' where "release_allocated srv_ports m pool cl t = (Inr res, w')"
    by (simp add: steps_on_served [OF assms(2)] srv_patch_awsmachine_def srv_machines_def meta_key_def)
  with c cl have "Reconcile_AWSMachine srv_ports ns n w = (Inr res, w')"
    by (simp add: Reconcile_at_target [OF get assms(2,3)])
  from srv_api.Reconcile_allocates [OF assms(1-3) disjI1 [OF assms(4)] this] this show ?thesis by auto
qed


section \<open>Claims\<close>

lemma claim_reconciled:
  assumes "srv_claims w n = Some c" and "snd (Reconcile_ENIClaim srv_ports t n w) = w'"
  shows "srv_claims w' = (srv_claims w)(n := next_claim srv_set_condition t (w_now w) (srv_get_pool w (claim_pool c))
      (srv_get_awsmachine w (nref_namespace (claim_machine c)) (nref_name (claim_machine c))) c) \<and>
    srv_machines w' = srv_machines w"
proof -
  from srv_claim_api.Reconcile_claim_spec [OF assms(1), of t] assms(2)
  have claims: "srv_claims w' = (srv_claims w)(n := next_claim srv_set_condition t (w_now w) (srv_get_pool w (claim_pool c))
      (srv_get_awsmachine w (nref_namespace (claim_machine c)) (nref_name (claim_machine c))) c)" by auto
  obtain r where "Reconcile_ENIClaim srv_ports t n w = (r, w')" using assms(2) by (metis prod.collapse)
  from srv_claim_api.Reconcile_claim_reads [OF this] have "srv_get_awsmachine w' ns m = srv_get_awsmachine w ns m" for ns m
    by (simp add: srv_claim_api.same_reads_def)
  note same = this [unfolded srv_get_awsmachine_def]
  have "srv_machines w' (ns, m) = srv_machines w (ns, m)" for ns m
    using same [of ns m] by (auto simp: or_not_found_def split: option.splits)
  with claims show ?thesis by auto
qed

lemma claim_call:
  assumes inv: "net_inv lag delay s" and bound: "lag + delay \<le> 30 * Second" "0 \<le> lag"
    and c: "srv_claims (net_world s) n = Some c"
  obtains s' where "(net_step lag delay)\<^sup>*\<^sup>* s s'" "net_inv lag delay s'"
    "srv_machines (net_world s') = srv_machines (net_world s)"
    "srv_claims (net_world s') = (srv_claims (net_world s))(n := next_claim srv_set_condition (w_now (net_world s))
       (w_now (net_world s)) (srv_get_pool (net_world s) (claim_pool c))
       (srv_get_awsmachine (net_world s) (nref_namespace (claim_machine c)) (nref_name (claim_machine c))) c)"
proof -
  let ?w = "net_world s" and ?j = "ReconcileClaim (w_now (net_world s)) n"
  have "\<not> is_admit ?j" "on_time lag ?j ?w" using bound(2) by (simp_all add: is_admit_def on_time_def)
  from next_call [OF inv bound(1) this] obtain s' where s': "(net_step lag delay)\<^sup>*\<^sup>* s s'" "net_inv lag delay s'"
    "objects (net_world s') = objects (snd (run_call srv_ports ?j ?w))" by blast
  have "srv_machines (net_world s') = srv_machines (snd (Reconcile_ENIClaim srv_ports (w_now ?w) n ?w))"
    "srv_claims (net_world s') = srv_claims (snd (Reconcile_ENIClaim srv_ports (w_now ?w) n ?w))"
    using srv_machines_objects [OF s'(3)] by simp_all
  with claim_reconciled [OF c refl, of "w_now ?w"] s'(1,2) that show ?thesis by simp
qed

text \<open>A claim that is being deleted ends with its finalizer.\<close>

lemma releasing_claim_ends:
  assumes inv: "net_inv lag delay s" and bound: "lag + delay \<le> 30 * Second" "0 \<le> lag"
    and c: "srv_claims (net_world s) n = Some c" "releasing c" "set (claim_finalizers c) = {ClaimFinalizer}"
  shows "\<exists>s'. (net_step lag delay)\<^sup>*\<^sup>* s s' \<and> srv_machines (net_world s') = srv_machines (net_world s) \<and>
    srv_claims (net_world s') = (srv_claims (net_world s))(n := None)"
proof -
  have none: "filter (\<lambda>f. f \<noteq> ClaimFinalizer) (claim_finalizers c) = []" using c(3) by (simp add: filter_empty_conv)
  have "srv_get_pool (net_world s) p = Inl e \<Longrightarrow> e = NotFound" for p e
    by (simp add: srv_get_pool_def or_not_found_def split: option.splits)
  then have "next_claim srv_set_condition t t' (srv_get_pool (net_world s) p) m c = None" for t t' p m
    using c(2,3) none by (auto simp: next_claim_def unguarded_def settle_releasing)
  with claim_call [OF inv bound c(1)] show ?thesis by metis
qed

text \<open>
  C11: From every reachable state of the interleaved system, the claim of a machine that does not exist can
  be brought to its end: if its pool exists and nobody else has put a finalizer on it, the system can go
  on to a state where the claim is gone, so that its ENI is free again, with all machines and all other
  claims as they were.
\<close>
theorem orphan_reclaimable:
  assumes "net_reachable lag delay s" and "lag + delay \<le> 30 * Second" "0 \<le> lag"
    and "srv_claims (net_world s) n = Some c" and "srv_machines (net_world s) (claim_key c) = None"
    and "srv_pools (net_world s) (claim_pool c) = Some pool"
    and "set (claim_finalizers c) \<subseteq> {ClaimFinalizer}" and "claim_finalizers c = [] \<Longrightarrow> \<not> releasing c"
  shows "\<exists>s'. (net_step lag delay)\<^sup>*\<^sup>* s s' \<and> srv_machines (net_world s') = srv_machines (net_world s) \<and>
    srv_claims (net_world s') = (srv_claims (net_world s))(n := None)"
proof (cases "releasing c")
  case True
  then have "set (claim_finalizers c) = {ClaimFinalizer}" using assms(7,8) by (cases "claim_finalizers c") auto
  from releasing_claim_ends [OF net_inv_reachable [OF assms(1,2)] assms(2-4) True this] show ?thesis .
next
  case False
  let ?w = "net_world s"
  define d where "d = max 0 (m_creationTimestamp (claim_meta c) + 30 * Second - w_now ?w)"
  define t where "t = advance (?w\<lparr>w_now := w_now ?w + d\<rparr>) s"
  have t: "net_world t = ?w\<lparr>w_now := w_now ?w + d\<rparr>" "srv_claims (net_world t) = srv_claims ?w" "srv_machines (net_world t) = srv_machines ?w"
    "srv_get_pool (net_world t) = srv_get_pool ?w"
    by (simp_all add: t_def advance_def srv_claims_def srv_machines_def srv_get_pool_def fun_eq_iff)
  have step: "(net_step lag delay)\<^sup>*\<^sup>* s t" unfolding t_def
    by (rule r_into_rtranclp [of "net_step lag delay", OF net_step.tick]) (simp add: d_def)
  note inv = inv_steps [OF step net_inv_reachable [OF assms(1,2)] assms(2)]
  have c: "srv_claims (net_world t) n = Some c" using assms(4) t(2) by simp
  let ?c = "stamp (w_now (net_world t)) (guarded c)"
  have "expired (w_now (net_world t)) c" unfolding t(1) d_def by (simp add: expired_def)
  moreover have "srv_get_awsmachine (net_world t) (nref_namespace (claim_machine c)) (nref_name (claim_machine c)) = Inl NotFound"
    using assms(5) t(3) by (simp add: srv_get_awsmachine_def or_not_found_def claim_key_def)
  moreover have "srv_get_pool (net_world t) (claim_pool c) = Inr pool" using assms(6) t(4) by (simp add: srv_get_pool_def srv_pools_def or_not_found_def)
  ultimately have next_: "next_claim srv_set_condition (w_now (net_world t)) (w_now (net_world t)) (srv_get_pool (net_world t) (claim_pool c))
      (srv_get_awsmachine (net_world t) (nref_namespace (claim_machine c)) (nref_name (claim_machine c))) c = Some ?c"
    using False by (simp add: next_claim_def)
  obtain u where u: "(net_step lag delay)\<^sup>*\<^sup>* t u" "net_inv lag delay u" "srv_machines (net_world u) = srv_machines ?w"
    "srv_claims (net_world u) = (srv_claims ?w)(n \<mapsto> ?c)"
    using claim_call [OF inv assms(2,3) c] next_ t(2,3) by metis
  have "srv_claims (net_world u) n = Some ?c" "releasing ?c" using u(4) by simp_all
  moreover have "set (claim_finalizers ?c) = {ClaimFinalizer}" using assms(7) by (auto simp: guarded_def)
  ultimately obtain v where v: "(net_step lag delay)\<^sup>*\<^sup>* u v" "srv_machines (net_world v) = srv_machines (net_world u)"
    "srv_claims (net_world v) = (srv_claims (net_world u))(n := None)"
    using releasing_claim_ends [OF u(2) assms(2,3), of n ?c] by auto
  from rtranclp_trans [OF rtranclp_trans [OF step u(1)] v(1)] v(2,3) u(3,4) show ?thesis
    by (intro exI [of _ v]) simp
qed

theorem orphan_reclaimable_witness:
  "\<exists>s s'. net_reachable (10 * Second) (20 * Second) s \<and> srv_claims (net_world s) = [''eni-0123'' \<mapsto> young_claim] \<and>
     (net_step (10 * Second) (20 * Second))\<^sup>*\<^sup>* s s' \<and> srv_claims (net_world s') = Map.empty"
proof -
  have "0 < 20 * Second" "0 < 10 * Second" "10 * Second < 20 * Second" by (simp_all add: Second_def)
  then obtain s0 where s0: "net_reachable (10 * Second) (20 * Second) s0" "srv_claims (net_world s0) = [''eni-0123'' \<mapsto> young_claim]"
    "w_pools (net_world s0) = [ex_pool]" "srv_machines (net_world s0) = [(''workload'', ''a'') \<mapsto> injected (ex_machine ''a'') ''eni-0123'']"
    using ex_run [of "20 * Second" "10 * Second" "10 * Second"] by auto
  let ?s = "advance (remove_machine (''workload'', ''a'') (net_world s0)) s0"
  obtain s1 where "net_start s1" "(net_step (10 * Second) (20 * Second))\<^sup>*\<^sup>* s1 s0" using s0(1) by (auto simp: net_reachable_def)
  moreover have "net_step (10 * Second) (20 * Second) s0 ?s" by (rule net_step.remove)
  ultimately have reach: "net_reachable (10 * Second) (20 * Second) ?s"
    unfolding net_reachable_def by (meson steps_trans)
  have "srv_machines (net_world ?s) = Map.empty" using s0(4) by (simp add: advance_def srv_machines_remove)
  moreover have "srv_claims (net_world ?s) = [''eni-0123'' \<mapsto> young_claim]"
    using s0(2) by (simp add: advance_def srv_claims_def remove_machine_def)
  moreover have "srv_pools (net_world ?s) ''pool-a'' = Some ex_pool"
    using s0(3) by (simp add: advance_def srv_pools_def remove_machine_def lookup_by_def) (simp add: ex_pool_def meta_def)
  ultimately have w: "srv_claims (net_world ?s) = [''eni-0123'' \<mapsto> young_claim]" "srv_machines (net_world ?s) = Map.empty"
    "srv_pools (net_world ?s) ''pool-a'' = Some ex_pool" by simp_all
  have "10 * Second + 20 * Second \<le> 30 * Second" "0 \<le> 10 * Second" by (simp_all add: Second_def)
  from orphan_reclaimable [OF reach this, of "''eni-0123''" young_claim ex_pool]
  obtain s' where "(net_step (10 * Second) (20 * Second))\<^sup>*\<^sup>* ?s s'" "srv_claims (net_world s') = (srv_claims (net_world ?s))(''eni-0123'' := None)"
    using w by (auto simp: young_claim_simps)
  with reach w(1) show ?thesis by (intro exI [of _ ?s] exI [of _ s']) simp
qed

section \<open>A paused machine in the running system\<close>

lemma paused_run:
  assumes "0 < delay"
  shows "\<exists>s. net_reachable lag delay s \<and> net_world s = store_machine (paused_machine ''b'') ex_world"
proof -
  let ?m = "paused_machine ''b''" and ?k = "(''workload'', ''b'')"
  let ?p = "begin_call (Admit None (paused_machine ''b'')) (coherent ex_world)"
  have key: "am_key ?m = ?k" by (simp add: meta_key_def paused_machine_def set_annotations_def ex_keyed_machine_def ex_machine_def meta_def)
  have not_wanted: "\<not> wants_eni None ?m" by (simp add: wants_eni_def paused_machine_def map_has_Some)
  let ?s1 = "set_proc 0 (Some ?p) (set_due delay (am_key ?m) ex_net)"
  have step1: "net_step lag delay ex_net ?s1"
    by (rule net_step.submit) (use paused_served [of "''b''"] in \<open>simp_all add: ex_net_def net_of_def served_def\<close>)
  have s1: "net_procs ?s1 0 = Some ?p" "net_due ?s1 (am_key ?m) = Some (w_now ex_world + delay)" "net_world ?s1 = ex_world"
    by (simp_all add: set_proc_def set_due_def ex_net_def net_of_def)
  have "awaits ?p = None" "returns ?p = Admitted None ?m" "pr_job ?p = Admit None ?m"
    by (simp_all add: awaits_def returns_def begin_call_def Default_not_wanted [OF not_wanted])
  then have step2: "net_step lag delay ?s1 (set_proc 0 None (advance (store_machine ?m ex_world) ?s1))"
    using net_step.persist [OF s1(1), of None ?m ?m "w_now ex_world + delay" lag delay] s1(2,3) assms by simp
  obtain s2 where s2: "net_step lag delay ?s1 s2" "net_world s2 = store_machine ?m ex_world"
    using step2 by (simp add: set_proc_def advance_def)
  have "(net_step lag delay)\<^sup>*\<^sup>* ex_net s2"
    by (rule converse_rtranclp_into_rtranclp, rule step1, rule r_into_rtranclp, rule s2)
  with ex_net_start s2(2) show ?thesis unfolding net_reachable_def by blast
qed


end
