(* ===== verification/Fair_Runs.thy ===== *)
theory Fair_Runs
  imports Work_Queue Recovery
begin

text \<open>
  What the controllers achieve in the long run. A run is an infinite sequence of queue states, in which
  each step has its time and its label; time goes on, and a key that stays in its queue is worked on
  some day. On such runs the claim of a machine that does not exist disappears, and a machine that waits
  for an ENI such a claim holds gets it.
\<close>

section \<open>Fair runs\<close>

locale fair_run =
  fixes act :: "instant \<Rightarrow> 'a \<Rightarrow> 'q \<Rightarrow> 'q \<Rightarrow> bool"
    and clock :: "nat \<Rightarrow> instant" and label :: "nat \<Rightarrow> 'a" and run :: "nat \<Rightarrow> 'q"
    and waits :: "'q \<Rightarrow> bool" and works :: "nat \<Rightarrow> bool"
  assumes acts: "act (clock i) (label i) (run i) (run (Suc i))"
    and clock_mono: "clock i \<le> clock (Suc i)"
    and clock_unbounded: "\<exists>i. t \<le> clock i"
    and fair: "(\<forall>j\<ge>i. waits (run j)) \<Longrightarrow> \<exists>j\<ge>i. works j"
begin

lemma clock_le: "i \<le> j \<Longrightarrow> clock i \<le> clock j"
  by (rule lift_Suc_mono_le [of clock, OF clock_mono])

lemma late: "\<exists>k\<ge>i. \<forall>j\<ge>k. t \<le> clock j"
proof -
  obtain k where "t \<le> clock k" using clock_unbounded by blast
  then have "t \<le> clock j" if "max i k \<le> j" for j
    using clock_le [of k j] that by simp
  then show ?thesis by (intro exI [of _ "max i k"]) simp
qed

text \<open>What holds until the goal is reached.\<close>

lemma until:
  assumes "I (run i)" "\<And>j. i \<le> j \<Longrightarrow> I (run j) \<Longrightarrow> I (run (Suc j)) \<or> G (run (Suc j))" "i \<le> k"
  shows "I (run k) \<or> (\<exists>j\<ge>i. G (run j))"
  using assms(3) by (induction k rule: dec_induct) (use assms(1,2) le_SucI in blast)+

text \<open>
  The goal is reached if what holds until then keeps the key in its queue, and each step that works on
  the key late enough reaches the goal.
\<close>

lemma ensures:
  assumes "I (run i)" "\<And>j. i \<le> j \<Longrightarrow> I (run j) \<Longrightarrow> I (run (Suc j)) \<or> G (run (Suc j))"
    and "\<And>j. i \<le> j \<Longrightarrow> I (run j) \<Longrightarrow> waits (run j)"
    and "\<And>j. i \<le> j \<Longrightarrow> t \<le> clock j \<Longrightarrow> I (run j) \<Longrightarrow> works j \<Longrightarrow> G (run (Suc j))"
  shows "\<exists>j\<ge>i. G (run j)"
proof (rule ccontr)
  assume never: "\<not> (\<exists>j\<ge>i. G (run j))"
  have I: "I (run k)" if "i \<le> k" for k using until [OF assms(1,2) that] never by blast
  obtain k where k: "i \<le> k" "\<And>j. k \<le> j \<Longrightarrow> t \<le> clock j" using late by blast
  have "\<forall>j\<ge>k. waits (run j)" using I assms(3) k(1) by (meson order_trans)
  then obtain j where "k \<le> j" "works j" using fair by blast
  then have "G (run (Suc j))" using assms(4) [of j] k I by (meson order_trans)
  with never \<open>k \<le> j\<close> k(1) show False by (meson le_SucI order_trans)
qed

end

section \<open>Queues that run\<close>

text \<open>The steps, by their labels; the states of the world before and after.\<close>

lemma no_key_lost_run:
  assumes "allocator_api P claims machines" "claim_api P claims now" "pool_api P claims pools"
    and "\<And>i. q_act P claims machines pools (clock i) (label i) (run i) (run (Suc i))"
    and "q_start claims machines pools (run 0)"
  shows "no_key_lost claims machines pools (run i)"
proof (induction i)
  case 0
  then show ?case using assms(5) by (auto simp: no_key_lost_def q_start_def queued_def)
next
  case (Suc i)
  then show ?case by (rule no_key_lost_step [OF assms(1-4)])
qed

lemma queued_key:
  assumes "no_key_lost claims machines pools q"
  shows "claims (qs_state q) n = Some c \<Longrightarrow> \<not> settled_claim c \<Longrightarrow> n \<in> qs_claims q"
    and "machines (qs_state q) k = Some m \<Longrightarrow> \<not> settled_machine m \<Longrightarrow> k \<in> qs_machines q"
  using assms unfolding no_key_lost_def queued_def by blast+

context pool_api
begin

lemma Reconcile_pool_claims: "Reconcile_ENIPool P n s = (r, s') \<Longrightarrow> claims s' = claims s"
  using pool_status_frame gauge_frame(1)
  by (auto simp: Reconcile_ENIPool_def Let_def split: prod.splits sum.splits option.splits if_splits) (metis snd_conv)+

end

section \<open>Orphan claims\<close>

text \<open>
  What the rest of the world may do to a claim that the controller is to reclaim, apart from deleting
  it: whatever keeps its spec, its creation time and the deletion it has been stamped with, and puts no
  finalizer of someone else on it. A claim without finalizers that is being deleted is not stored.
\<close>

definition unhindered :: "ENIClaim \<Rightarrow> ENIClaim \<Rightarrow> bool" where
  "unhindered c c' \<longleftrightarrow> claim_spec c' = claim_spec c \<and>
     m_creationTimestamp (claim_meta c') = m_creationTimestamp (claim_meta c) \<and> (releasing c \<longrightarrow> releasing c') \<and>
     set (claim_finalizers c') \<subseteq> {ClaimFinalizer} \<and> settle c' = Some c'"

lemma unhindered_trans: "unhindered a b \<Longrightarrow> unhindered b c \<Longrightarrow> unhindered a c"
  by (simp add: unhindered_def)

lemma unhindered_expired: "unhindered c c' \<Longrightarrow> expired t c' = expired t c"
  by (simp add: unhindered_def expired_def)

text \<open>Such a claim stays in its queue: it is not deleted without the finalizer.\<close>

lemma unhindered_finalizer: "unhindered c c' \<Longrightarrow> releasing c' \<Longrightarrow> set (claim_finalizers c') = {ClaimFinalizer}"
  by (cases "claim_finalizers c'") (auto simp: unhindered_def settle_releasing split: if_splits)

lemma unhindered_unsettled: "unhindered c c' \<Longrightarrow> \<not> settled_claim c'"
  using unhindered_finalizer by (auto simp: settled_claim_def)

lemma stamp_creation [simp]: "m_creationTimestamp (claim_meta (stamp t c)) = m_creationTimestamp (claim_meta c)"
  by (simp add: stamp_def)

lemma unhindered_guarded:
  assumes "unhindered c c'" "\<not> releasing c'"
  shows "unhindered c' (guarded c')" "unhindered c' (stamp t (guarded c'))"
proof -
  have fin: "set (claim_finalizers (guarded c')) = {ClaimFinalizer}"
    using assms(1) by (auto simp: unhindered_def guarded_def)
  then have "claim_finalizers (guarded c') \<noteq> []" by (metis empty_not_insert list.set(1))
  with fin assms(2) show "unhindered c' (guarded c')" "unhindered c' (stamp t (guarded c'))"
    by (simp_all add: unhindered_def settle_releasing)
qed

context claim_api
begin

lemma Reconcile_orphan:
  assumes "claims s n = Some c'" "unhindered c c'" "machine_of s c = Inl NotFound" "p_get_pool P s (claim_pool c) = Inr p"
    and "Reconcile_ENIClaim P t n s = (r, s')"
  shows "if releasing c' then claims s' n = None
    else \<exists>c''. claims s' n = Some c'' \<and> unhindered c' c'' \<and> (releasing c'' \<longleftrightarrow> expired t c)"
proof -
  have spec: "claim_spec c' = claim_spec c" using assms(2) by (simp add: unhindered_def)
  then have same: "claim_pool c' = claim_pool c" "claim_machine c' = claim_machine c" by simp_all
  from Reconcile_claim_spec [OF assms(1), of t] assms(3-5)
  have s': "claims s' n = next_claim (p_set_condition P) t (now s) (Inr p) (Inl NotFound) c'" by (auto simp: same)
  show ?thesis
  proof (cases "releasing c'")
    case True
    then have "unguarded c' = None"
      using unhindered_finalizer [OF assms(2)] by (auto simp: unguarded_def settle_releasing filter_empty_conv)
    with s' True show ?thesis by (simp add: next_claim_def)
  next
    case False
    with s' have "claims s' n = Some (if expired t c then stamp (now s) (guarded c') else guarded c')"
      by (simp add: next_claim_def unhindered_expired [OF assms(2)])
    with False unhindered_guarded [OF assms(2) False] show ?thesis by simp
  qed
qed

end

text \<open>A step of the queues keeps the orphan or ends it; the step that works on it advances it.\<close>

context allocator_api
begin

lemma machine_keeps_claims:
  assumes "Reconcile_AWSMachine P ns n s = (r, s')" "claims s k = Some c"
  shows "claims s' k = Some c"
proof (cases "machines s (ns, n)")
  case (Some m)
  from Reconcile_refines [OF Some assms(1)] have "claims s' = claims s \<or>
      (\<exists>pool k c. allocated (claims s) (machine_ref m) pool k c (claims s'))"
    by (metis machine_step_reserved)
  with assms(2) show ?thesis by (auto dest!: allocated_claims)
next
  case None
  from Reconcile_missing [OF this assms(1)] assms(2) show ?thesis by simp
qed

end

lemma orphan_step:
  assumes "allocator_api P claims machines" "claim_api P claims now" "pool_api P claims pools"
    and "q_act P claims machines pools t a q q'" "claims (qs_state q) n = Some c'" "unhindered c c'"
    and "p_get_awsmachine P (qs_state q) (nref_namespace (claim_machine c)) (nref_name (claim_machine c)) = Inl NotFound"
    and "p_get_pool P (qs_state q) (claim_pool c) = Inr p"
    and others: "a = None \<Longrightarrow> claims (qs_state q') n = Some c'' \<Longrightarrow> unhindered c' c''"
    and "claims (qs_state q') n = Some c''"
  shows "unhindered c' c'' \<and> (a = Some (ClaimKey n) \<longrightarrow> \<not> releasing c' \<and> (expired t c \<longrightarrow> releasing c''))"
proof -
  have same: "unhindered c' c'" using assms(6) by (auto simp: unhindered_def)
  from assms(4) show ?thesis
  proof cases
    case (work_machine ns m r s')
    with allocator_api.machine_keeps_claims [OF assms(1) work_machine(4) assms(5)] assms(10) same show ?thesis by simp
  next
    case (work_claim k r s')
    show ?thesis
    proof (cases "k = n")
      case True
      with claim_api.Reconcile_orphan [OF assms(2,5,6,7,8), of t] work_claim assms(10) show ?thesis
        by (auto split: if_splits)
    next
      case False
      with claim_api.Reconcile_claim_others [OF assms(2) work_claim(4), of n] work_claim assms(5,10) same show ?thesis by simp
    qed
  next
    case (work_pool k r s')
    with pool_api.Reconcile_pool_claims [OF assms(3) work_pool(4)] assms(5,10) same show ?thesis by simp
  next
    case (others s')
    then show ?thesis using assms(9) [OF _ assms(10)] by simp
  qed
qed

text \<open>The world in which an orphan is reclaimed, from step \<open>i\<close> of a run on.\<close>

definition orphaned :: "'s ports \<Rightarrow> ('s \<Rightarrow> string \<rightharpoonup> ENIClaim) \<Rightarrow> (nat \<Rightarrow> 'a option) \<Rightarrow> (nat \<Rightarrow> 's queues) \<Rightarrow> nat \<Rightarrow> string \<Rightarrow>
    ENIClaim \<Rightarrow> bool" where
  "orphaned P claims label run i n c \<longleftrightarrow> claims (qs_state (run i)) n = Some c \<and> unhindered c c \<and>
     (\<forall>j\<ge>i. p_get_awsmachine P (qs_state (run j)) (nref_namespace (claim_machine c)) (nref_name (claim_machine c)) = Inl NotFound \<and>
        (\<exists>p. p_get_pool P (qs_state (run j)) (claim_pool c) = Inr p) \<and>
        (\<forall>c' c''. label j = None \<longrightarrow> claims (qs_state (run j)) n = Some c' \<longrightarrow> claims (qs_state (run (Suc j))) n = Some c'' \<longrightarrow>
           unhindered c' c''))"

lemma orphan_ends:
  assumes api: "allocator_api P claims machines" "claim_api P claims now" "pool_api P claims pools"
    and fair: "fair_run (q_act P claims machines pools) clock label run (\<lambda>q. n \<in> qs_claims q) (\<lambda>j. label j = Some (ClaimKey n))"
    and "q_start claims machines pools (run 0)" and orphan: "orphaned P claims label run i n c"
  shows "\<exists>j\<ge>i. claims (qs_state (run j)) n = None"
proof -
  note acts = fair_run.acts [OF fair]
  note kept = no_key_lost_run [OF api acts assms(5)]
  let ?claim = "\<lambda>q. claims (qs_state q) n"
  let ?young = "\<lambda>q. \<exists>c'. ?claim q = Some c' \<and> unhindered c c'"
  let ?old = "\<lambda>q. \<exists>c'. ?claim q = Some c' \<and> unhindered c c' \<and> releasing c'"
  have step: "?claim (run (Suc j)) = None \<or> (\<exists>c''. ?claim (run (Suc j)) = Some c'' \<and> unhindered c c'' \<and> (releasing c' \<longrightarrow> releasing c'') \<and>
      (label j = Some (ClaimKey n) \<longrightarrow> \<not> releasing c' \<and> (expired (clock j) c \<longrightarrow> releasing c'')))"
    if "i \<le> j" "?claim (run j) = Some c'" "unhindered c c'" for j c'
  proof (cases "?claim (run (Suc j))")
    case (Some c'')
    note here = that
    obtain p where p: "p_get_awsmachine P (qs_state (run j)) (nref_namespace (claim_machine c)) (nref_name (claim_machine c)) = Inl NotFound"
      "p_get_pool P (qs_state (run j)) (claim_pool c) = Inr p"
      "label j = None \<Longrightarrow> ?claim (run (Suc j)) = Some c'' \<Longrightarrow> unhindered c' c''"
      using orphan here(1,2) unfolding orphaned_def by blast
    from orphan_step [OF api acts here(2,3) p Some] here(3) Some show ?thesis
      by (auto intro: unhindered_trans simp: unhindered_def)
  qed simp
  have wait: "n \<in> qs_claims (run j)" if "?claim (run j) = Some c'" "unhindered c c'" for j c'
    using queued_key(1) [OF kept that(1) unhindered_unsettled [OF that(2)]] .
  have "\<exists>j\<ge>i. ?claim (run j) = None \<or> ?old (run j)"
  proof (rule fair_run.ensures [OF fair, of ?young i _ "m_creationTimestamp (claim_meta c) + 30 * Second"])
    show "?young (run i)" using orphan by (simp add: orphaned_def)
  next
    fix j
    assume j: "i \<le> j" and "?young (run j)"
    then obtain c' where c': "?claim (run j) = Some c'" "unhindered c c'" by blast
    note onward = step [OF j c']
    from onward show "?young (run (Suc j)) \<or> (?claim (run (Suc j)) = None \<or> ?old (run (Suc j)))" by blast
    show "n \<in> qs_claims (run j)" using wait [OF c'] .
    assume t: "m_creationTimestamp (claim_meta c) + 30 * Second \<le> clock j" "label j = Some (ClaimKey n)"
    then have "expired (clock j) c" by (simp add: expired_def)
    with t(2) onward show "?claim (run (Suc j)) = None \<or> ?old (run (Suc j))" by blast
  qed
  then obtain k where k: "i \<le> k" "?claim (run k) = None \<or> ?old (run k)" by blast
  show ?thesis
  proof (cases "?claim (run k) = None")
    case False
    with k(2) have "?old (run k)" by blast
    then have "\<exists>j\<ge>k. ?claim (run j) = None"
    proof (rule fair_run.ensures [OF fair, of ?old])
      fix j
      assume "k \<le> j" and old: "?old (run j)"
      with k(1) have j: "i \<le> j" by simp
      from old obtain c' where c': "?claim (run j) = Some c'" "unhindered c c'" "releasing c'" by blast
      note onward = step [OF j c'(1,2)]
      from onward c'(3) show "?old (run (Suc j)) \<or> ?claim (run (Suc j)) = None" by auto
      show "n \<in> qs_claims (run j)" using wait [OF c'(1,2)] .
      assume "label j = Some (ClaimKey n)"
      with onward c'(3) show "?claim (run (Suc j)) = None" by auto
    qed
    with k(1) show ?thesis using le_trans by blast
  qed (use k(1) in blast)
qed

section \<open>Machines that wait\<close>

text \<open>The ENI \<open>x\<close> is free, or reserved for the machine.\<close>

definition obtainable :: "(string \<rightharpoonup> ENIClaim) \<Rightarrow> string \<Rightarrow> AWSMachine \<Rightarrow> bool" where
  "obtainable cs x m \<longleftrightarrow> (\<forall>c. cs x = Some c \<longrightarrow> claim_machine c = machine_ref m)"

definition gets_eni :: "(string \<rightharpoonup> ENIClaim) \<Rightarrow> (string \<times> string \<rightharpoonup> AWSMachine) \<Rightarrow> AWSMachine \<Rightarrow> bool" where
  "gets_eni cs ms m \<longleftrightarrow> (\<exists>c\<in>ran cs. claim_machine c = machine_ref m \<and>
     ms (am_key m) = Some (released m [claim_eni c] AllocationResultAllocated None))"

context pool_api
begin

lemma Reconcile_pool_machines:
  "Reconcile_ENIPool P n s = (r, s') \<Longrightarrow> p_get_awsmachine P s' = p_get_awsmachine P s"
  using pool_writes_machines
  by (auto simp: Reconcile_ENIPool_def Let_def split: prod.splits sum.splits option.splits if_splits) (metis snd_conv)+

end

context allocator_api
begin

lemma machine_read: "p_get_awsmachine P s' = p_get_awsmachine P s \<Longrightarrow> machines s' = machines s"
proof
  fix k
  assume "p_get_awsmachine P s' = p_get_awsmachine P s"
  then have "p_get_awsmachine P s' (fst k) (snd k) = p_get_awsmachine P s (fst k) (snd k)" by simp
  then show "machines s' k = machines s k" by (auto simp: get_machines split: option.splits)
qed

lemma Reconcile_other_machine:
  assumes "Reconcile_AWSMachine P ns n s = (r, s')" "k \<noteq> (ns, n)"
  shows "machines s' k = machines s k"
proof (cases "machines s (ns, n)")
  case (Some m)
  with Reconcile_refines [OF Some assms(1)] machine_named [OF Some] assms(2) show ?thesis
    using machine_step_other by metis
next
  case None
  from Reconcile_missing [OF this assms(1)] show ?thesis by simp
qed

lemma obtainable_kept:
  assumes "machines s (ns, n) = Some m" "Reconcile_AWSMachine P ns n s = (r, s')" "obtainable (claims s) x m"
  shows "obtainable (claims s') x m"
proof (cases "claims s' = claims s")
  case False
  with Reconcile_refines [OF assms(1,2)] obtain pool k c where "allocated (claims s) (machine_ref m) pool k c (claims s')"
    by (metis machine_step_reserved)
  with assms(3) show ?thesis by (auto simp: obtainable_def dest!: allocated_claims split: if_splits)
qed (use assms(3) in simp)

lemma waits_or_gets:
  assumes "machines s (ns, n) = Some m" "served m" "rc_target P m s pool k"
    and "ps_exhaustionPolicy (pool_spec pool) = ExhaustionPolicyWait" "Reconcile_AWSMachine P ns n s = (r, s')"
  shows "machines s' = machines s \<or> gets_eni (claims s') (machines s') m"
  using Reconcile_waits [OF assms] machine_named [OF assms(1)] by (auto simp: gets_eni_def)

lemma obtainable_gets:
  assumes "machines s (ns, n) = Some m" "served m" "rc_target P m s pool k"
    and "x \<in> set (pool_interfaces pool)" "k = '''' \<or> ref_key x = k" "obtainable (claims s) (ref_id x) m"
    and "Reconcile_AWSMachine P ns n s = (Inr res, s')"
  shows "gets_eni (claims s') (machines s') m"
proof -
  have "free_candidate (claims s) pool k x \<or> \<not> no_claim_for (claims s) (machine_ref m)"
    using assms(4-6) by (cases "claims s (ref_id x)") (auto simp: free_candidate_def obtainable_def no_claim_for_def ran_def)
  from Reconcile_allocates [OF assms(1-3) this assms(7)] machine_named [OF assms(1)] show ?thesis
    by (auto simp: gets_eni_def)
qed

end

text \<open>The interface \<open>x\<close> is one that the machine could have, of a pool whose policy is to wait.\<close>

definition wants :: "'s ports \<Rightarrow> AWSMachine \<Rightarrow> ENIReference \<Rightarrow> 's \<Rightarrow> bool" where
  "wants P m x s \<longleftrightarrow> (\<exists>pool k. rc_target P m s pool k \<and> x \<in> set (pool_interfaces pool) \<and> (k = '''' \<or> ref_key x = k) \<and>
     ps_exhaustionPolicy (pool_spec pool) = ExhaustionPolicyWait)"

lemma waiting_step:
  assumes "allocator_api P claims machines" "claim_api P claims now" "pool_api P claims pools"
    and "q_act P claims machines pools t a q q'" "machines (qs_state q) (ns, n) = Some m" "served m" "wants P m x (qs_state q)"
    and "a = None \<Longrightarrow> machines (qs_state q') (ns, n) = machines (qs_state q) (ns, n)"
  shows "machines (qs_state q') (ns, n) = Some m \<or> gets_eni (claims (qs_state q')) (machines (qs_state q')) m"
proof -
  note read = allocator_api.machine_read [OF assms(1)]
  from assms(4) show ?thesis
  proof cases
    case (work_machine ns' n' r s')
    show ?thesis
    proof (cases "(ns', n') = (ns, n)")
      case True
      obtain pool k where "rc_target P m (qs_state q) pool k" "ps_exhaustionPolicy (pool_spec pool) = ExhaustionPolicyWait"
        using assms(7) by (auto simp: wants_def)
      moreover have "Reconcile_AWSMachine P ns n (qs_state q) = (r, s')" using work_machine(4) True by simp
      ultimately have "machines s' = machines (qs_state q) \<or> gets_eni (claims s') (machines s') m"
        by (rule allocator_api.waits_or_gets [OF assms(1,5,6)])
      moreover have "qs_state q' = s'" by (simp add: work_machine(2))
      ultimately show ?thesis using assms(5) by (elim disjE) simp_all
    next
      case False
      then have "machines s' (ns, n) = machines (qs_state q) (ns, n)"
        using allocator_api.Reconcile_other_machine [OF assms(1) work_machine(4), of "(ns, n)"] by auto
      with work_machine(2) assms(5) show ?thesis by simp
    qed
  next
    case (work_claim k r s')
    from claim_api.Reconcile_claim_reads [OF assms(2) work_claim(4)]
    have "p_get_awsmachine P s' = p_get_awsmachine P (qs_state q)" using assms(2) by (simp add: claim_api.same_reads_def)
    from read [OF this] work_claim(2) assms(5) show ?thesis by simp
  next
    case (work_pool k r s')
    from read [OF pool_api.Reconcile_pool_machines [OF assms(3) work_pool(4)]] work_pool assms(5) show ?thesis by simp
  next
    case (others s')
    then show ?thesis using assms(5,8) by simp
  qed
qed

text \<open>The world in which the machine waits, from step \<open>i\<close> of a run on: nobody else changes it, or takes the ENI.\<close>

definition waiting_for :: "'s ports \<Rightarrow> ('s \<Rightarrow> string \<rightharpoonup> ENIClaim) \<Rightarrow> ('s \<Rightarrow> string \<times> string \<rightharpoonup> AWSMachine) \<Rightarrow>
    (nat \<Rightarrow> key option) \<Rightarrow> (nat \<Rightarrow> 's queues) \<Rightarrow> nat \<Rightarrow> string \<Rightarrow> string \<Rightarrow> AWSMachine \<Rightarrow> ENIReference \<Rightarrow> bool" where
  "waiting_for P claims machines label run i ns n m x \<longleftrightarrow>
     machines (qs_state (run i)) (ns, n) = Some m \<and> served m \<and> m \<noteq> failed m ''PoolExhausted'' \<and>
     (\<forall>j\<ge>i. (machines (qs_state (run j)) (ns, n) = Some m \<longrightarrow> wants P m x (qs_state (run j))) \<and>
        (label j = None \<longrightarrow> machines (qs_state (run (Suc j))) (ns, n) = machines (qs_state (run j)) (ns, n)) \<and>
        (label j \<noteq> Some (MachineKey ns n) \<longrightarrow> obtainable (claims (qs_state (run j))) (ref_id x) m \<longrightarrow>
           obtainable (claims (qs_state (run (Suc j)))) (ref_id x) m))"

lemma waiting_ends:
  assumes api: "allocator_api P claims machines" "claim_api P claims now" "pool_api P claims pools"
    and fair: "fair_run (q_act P claims machines pools) clock label run (\<lambda>q. (ns, n) \<in> qs_machines q)
      (\<lambda>j. label j = Some (MachineKey ns n) \<and> (\<exists>res. fst (Reconcile_AWSMachine P ns n (qs_state (run j))) = Inr res))"
    and "q_start claims machines pools (run 0)" and waiting: "waiting_for P claims machines label run i ns n m x"
    and "i \<le> k" "claims (qs_state (run k)) (ref_id x) = None"
  shows "\<exists>j\<ge>i. gets_eni (claims (qs_state (run j))) (machines (qs_state (run j))) m"
proof -
  note acts = fair_run.acts [OF fair]
  note kept = no_key_lost_run [OF api acts assms(5)]
  let ?stays = "\<lambda>q. machines (qs_state q) (ns, n) = Some m"
  let ?free = "\<lambda>q. obtainable (claims (qs_state q)) (ref_id x) m"
  let ?gets = "\<lambda>q. gets_eni (claims (qs_state q)) (machines (qs_state q)) m"
  have m: "served m" "\<not> settled_machine m" "?stays (run i)" using waiting by (auto simp: waiting_for_def settled_machine_def)
  have here: "wants P m x (qs_state (run j))" "label j = None \<Longrightarrow> machines (qs_state (run (Suc j))) (ns, n) = machines (qs_state (run j)) (ns, n)"
    "label j \<noteq> Some (MachineKey ns n) \<Longrightarrow> ?free (run j) \<Longrightarrow> ?free (run (Suc j))"
    if "i \<le> j" "?stays (run j)" for j
    using waiting that unfolding waiting_for_def by blast+
  have stays: "?stays (run (Suc j)) \<or> ?gets (run (Suc j))" if "i \<le> j" "?stays (run j)" for j
    by (rule waiting_step [OF api acts that(2) m(1) here(1,2) [OF that]])
  have free: "?free (run (Suc j))" if "i \<le> j" "?stays (run j)" "?free (run j)" for j
  proof (cases "label j = Some (MachineKey ns n)")
    case True
    have "q_act P claims machines pools (clock j) (Some (MachineKey ns n)) (run j) (run (Suc j))" using acts [of j] True by simp
    then show ?thesis
      by (rule work_machineE) (use allocator_api.obtainable_kept [OF assms(1) that(2) _ that(3)] in simp)
  qed (use here(3) that in blast)
  from fair_run.until [OF fair, of ?stays i ?gets k] m(3) stays assms(7)
  consider "?stays (run k)" | "\<exists>j\<ge>i. ?gets (run j)" by blast
  then show ?thesis
  proof cases
    case 1
    have "\<exists>j\<ge>k. ?gets (run j)"
    proof (rule fair_run.ensures [OF fair, of "\<lambda>q. ?stays q \<and> ?free q"])
      show "?stays (run k) \<and> ?free (run k)" using 1 assms(8) by (simp add: obtainable_def)
    next
      fix j
      assume "k \<le> j" and I: "?stays (run j) \<and> ?free (run j)"
      with assms(7) have j: "i \<le> j" by simp
      from I stays [OF j] free [OF j] show "?stays (run (Suc j)) \<and> ?free (run (Suc j)) \<or> ?gets (run (Suc j))" by blast
      from I queued_key(2) [OF kept _ m(2)] show "(ns, n) \<in> qs_machines (run j)" by blast
      assume work: "label j = Some (MachineKey ns n) \<and> (\<exists>res. fst (Reconcile_AWSMachine P ns n (qs_state (run j))) = Inr res)"
      then have "q_act P claims machines pools (clock j) (Some (MachineKey ns n)) (run j) (run (Suc j))" using acts [of j] by simp
      then show "?gets (run (Suc j))"
      proof (rule work_machineE)
        fix r s'
        assume run: "run (Suc j) = notify claims machines pools s' (run j\<lparr>qs_machines := returned (ns, n) r (qs_machines (run j))\<rparr>)"
          "Reconcile_AWSMachine P ns n (qs_state (run j)) = (r, s')"
        obtain res where "r = Inr res" using work run(2) by auto
        with run(2) have call: "Reconcile_AWSMachine P ns n (qs_state (run j)) = (Inr res, s')" by simp
        obtain pool key where "rc_target P m (qs_state (run j)) pool key" "x \<in> set (pool_interfaces pool)"
          "key = '''' \<or> ref_key x = key" using here(1) [OF j] I by (auto simp: wants_def)
        from allocator_api.obtainable_gets [OF assms(1) conjunct1 [OF I] m(1) this conjunct2 [OF I] call] run(1)
        show ?thesis by simp
      qed
    qed
    with assms(7) show ?thesis using le_trans by blast
  qed
qed

section \<open>A run\<close>

text \<open>A worker that takes a key if it is queued: its steps are steps of the queues.\<close>

fun in_queue :: "'s queues \<Rightarrow> key \<Rightarrow> bool" where
  "in_queue q (MachineKey ns n) \<longleftrightarrow> (ns, n) \<in> qs_machines q"
| "in_queue q (ClaimKey n) \<longleftrightarrow> n \<in> qs_claims q"
| "in_queue q (PoolKey n) \<longleftrightarrow> n \<in> qs_pools q"

fun work :: "instant \<Rightarrow> world queues \<Rightarrow> key \<Rightarrow> world queues" where
  "work t q (MachineKey ns n) = (case Reconcile_AWSMachine srv_ports ns n (qs_state q) of (r, s') \<Rightarrow>
     notify srv_claims srv_machines srv_pools s' (q\<lparr>qs_machines := returned (ns, n) r (qs_machines q)\<rparr>))"
| "work t q (ClaimKey n) = (case Reconcile_ENIClaim srv_ports t n (qs_state q) of (r, s') \<Rightarrow>
     notify srv_claims srv_machines srv_pools s' (q\<lparr>qs_claims := returned n r (qs_claims q)\<rparr>))"
| "work t q (PoolKey n) = (case Reconcile_ENIPool srv_ports n (qs_state q) of (r, s') \<Rightarrow>
     notify srv_claims srv_machines srv_pools s' (q\<lparr>qs_pools := returned n r (qs_pools q)\<rparr>))"

lemma notify_same: "notify claims machines pools (qs_state q) q = q"
  by (simp add: notify_def changed_def)

lemma work_act:
  "q_act srv_ports srv_claims srv_machines srv_pools t (if in_queue q k then Some k else None) q (if in_queue q k then work t q k else q)"
proof (cases "in_queue q k")
  case True
  then show ?thesis by (cases k) (auto intro: q_act.intros split: prod.split)
next
  case False
  then show ?thesis using q_act.others [of srv_ports srv_claims srv_machines srv_pools t q "qs_state q"] by (simp add: notify_same)
qed

text \<open>The example world with both ENIs claimed for machines that do not exist; its worker takes turns.\<close>

definition ex_clock :: "nat \<Rightarrow> instant" where
  "ex_clock j = (int j + 1) * Minute"

definition ex_key :: "nat \<Rightarrow> key" where
  "ex_key j = (if even j then ClaimKey ''eni-0999'' else MachineKey ''workload'' ''b'')"

primrec ex_run :: "nat \<Rightarrow> world queues" where
  "ex_run 0 = \<lparr>qs_state = full_world ExhaustionPolicyWait, qs_machines = {(''workload'', ''b'')},
     qs_claims = {''eni-0123'', ''eni-0999''}, qs_pools = {''pool-a''}\<rparr>"
| "ex_run (Suc j) = (if in_queue (ex_run j) (ex_key j) then work (ex_clock j) (ex_run j) (ex_key j) else ex_run j)"

definition ex_label :: "nat \<Rightarrow> key option" where
  "ex_label j = (if in_queue (ex_run j) (ex_key j) then Some (ex_key j) else None)"

abbreviation ex_state :: "nat \<Rightarrow> world" where
  "ex_state j \<equiv> qs_state (ex_run j)"

lemma ex_act: "q_act srv_ports srv_claims srv_machines srv_pools (ex_clock j) (ex_label j) (ex_run j) (ex_run (Suc j))"
  using work_act [of "ex_clock j" "ex_run j" "ex_key j"] by (simp add: ex_label_def)

lemma ex_clock_mono: "ex_clock i \<le> ex_clock (Suc i)"
  by (simp add: ex_clock_def Minute_def Second_def)

lemma ex_clock_unbounded: "\<exists>i. t \<le> ex_clock i"
proof
  have "t \<le> int (nat t) * Minute" by (cases "0 \<le> t") (simp_all add: Minute_def Second_def)
  then show "t \<le> ex_clock (nat t)" by (simp add: ex_clock_def distrib_right Minute_def Second_def)
qed

lemma ex_step_cases:
  obtains (claim) r where "even j" "ex_label j = Some (ClaimKey ''eni-0999'')"
      "Reconcile_ENIClaim srv_ports (ex_clock j) ''eni-0999'' (ex_state j) = (r, ex_state (Suc j))"
  | (machine) r where "odd j" "ex_label j = Some (MachineKey ''workload'' ''b'')"
      "Reconcile_AWSMachine srv_ports ''workload'' ''b'' (ex_state j) = (r, ex_state (Suc j))"
  | (idle) "ex_label j = None" "ex_state (Suc j) = ex_state j"
proof (cases "ex_label j = None")
  case True
  with idle show ?thesis by (auto simp: ex_label_def split: if_splits)
next
  case False
  then have q: "in_queue (ex_run j) (ex_key j)" "ex_label j = Some (ex_key j)" by (auto simp: ex_label_def split: if_splits)
  show ?thesis
  proof (cases "even j")
    case True
    obtain r s' where "Reconcile_ENIClaim srv_ports (ex_clock j) ''eni-0999'' (ex_state j) = (r, s')" by force
    with True q claim [of r] show ?thesis by (simp add: ex_key_def)
  next
    case False
    obtain r s' where "Reconcile_AWSMachine srv_ports ''workload'' ''b'' (ex_state j) = (r, s')" by force
    with False q machine [of r] show ?thesis by (simp add: ex_key_def)
  qed
qed

lemma ex_idle: "ex_label j = None \<Longrightarrow> ex_state (Suc j) = ex_state j"
  by (auto simp: ex_label_def split: if_splits)

declare ex_run.simps(2) [simp del]

text \<open>What no write of a call changes, the call does not change.\<close>

lemma Reconcile_AWSMachine_preserves:
  assumes "\<And>c s. f (snd (p_create_claim P c s)) = f s" "\<And>b m s. f (snd (p_patch_awsmachine P b m s)) = f s"
    and "\<And>e s. f (record_event P e s) = f s" "\<And>r s. f (p_inc_fallbacks P r s) = f s"
    and "Reconcile_AWSMachine P ns n s = (r, s')"
  shows "f s' = f s"
proof -
  have patch: "f s' = f s" if "p_patch_awsmachine P b m s = (e, s')" for b m s e s' using assms(2) [of b m s] that by simp
  have alloc: "f s' = f s" if "allocate (p_create_claim P) a b c s = (e, s')" for a b c s e s'
    using allocate_preserves [of f "p_create_claim P", OF assms(1) that] .
  have rc: "f s' = f s" if "rc_claimInterface P a b c s = (e, s')" for a b c s e s'
    using that alloc by (auto simp: rc_claimInterface_def split: sum.splits option.splits)
  have "f s' = f s" if "dynamicFallback P a b s = (e, s')" for a b s e s'
    using that patch assms(3,4) by (fastforce simp: dynamicFallback_def patch_result_def split: option.splits prod.splits)
  moreover have "f s' = f s" if "markFailed P a b s = (e, s')" for a b s e s'
    using that patch by (fastforce simp: markFailed_def patch_result_def split: option.splits prod.splits)
  moreover have "f s' = f s" if "release_allocated P a b c s = (e, s')" for a b c s e s'
    using that patch assms(3) by (fastforce simp: release_allocated_def split: option.splits prod.splits)
  ultimately show ?thesis using assms(5) rc unfolding Reconcile_AWSMachine_def
    by (auto split: sum.splits option.splits prod.splits if_splits)
qed

lemma Reconcile_ENIClaim_preserves:
  assumes "\<And>b c s. f (snd (p_patch_claim P b c s)) = f s" "\<And>c s. f (snd (p_delete_claim P c s)) = f s"
    and "\<And>c s. f (snd (p_update_claim_status P c s)) = f s" and "Reconcile_ENIClaim P t n s = (r, s')"
  shows "f s' = f s"
proof -
  have port: "p_patch_claim P b c s = (e1, s') \<Longrightarrow> f s' = f s" "p_delete_claim P c s = (e2, s') \<Longrightarrow> f s' = f s"
    "p_update_claim_status P c s = (e2, s') \<Longrightarrow> f s' = f s" for b c s e1 e2 s'
    using assms(1) [of b c s] assms(2,3) [of c s] by auto
  have "ensure_finalizer P c s = (e1, s') \<Longrightarrow> f s' = f s" "removeFinalizer P c s = (e2, s') \<Longrightarrow> f s' = f s"
    "reclaim P t c s = (e3, s') \<Longrightarrow> f s' = f s" "observe P pool c s = (e3, s') \<Longrightarrow> f s' = f s" for c s e1 e2 e3 s' pool
    using port by (auto simp: ensure_finalizer_def removeFinalizer_def reclaim_def observe_eq split: prod.splits sum.splits option.splits if_splits)
  with assms(4) show ?thesis unfolding Reconcile_ENIClaim_def
    by (fastforce split: sum.splits option.splits prod.splits if_splits)
qed

definition cluster_of :: "world \<Rightarrow> Machine list \<times> Cluster list \<times> AWSCluster list \<times> ENIPool list" where
  "cluster_of s = (w_machines s, w_clusters s, w_awsclusters s, w_pools s)"

lemma srv_claim_writes:
  "cluster_of (srv_set_claim n c s) = cluster_of s" "w_awsmachines (srv_set_claim n c s) = w_awsmachines s"
  by (simp_all add: cluster_of_def srv_set_claim_def)

lemma srv_claim_call:
  assumes "Reconcile_ENIClaim srv_ports t n s = (r, s')"
  shows "cluster_of s' = cluster_of s" "srv_machines s' = srv_machines s"
proof -
  note kept = Reconcile_ENIClaim_preserves [where P = srv_ports, OF _ _ _ assms]
  show "cluster_of s' = cluster_of s"
    by (rule kept) (simp_all add: srv_patch_claim_def srv_delete_claim_def srv_update_claim_status_def srv_claim_writes split: option.split)
  have "w_awsmachines s' = w_awsmachines s"
    by (rule kept) (simp_all add: srv_patch_claim_def srv_delete_claim_def srv_update_claim_status_def srv_claim_writes split: option.split)
  then show "srv_machines s' = srv_machines s" by (simp add: srv_machines_def)
qed

lemma srv_machine_call:
  assumes "Reconcile_AWSMachine srv_ports ns n s = (r, s')"
  shows "cluster_of s' = cluster_of s"
  by (rule Reconcile_AWSMachine_preserves [where P = srv_ports, OF _ _ _ _ assms])
    (simp_all add: srv_create_claim_def srv_patch_awsmachine_def record_event_def srv_ports_def srv_claim_writes
      cluster_of_def [of "w_fallbacks_update _ _"] cluster_of_def [of "w_awsmachines_update _ _"] cluster_of_def [of "w_events_update _ _"]
      split: option.split, simp_all add: cluster_of_def)

lemma ex_cluster_of: "cluster_of (ex_state j) = cluster_of (full_world ExhaustionPolicyWait)"
proof (induction j)
  case (Suc j)
  show ?case by (cases j rule: ex_step_cases) (use Suc srv_claim_call(1) srv_machine_call in \<open>simp_all\<close>)
qed simp

lemma ex_machines: "k \<noteq> (''workload'', ''b'') \<Longrightarrow> srv_machines (ex_state j) k = None"
proof (induction j)
  case 0
  then show ?case by (cases k) (auto simp: full_world_def paused_defs srv_machines_def meta_key_def set_annotations_def ex_defs)
next
  case (Suc j)
  show ?case
    by (cases j rule: ex_step_cases)
      (use Suc srv_claim_call(2) srv_api.Reconcile_other_machine [of "''workload''" "''b''" "ex_state j" _ "ex_state (Suc j)" k] in \<open>simp_all\<close>)
qed

text \<open>The claim of the contested ENI always has the controller's finalizer at most.\<close>

lemma unhindered_self: "unhindered c c \<longleftrightarrow> set (claim_finalizers c) \<subseteq> {ClaimFinalizer} \<and> settle c = Some c"
  by (simp add: unhindered_def)

lemma next_claim_unhindered:
  assumes "next_claim setc t u p m c = Some c'" "unhindered c c"
  shows "unhindered c' c'"
proof (cases "releasing c")
  case True
  then have "unguarded c = None"
    using unhindered_finalizer [OF assms(2)] by (auto simp: unguarded_def settle_releasing filter_empty_conv)
  with True assms show ?thesis by (auto simp: next_claim_def split: if_splits)
next
  case False
  note g = unhindered_guarded [OF assms(2) False]
  have "settle (published setc q (guarded c)) = Some (published setc q (guarded c))" for q
    using False by (simp add: settle_releasing)
  with False assms g show ?thesis
    by (auto simp: next_claim_def unhindered_self dest: unhindered_trans split: sum.splits if_splits) (auto simp: unhindered_def)
qed

lemma ex_claim_clean: "srv_claims (ex_state j) ''eni-0999'' = Some c \<Longrightarrow> unhindered c c"
proof (induction j arbitrary: c)
  case 0
  then show ?case
    by (auto simp: full_world_def srv_claims_def unhindered_self settle_releasing releasing_def) (auto simp: ex_defs new_claim_def)
next
  case (Suc j)
  show ?case
  proof (cases j rule: ex_step_cases)
    case (claim r)
    then obtain c' where c': "srv_claims (ex_state j) ''eni-0999'' = Some c'"
      using Suc.prems srv_claim_api.Reconcile_claim_stored by blast
    from srv_claim_api.Reconcile_claim_spec [OF this, of "ex_clock j"] claim(3) Suc.prems
    have "next_claim srv_set_condition (ex_clock j) (w_now (ex_state j)) (srv_get_pool (ex_state j) (claim_pool c'))
        (srv_get_awsmachine (ex_state j) (nref_namespace (claim_machine c')) (nref_name (claim_machine c'))) c' = Some c" by auto
    from next_claim_unhindered [OF this Suc.IH [OF c']] show ?thesis .
  next
    case (machine r)
    show ?thesis
    proof (cases "srv_claims (ex_state (Suc j)) = srv_claims (ex_state j)")
      case False
      obtain m where m: "srv_machines (ex_state j) (''workload'', ''b'') = Some m"
        using False srv_api.Reconcile_missing [OF _ machine(3)] by (cases "srv_machines (ex_state j) (''workload'', ''b'')") auto
      from machine_step_reserved [OF srv_api.Reconcile_refines [OF m machine(3)] False] obtain pool k d
        where "allocated (srv_claims (ex_state j)) (machine_ref m) pool k d (srv_claims (ex_state (Suc j)))" by blast
      then obtain x where "srv_claims (ex_state (Suc j)) = (srv_claims (ex_state j))(x \<mapsto> d)" "claim_finalizers d = [ClaimFinalizer]"
        by (auto simp: allocated_def reserves_def)
      with Suc show ?thesis by (auto simp: unhindered_self settle_releasing split: if_splits)
    qed (use Suc in simp)
  qed (use Suc in simp)
qed

text \<open>The machine finds its pool in every state, and its calls get through.\<close>

abbreviation wait_pool :: ENIPool where
  "wait_pool \<equiv> with_policy ExhaustionPolicyWait ex_pool"

lemma ex_run_target: "rc_target srv_ports (paused_machine n) (ex_state j) wait_pool ''edge-worker-1''"
  by (rule paused_target) (use ex_cluster_of [of j] in \<open>simp_all add: cluster_of_def full_world_def paused_world_def ex_defs\<close>)

lemma ex_wants: "wants srv_ports (paused_machine n) edge_ref (ex_state j)"
  unfolding wants_def by (intro exI [of _ wait_pool] exI [of _ "''edge-worker-1''"] conjI ex_run_target) (simp_all add: ex_defs)

lemma ex_call:
  assumes "srv_machines (ex_state j) (''workload'', ''b'') = Some m" "m = paused_machine ''b'' \<or> \<not> served m"
  obtains res s' where "Reconcile_AWSMachine srv_ports ''workload'' ''b'' (ex_state j) = (Inr res, s')"
    "srv_machines s' (''workload'', ''b'') = Some (paused_machine ''b'') \<or> (\<exists>m'. srv_machines s' (''workload'', ''b'') = Some m' \<and> \<not> served m')"
proof (cases "served m")
  case False
  have "p_get_awsmachine srv_ports (ex_state j) ''workload'' ''b'' = Inr m" using assms(1) by (simp add: srv_get_awsmachine_def)
  from Reconcile_not_served [OF this False] assms(1) False that show ?thesis by blast
next
  case True
  let ?m = "paused_machine ''b''"
  have m: "srv_machines (ex_state j) (''workload'', ''b'') = Some ?m" using assms True by blast
  then have get: "p_get_awsmachine srv_ports (ex_state j) ''workload'' ''b'' = Inr ?m" by (simp add: srv_get_awsmachine_def)
  note run = Reconcile_at_target [OF get paused_served ex_run_target]
  have "list_all crd_ENIReference (sort_Slice ip_less [edge_ref])" by code_simp
  moreover have "configured_for wait_pool ''edge-worker-1'' = Inr [edge_ref]" by (simp add: configured_for_def ex_defs)
  moreover have "pool_name wait_pool \<noteq> ''''" by (simp add: ex_defs)
  ultimately have "\<exists>oc t. rc_claimInterface srv_ports ?m wait_pool ''edge-worker-1'' (ex_state j) = (Inr oc, t)"
    using create_first_server by (auto simp: rc_claimInterface_def allocate_def split: option.split)
  then obtain oc t where c: "rc_claimInterface srv_ports ?m wait_pool ''edge-worker-1'' (ex_state j) = (Inr oc, t)" by blast
  have name: "am_key ?m = (''workload'', ''b'')" using srv_api.machine_named [OF m] .
  have stored: "srv_machines t (am_key ?m) = Some ?m" using srv_api.claimInterface_outcome [OF c] m name by simp
  have wait: "ps_exhaustionPolicy (pool_spec wait_pool) = ExhaustionPolicyWait" by (simp add: with_policy_def)
  have "\<exists>res s'. Reconcile_AWSMachine srv_ports ''workload'' ''b'' (ex_state j) = (Inr res, s')"
  proof (cases oc)
    case (Some cl)
    have "\<exists>res s'. release_allocated srv_ports ?m wait_pool cl t = (Inr res, s')"
      using stored by (simp add: steps_on_served [OF paused_served] srv_patch_awsmachine_def)
    with run c Some show ?thesis by simp
  qed (use run c wait in simp)
  then obtain res s' where call: "Reconcile_AWSMachine srv_ports ''workload'' ''b'' (ex_state j) = (Inr res, s')" by blast
  from srv_api.waits_or_gets [OF m paused_served ex_run_target wait call] m name released_not_served call that show ?thesis
    by (auto simp: gets_eni_def)
qed

lemma ex_machine_b: "\<exists>m. srv_machines (ex_state j) (''workload'', ''b'') = Some m \<and> (m = paused_machine ''b'' \<or> \<not> served m)"
proof (induction j)
  case 0
  then show ?case using paused_stored by (simp add: full_world_def srv_machines_def)
next
  case (Suc j)
  then obtain m where m: "srv_machines (ex_state j) (''workload'', ''b'') = Some m" "m = paused_machine ''b'' \<or> \<not> served m" by blast
  show ?case
  proof (cases j rule: ex_step_cases)
    case (claim r)
    with m srv_claim_call(2) show ?thesis by auto
  next
    case (machine r)
    from ex_call [OF m] obtain res s' where "Reconcile_AWSMachine srv_ports ''workload'' ''b'' (ex_state j) = (Inr res, s')"
      "srv_machines s' (''workload'', ''b'') = Some (paused_machine ''b'') \<or> (\<exists>m'. srv_machines s' (''workload'', ''b'') = Some m' \<and> \<not> served m')"
      by blast
    with machine(3) show ?thesis by auto
  next
    case idle
    with m show ?thesis by auto
  qed
qed

text \<open>Both keys are worked on again and again.\<close>

interpretation claim_run: fair_run "q_act srv_ports srv_claims srv_machines srv_pools" ex_clock ex_label ex_run
  "\<lambda>q. ''eni-0999'' \<in> qs_claims q" "\<lambda>j. ex_label j = Some (ClaimKey ''eni-0999'')"
proof (unfold_locales, rule ex_act, rule ex_clock_mono, rule ex_clock_unbounded)
  fix i
  assume "\<forall>j\<ge>i. ''eni-0999'' \<in> qs_claims (ex_run j)"
  then have "ex_label (2 * i) = Some (ClaimKey ''eni-0999'')" by (simp add: ex_label_def ex_key_def)
  then show "\<exists>j\<ge>i. ex_label j = Some (ClaimKey ''eni-0999'')" by (intro exI [of _ "2 * i"]) simp
qed

interpretation machine_run: fair_run "q_act srv_ports srv_claims srv_machines srv_pools" ex_clock ex_label ex_run
  "\<lambda>q. (''workload'', ''b'') \<in> qs_machines q"
  "\<lambda>j. ex_label j = Some (MachineKey ''workload'' ''b'') \<and> (\<exists>res. fst (Reconcile_AWSMachine srv_ports ''workload'' ''b'' (ex_state j)) = Inr res)"
proof (unfold_locales, rule ex_act, rule ex_clock_mono, rule ex_clock_unbounded)
  fix i
  assume "\<forall>j\<ge>i. (''workload'', ''b'') \<in> qs_machines (ex_run j)"
  then have "ex_label (2 * i + 1) = Some (MachineKey ''workload'' ''b'')" by (simp add: ex_label_def ex_key_def)
  moreover obtain m where "srv_machines (ex_state (2 * i + 1)) (''workload'', ''b'') = Some m" "m = paused_machine ''b'' \<or> \<not> served m"
    using ex_machine_b by blast
  from ex_call [OF this] obtain res s' where "Reconcile_AWSMachine srv_ports ''workload'' ''b'' (ex_state (2 * i + 1)) = (Inr res, s')" .
  ultimately show "\<exists>j\<ge>i. ex_label j = Some (MachineKey ''workload'' ''b'') \<and>
      (\<exists>res. fst (Reconcile_AWSMachine srv_ports ''workload'' ''b'' (ex_state j)) = Inr res)"
    by (intro exI [of _ "2 * i + 1"]) simp
qed

definition ex_orphan :: ENIClaim where
  "ex_orphan = new_claim (ex_ref ''x'') ''pool-a'' edge_ref"

lemma ex_start: "q_start srv_claims srv_machines srv_pools (ex_run 0)"
  by (auto simp: q_start_def full_world_def paused_defs srv_claims_def srv_machines_def srv_pools_def meta_key_def set_annotations_def ex_defs
    split: if_splits)


lemma ex_orphan_facts: "srv_claims (ex_state 0) ''eni-0999'' = Some ex_orphan" "claim_finalizers ex_orphan = [ClaimFinalizer]"
  "claim_machine ex_orphan = ex_ref ''x''" "claim_pool ex_orphan = ''pool-a''"
  by (simp_all add: ex_orphan_def full_world_def srv_claims_def) (simp_all add: ex_defs)

lemma ex_absent: "srv_get_awsmachine (ex_state j) (nref_namespace (claim_machine ex_orphan)) (nref_name (claim_machine ex_orphan)) = Inl NotFound \<and>
    (\<exists>p. srv_get_pool (ex_state j) (claim_pool ex_orphan) = Inr p)"
proof
  show "srv_get_awsmachine (ex_state j) (nref_namespace (claim_machine ex_orphan)) (nref_name (claim_machine ex_orphan)) = Inl NotFound"
    using ex_machines [of "(''workload'', ''x'')" j] by (simp add: srv_get_awsmachine_def ex_orphan_facts ex_ref_def)
  have "w_pools (ex_state j) = [wait_pool]"
    using ex_cluster_of [of j] by (simp add: cluster_of_def full_world_def paused_world_def)
  then show "\<exists>p. srv_get_pool (ex_state j) (claim_pool ex_orphan) = Inr p"
    by (simp add: srv_get_pool_def ex_orphan_facts) (simp add: ex_defs)
qed

lemma ex_unhindered: "ex_label j = None \<Longrightarrow> srv_claims (ex_state j) ''eni-0999'' = Some c \<Longrightarrow>
    srv_claims (ex_state (Suc j)) ''eni-0999'' = Some c' \<Longrightarrow> unhindered c c'"
  using ex_claim_clean [of j c] by (simp add: ex_idle)

lemma ex_orphaned: "orphaned srv_ports srv_claims ex_label ex_run 0 ''eni-0999'' ex_orphan"
  using ex_orphan_facts(1) ex_claim_clean [OF ex_orphan_facts(1)] ex_absent ex_unhindered
  by (simp add: orphaned_def)

lemma ex_waiting: "waiting_for srv_ports srv_claims srv_machines ex_label ex_run 0 ''workload'' ''b'' (paused_machine ''b'') edge_ref"
proof -
  have "srv_machines (ex_state 0) (''workload'', ''b'') = Some (paused_machine ''b'')"
    using paused_stored by (simp add: full_world_def srv_machines_def)
  moreover have "paused_machine ''b'' \<noteq> failed (paused_machine ''b'') ''PoolExhausted''"
  proof
    assume "paused_machine ''b'' = failed (paused_machine ''b'') ''PoolExhausted''"
    then have "map_index (am_annotations (paused_machine ''b'')) AllocationReasonAnnotation =
        map_index (am_annotations (failed (paused_machine ''b'') ''PoolExhausted'')) AllocationReasonAnnotation" by simp
    then show False by (simp add: failed_def paused_machine_def map_index_Some)
  qed
  moreover have "obtainable (srv_claims (ex_state (Suc j))) (ref_id edge_ref) m"
    if "ex_label j \<noteq> Some (MachineKey ''workload'' ''b'')" "obtainable (srv_claims (ex_state j)) (ref_id edge_ref) m" for j m
  proof (cases j rule: ex_step_cases)
    case (claim r)
    then show ?thesis using that(2) srv_claim_api.Reconcile_claim_stored [OF claim(3)] unfolding obtainable_def by metis
  qed (use that ex_idle in simp_all)
  ultimately show ?thesis using paused_served ex_wants ex_idle by (simp add: waiting_for_def)
qed

section \<open>Properties\<close>

text \<open>
  C9: In every fair run an orphan is reclaimed: if from some step on the machine of a stored claim does
  not exist, its pool can be read, and nobody else puts a finalizer on the claim, gives it a younger
  creation time or takes its deletion back, then its name is free some day, whatever all controllers and
  the rest of the cluster do in between.
\<close>
theorem fair_orphan_reclaimed:
  assumes "allocator_api P claims machines" "claim_api P claims now" "pool_api P claims pools"
    and "fair_run (q_act P claims machines pools) clock label run (\<lambda>q. n \<in> qs_claims q) (\<lambda>j. label j = Some (ClaimKey n))"
    and "q_start claims machines pools (run 0)"
    and "claims (qs_state (run i)) n = Some c" "claim_finalizers c = [ClaimFinalizer]"
    and "\<And>j. i \<le> j \<Longrightarrow>
      p_get_awsmachine P (qs_state (run j)) (nref_namespace (claim_machine c)) (nref_name (claim_machine c)) = Inl NotFound \<and>
      (\<exists>p. p_get_pool P (qs_state (run j)) (claim_pool c) = Inr p)"
    and "\<And>j c' c''. i \<le> j \<Longrightarrow> label j = None \<Longrightarrow> claims (qs_state (run j)) n = Some c' \<Longrightarrow>
      claims (qs_state (run (Suc j))) n = Some c'' \<Longrightarrow> unhindered c' c''"
  shows "\<exists>j\<ge>i. claims (qs_state (run j)) n = None"
proof (rule orphan_ends [OF assms(1-5)])
  have "unhindered c c" using assms(7) by (simp add: unhindered_def settle_releasing)
  with assms(6,8,9) show "orphaned P claims label run i n c" unfolding orphaned_def by blast
qed

theorem fair_orphan_reclaimed_witness:
  "\<exists>j. srv_claims (ex_state j) ''eni-0999'' = None \<and> srv_claims (ex_state 0) ''eni-0999'' = Some ex_orphan"
proof -
  have "\<exists>j\<ge>0. srv_claims (ex_state j) ''eni-0999'' = None"
    by (rule fair_orphan_reclaimed [OF srv_api.allocator_api_axioms srv_claim_api.claim_api_axioms srv_pool_api.pool_api_axioms
        claim_run.fair_run_axioms ex_start ex_orphan_facts(1,2)])
      (use ex_absent ex_unhindered in \<open>simp_all\<close>)
  with ex_orphan_facts(1) show ?thesis by blast
qed



end
