(* ===== verification/Running_Program.thy ===== *)
theory Running_Program
  imports AWSMachine_Controller ENIClaim_Controller ENIPool_Controller AWSMachine_Webhook Pool_Webhook
begin

text \<open>
  The handlers as the running program has them: the structs they are methods of, with the fields that
  \<^verbatim>\<open>main\<close> and the \<^verbatim>\<open>Setup...WithManager\<close> functions give them, and what an operator learns from the events
  and the metric of the machine reconciler.
\<close>

section \<open>Receivers\<close>

text \<open>
  What the handlers get from the manager: its client (with the metrics and library functions that the
  ports contain), its scheme, and a recorder for each name. A pointer or interface may be nil.
\<close>

record ('s, 'c) manager =
  GetClient :: "'s ports"
  GetScheme :: 'c
  GetEventRecorder :: "string \<Rightarrow> Event \<Rightarrow> 's \<Rightarrow> 's"

record ('s, 'c) AWSMachineReconciler =
  amr_Client :: "'s ports option"
  amr_Scheme :: "'c option"
  amr_Recorder :: "(Event \<Rightarrow> 's \<Rightarrow> 's) option"

record ('s, 'c) ENIClaimReconciler =
  ecr_Client :: "'s ports option"
  ecr_Scheme :: "'c option"

record ('s, 'c) ENIPoolReconciler =
  epr_Client :: "'s ports option"
  epr_Scheme :: "'c option"

record 's AWSMachineCustomDefaulter =
  amd_Client :: "'s ports option"

record 's ENIPoolCustomValidator =
  epv_Client :: "'s ports option"

text \<open>\<^verbatim>\<open>main\<close> and the set-up of the webhooks fill them in.\<close>

definition main_ENIPoolReconciler :: "('s, 'c) manager \<Rightarrow> ('s, 'c) ENIPoolReconciler" where
  "main_ENIPoolReconciler mgr = \<lparr>epr_Client = Some (GetClient mgr), epr_Scheme = Some (GetScheme mgr)\<rparr>"

definition main_ENIClaimReconciler :: "('s, 'c) manager \<Rightarrow> ('s, 'c) ENIClaimReconciler" where
  "main_ENIClaimReconciler mgr = \<lparr>ecr_Client = Some (GetClient mgr), ecr_Scheme = Some (GetScheme mgr)\<rparr>"

definition main_AWSMachineReconciler :: "('s, 'c) manager \<Rightarrow> ('s, 'c) AWSMachineReconciler" where
  "main_AWSMachineReconciler mgr = \<lparr>amr_Client = Some (GetClient mgr), amr_Scheme = Some (GetScheme mgr),
     amr_Recorder = Some (GetEventRecorder mgr ''capa-eni-controller'')\<rparr>"

definition setup_AWSMachineCustomDefaulter :: "('s, 'c) manager \<Rightarrow> 's AWSMachineCustomDefaulter" where
  "setup_AWSMachineCustomDefaulter mgr = \<lparr>amd_Client = Some (GetClient mgr)\<rparr>"

definition setup_ENIPoolCustomValidator :: "('s, 'c) manager \<Rightarrow> 's ENIPoolCustomValidator" where
  "setup_ENIPoolCustomValidator mgr = \<lparr>epv_Client = Some (GetClient mgr)\<rparr>"

text \<open>The methods; a reconciler without a client panics (\<open>None\<close>).\<close>

definition reconcile_machine :: "('s, 'c) AWSMachineReconciler \<Rightarrow> string \<Rightarrow> string \<Rightarrow> 's \<Rightarrow> ((error + Result) \<times> 's) option" where
  "reconcile_machine r ns n s =
     map_option (\<lambda>C. Reconcile_AWSMachine (C\<lparr>p_recorder := amr_Recorder r\<rparr>) ns n s) (amr_Client r)"

definition reconcile_claim :: "('s, 'c) ENIClaimReconciler \<Rightarrow> instant \<Rightarrow> string \<Rightarrow> 's \<Rightarrow> ((error + Result) \<times> 's) option" where
  "reconcile_claim r t n s = map_option (\<lambda>C. Reconcile_ENIClaim C t n s) (ecr_Client r)"

definition reconcile_pool :: "('s, 'c) ENIPoolReconciler \<Rightarrow> string \<Rightarrow> 's \<Rightarrow> ((error + Result) \<times> 's) option" where
  "reconcile_pool r n s = map_option (\<lambda>C. Reconcile_ENIPool C n s) (epr_Client r)"

definition validate_pool :: "'s ENIPoolCustomValidator \<Rightarrow> ENIPool \<Rightarrow> 's \<Rightarrow> pool_denial option" where
  "validate_pool v obj s = ValidateCreate_ENIPool (epv_Client v) obj s"

definition default_machine :: "'s AWSMachineCustomDefaulter \<Rightarrow> AdmissionRequest option \<Rightarrow> AWSMachine \<Rightarrow> 's \<Rightarrow>
    (error option \<times> AWSMachine) \<times> 's" where
  "default_machine d request obj s = Default_AWSMachine (amd_Client d) request obj s"

text \<open>In the running program no client is nil, so the branches for the unit tests are never taken.\<close>

lemma running_handlers:
  "reconcile_machine (main_AWSMachineReconciler mgr) ns n s =
     Some (Reconcile_AWSMachine ((GetClient mgr)\<lparr>p_recorder := Some (GetEventRecorder mgr ''capa-eni-controller'')\<rparr>) ns n s)"
  "reconcile_claim (main_ENIClaimReconciler mgr) t k s = Some (Reconcile_ENIClaim (GetClient mgr) t k s)"
  "reconcile_pool (main_ENIPoolReconciler mgr) k s = Some (Reconcile_ENIPool (GetClient mgr) k s)"
  "validate_pool (setup_ENIPoolCustomValidator mgr) p s = ValidateCreate_ENIPool (Some (GetClient mgr)) p s"
  "default_machine (setup_AWSMachineCustomDefaulter mgr) request m s = Default_AWSMachine (Some (GetClient mgr)) request m s"
  by (simp_all add: reconcile_machine_def reconcile_claim_def reconcile_pool_def validate_pool_def default_machine_def
    main_AWSMachineReconciler_def main_ENIClaimReconciler_def main_ENIPoolReconciler_def setup_ENIPoolCustomValidator_def
    setup_AWSMachineCustomDefaulter_def)

section \<open>Events and the metric\<close>

text \<open>\<open>events\<close> are the events recorded so far, \<open>fallbacks\<close> is the counter; nothing but the recorder and the increment touches them.\<close>

locale audit = allocator_api P claims machines
  for P :: "'s ports" and claims :: "'s \<Rightarrow> string \<rightharpoonup> ENIClaim" and machines :: "'s \<Rightarrow> string \<times> string \<rightharpoonup> AWSMachine" +
  fixes events :: "'s \<Rightarrow> Event list" and fallbacks :: "'s \<Rightarrow> string \<Rightarrow> nat"
  assumes recorded: "events (record_event P e s) = events s @ [e]" "fallbacks (record_event P e s) = fallbacks s"
    and counted: "fallbacks (p_inc_fallbacks P w s) = (fallbacks s)(w := fallbacks s w + 1)"
          "events (p_inc_fallbacks P w s) = events s"
    and create_silent: "events (snd (p_create_claim P c s)) = events s" "fallbacks (snd (p_create_claim P c s)) = fallbacks s"
    and patch_silent: "events (snd (p_patch_awsmachine P b m s)) = events s"
          "fallbacks (snd (p_patch_awsmachine P b m s)) = fallbacks s"

definition allocated_event :: "string \<Rightarrow> string \<Rightarrow> Event" where
  "allocated_event eni pool = \<lparr>ev_type = ''Normal'', ev_reason = ''ENIAllocated'', ev_action = ''AllocateENI'', ev_args = [eni, pool]\<rparr>"

definition fallback_event :: "string \<Rightarrow> Event" where
  "fallback_event why = \<lparr>ev_type = ''Warning'', ev_reason = ''DynamicFallback'', ev_action = ''ReleaseToCAPA'', ev_args = [why]\<rparr>"

text \<open>What a call that reads the machine \<open>m\<close> reports, together with what it does to the machines and what it returns.\<close>

inductive machine_report :: "Event list \<Rightarrow> (string \<Rightarrow> nat) \<Rightarrow> (string \<times> string \<rightharpoonup> AWSMachine) \<Rightarrow> AWSMachine \<Rightarrow>
    error + Result \<Rightarrow> Event list \<Rightarrow> (string \<Rightarrow> nat) \<Rightarrow> (string \<times> string \<rightharpoonup> AWSMachine) \<Rightarrow> bool" for es fs ms m where
  silent: "machine_report es fs ms m r es fs ms"
| marked: "machine_report es fs ms m (Inr no_requeue) es fs (ms(am_key m \<mapsto> failed m ''PoolExhausted''))"
| allocated: "machine_report es fs ms m (Inr no_requeue) (es @ [allocated_event eni pool]) fs
    (ms(am_key m \<mapsto> released m [eni] AllocationResultAllocated None))"
| released: "machine_report es fs ms m (Inr no_requeue) (es @ [fallback_event why]) (fs(why := Suc (fs why)))
    (ms(am_key m \<mapsto> released m [] AllocationResultDynamicFallback (Some why)))"
| lost: "machine_report es fs ms m (Inl e) (es @ [fallback_event why]) (fs(why := Suc (fs why))) ms"

context audit
begin

abbreviation reports :: "'s \<Rightarrow> AWSMachine \<Rightarrow> error + Result \<Rightarrow> 's \<Rightarrow> bool" where
  "reports s m r s' \<equiv> machine_report (events s) (fallbacks s) (machines s) m r (events s') (fallbacks s') (machines s')"

lemma patch_quiet:
  assumes "p_patch_awsmachine P b m s = (e, s')"
  shows "events s' = events s" "fallbacks s' = fallbacks s"
  using patch_silent [of b m s] assms by simp_all

lemma patch_report:
  assumes "patch_result P m m' s = (r, s')" "machines s (am_key m) = Some m"
  shows "events s' = events s \<and> fallbacks s' = fallbacks s \<and>
    (r = Inr no_requeue \<and> machines s' = (machines s)(am_key m \<mapsto> merge_awsmachine m m' m) \<or> (\<exists>e. r = Inl e) \<and> machines s' = machines s)"
proof -
  obtain e t where e: "p_patch_awsmachine P m m' s = (e, t)" by force
  with assms(1) have "t = s'" "r = return_err e" by (simp_all add: patch_result_def)
  with e patch_quiet [OF e] patch_done [of m m' s t] patch_failed [of m m' s _ t] assms(2) show ?thesis by (cases e) auto
qed

lemma fall_back_report:
  assumes "dynamicFallback P m why s = (r, s')" "machines s (am_key m) = Some m" "served m" "why \<noteq> ''''"
  shows "reports s m r s'"
proof -
  let ?t = "record_event P (fallback_event why) (p_inc_fallbacks P why s)"
  have t: "machines ?t = machines s" "events ?t = events s @ [fallback_event why]" "fallbacks ?t = (fallbacks s)(why := fallbacks s why + 1)"
    by (simp_all add: event_frame metric_frame recorded counted)
  have "patch_result P m (released m [] AllocationResultDynamicFallback (Some why)) ?t = (r, s')"
    using assms by (simp add: steps_on_served fallback_event_def)
  from patch_report [OF this] t assms(2) show ?thesis by (auto intro: machine_report.released machine_report.lost)
qed

lemma mark_report:
  assumes "markFailed P m ''PoolExhausted'' s = (r, s')" "machines s (am_key m) = Some m"
  shows "reports s m r s'"
  using patch_report [of m "failed m ''PoolExhausted''" s r s'] assms
  by (auto simp: markFailed_eq intro: machine_report.marked machine_report.silent)

lemma release_report:
  assumes "release_allocated P m pool c s = (r, s')" "machines s (am_key m) = Some m" "served m"
  shows "reports s m r s'"
proof -
  let ?m = "released m [claim_eni c] AllocationResultAllocated None"
  obtain e t where e: "p_patch_awsmachine P m ?m s = (e, t)" by force
  note quiet = patch_quiet [OF e]
  show ?thesis
  proof (cases e)
    case None
    then have run: "r = Inr no_requeue" "s' = record_event P (allocated_event (claim_eni c) (pool_name pool)) t"
      using assms(1,3) e by (auto simp: steps_on_served allocated_event_def)
    moreover have "machines t = (machines s)(am_key m \<mapsto> ?m)" using patch_done [of m ?m s t] e None assms(2) by auto
    ultimately show ?thesis using quiet machine_report.allocated by (simp add: recorded event_frame)
  next
    case (Some err)
    then have "s' = t" using assms(1,3) e by (auto simp: steps_on_served)
    moreover have "machines t = machines s" using patch_failed e Some by blast
    ultimately show ?thesis using quiet machine_report.silent by simp
  qed
qed

lemma claimInterface_quiet:
  assumes "rc_claimInterface P m pool k s = (r, s')"
  shows "events s' = events s" "fallbacks s' = fallbacks s" "machines s' = machines s"
proof -
  have "f s' = f s" if "\<And>c t. f (snd (p_create_claim P c t)) = f t" for f :: "'s \<Rightarrow> 'x"
    using assms allocate_preserves [of f "p_create_claim P", OF that] by (auto simp: rc_claimInterface_def split: sum.splits option.splits)
  from this [of events] this [of fallbacks] show "events s' = events s" "fallbacks s' = fallbacks s"
    using create_silent by blast+
  show "machines s' = machines s" using claimInterface_outcome [OF assms] ..
qed

lemma Reconcile_reports:
  assumes "machines s (ns, n) = Some m" "Reconcile_AWSMachine P ns n s = (r, s')"
  shows "reports s m r s'"
proof (cases "served m")
  case True
  have get: "p_get_awsmachine P s ns n = Inr m" using assms(1) by (simp add: get_machines)
  have key: "machines s (am_key m) = Some m" using assms(1) machine_named [OF assms(1)] by simp
  show ?thesis
  proof (cases "\<exists>pool k. rc_target P m s pool k")
    case False
    with assms(2) [unfolded Reconcile_served [OF get True]] key True show ?thesis
      by (auto simp: rc_target_def intro: machine_report.silent fall_back_report split: sum.splits option.splits)
  next
    case target: True
    then obtain pool k where t: "rc_target P m s pool k" by blast
    obtain oc t where c: "rc_claimInterface P m pool k s = (oc, t)" by force
    note quiet = claimInterface_quiet [OF c]
    have key': "machines t (am_key m) = Some m" using key quiet by simp
    from assms(2) [unfolded Reconcile_at_target [OF get True t]] c
    have "s' = t \<or> markFailed P m ''PoolExhausted'' t = (r, s') \<or> dynamicFallback P m ''PoolExhausted'' t = (r, s') \<or>
        (\<exists>cl. release_allocated P m pool cl t = (r, s'))"
      by (auto split: sum.splits option.splits if_splits)
    then have "reports t m r s'"
      using machine_report.silent mark_report [OF _ key'] fall_back_report [OF _ key' True] release_report [OF _ key' True] by auto
    then show ?thesis by (simp add: quiet)
  qed
next
  case False
  with assms show ?thesis by (auto simp: Reconcile_not_served get_machines intro: machine_report.silent)
qed

end

section \<open>Accounts\<close>

text \<open>The client with the recorder that the machine reconciler of the program has.\<close>

definition main_ports :: "('s, 'c) manager \<Rightarrow> 's ports" where
  "main_ports mgr = (GetClient mgr)\<lparr>p_recorder := Some (GetEventRecorder mgr ''capa-eni-controller'')\<rparr>"


text \<open>
  A history: the calls of the machine reconciler, each with the machine it read and what is stored for it
  afterwards; everything else in between leaves the events of this recorder and the counter alone.
\<close>

inductive history for mgr machines events fallbacks s0 where
  start: "history mgr machines events fallbacks s0 [] s0"
| call: "history mgr machines events fallbacks s0 tr s \<Longrightarrow> machines s (ns, n) = Some m \<Longrightarrow>
    reconcile_machine (main_AWSMachineReconciler mgr) ns n s = Some (r, s') \<Longrightarrow>
    history mgr machines events fallbacks s0 (tr @ [(m, machines s' (ns, n))]) s'"
| others: "history mgr machines events fallbacks s0 tr s \<Longrightarrow> events s' = events s \<Longrightarrow> fallbacks s' = fallbacks s \<Longrightarrow>
    history mgr machines events fallbacks s0 tr s'"

definition got_eni :: "AWSMachine \<times> AWSMachine option \<Rightarrow> bool" where
  "got_eni c \<longleftrightarrow> served (fst c) \<and> (\<exists>eni. snd c = Some (released (fst c) [eni] AllocationResultAllocated None))"

definition went_dynamic :: "string \<Rightarrow> AWSMachine \<times> AWSMachine option \<Rightarrow> bool" where
  "went_dynamic why c \<longleftrightarrow> served (fst c) \<and> snd c = Some (released (fst c) [] AllocationResultDynamicFallback (Some why))"

definition tell_eni :: "Event \<Rightarrow> bool" where
  "tell_eni e \<longleftrightarrow> ev_reason e = ''ENIAllocated''"

definition accounts :: "Event list \<Rightarrow> (string \<Rightarrow> nat) \<Rightarrow> (AWSMachine \<times> AWSMachine option) list \<Rightarrow> Event list \<Rightarrow> (string \<Rightarrow> nat) \<Rightarrow> bool" where
  "accounts es fs tr es' fs' \<longleftrightarrow> (\<exists>new. es' = es @ new \<and>
     length (filter tell_eni new) = length (filter got_eni tr) \<and>
     (\<forall>why. fs' why = fs why + length (filter (\<lambda>e. e = fallback_event why) new) \<and>
        length (filter (went_dynamic why) tr) \<le> length (filter (\<lambda>e. e = fallback_event why) new)))"

lemma event_simps [simp]: "tell_eni (allocated_event eni pool)" "\<not> tell_eni (fallback_event why)"
  "allocated_event eni pool \<noteq> fallback_event why" "fallback_event why = fallback_event why' \<longleftrightarrow> why = why'"
  by (simp_all add: tell_eni_def allocated_event_def fallback_event_def)

lemma released_neq: "served m \<Longrightarrow> m \<noteq> released m is res why" "served m \<Longrightarrow> failed m reason \<noteq> released m is res why"
  by (metis released_not_served) (metis failed_served released_not_served)

lemma released_inject:
  assumes "released m is res why = released m is' res' why'"
  shows "is = is' \<and> why = why'"
proof
  have "am_networkInterfaces (released m is res why) = am_networkInterfaces (released m is' res' why')" using assms by simp
  then show "is = is'" by simp
  have "am_annotations (released m is res why) = am_annotations (released m is' res' why')" using assms by simp
  then have "the (am_annotations (released m is res why)) AllocationReasonAnnotation =
      the (am_annotations (released m is' res' why')) AllocationReasonAnnotation" by simp
  then show "why = why'" by simp
qed

lemma machine_report_accounts:
  assumes "machine_report es fs ms m r es' fs' ms'" "served m \<or> es' = es \<and> fs' = fs" "ms (am_key m) = Some m"
  shows "accounts es fs [(m, ms' (am_key m))] es' fs'"
  using assms
proof cases
  case (silent)
  then show ?thesis using assms(3) released_neq by (auto simp: accounts_def got_eni_def went_dynamic_def)
next
  case marked
  then show ?thesis using released_neq by (auto simp: accounts_def got_eni_def went_dynamic_def)
next
  case (allocated eni pool)
  with assms(2) have "served m" by simp
  with allocated show ?thesis by (auto simp: accounts_def got_eni_def went_dynamic_def dest: released_inject)
next
  case (released why)
  with assms(2) have "served m" by simp
  with released show ?thesis by (auto simp: accounts_def got_eni_def went_dynamic_def dest: released_inject)
next
  case (lost e why)
  with assms(2) have "served m" by simp
  with lost assms(3) released_neq show ?thesis by (auto simp: accounts_def got_eni_def went_dynamic_def)
qed

lemma accounts_append:
  assumes "accounts es fs tr es1 fs1" "accounts es1 fs1 tr' es2 fs2"
  shows "accounts es fs (tr @ tr') es2 fs2"
proof -
  obtain a b where "es1 = es @ a" "es2 = es1 @ b" "length (filter tell_eni a) = length (filter got_eni tr)"
    "length (filter tell_eni b) = length (filter got_eni tr')"
    "\<And>why. fs1 why = fs why + length (filter (\<lambda>e. e = fallback_event why) a) \<and>
        length (filter (went_dynamic why) tr) \<le> length (filter (\<lambda>e. e = fallback_event why) a)"
    "\<And>why. fs2 why = fs1 why + length (filter (\<lambda>e. e = fallback_event why) b) \<and>
        length (filter (went_dynamic why) tr') \<le> length (filter (\<lambda>e. e = fallback_event why) b)"
    using assms unfolding accounts_def by blast
  then show ?thesis unfolding accounts_def by (intro exI [of _ "a @ b"]) (simp add: add_le_mono)
qed

context audit
begin

lemma call_accounts:
  assumes "machines s (ns, n) = Some m" "Reconcile_AWSMachine P ns n s = (r, s')"
  shows "accounts (events s) (fallbacks s) [(m, machines s' (ns, n))] (events s') (fallbacks s')"
proof -
  have key: "am_key m = (ns, n)" using machine_named [OF assms(1)] .
  have "served m \<or> events s' = events s \<and> fallbacks s' = fallbacks s"
    using assms by (cases "served m") (auto simp: Reconcile_not_served get_machines)
  from machine_report_accounts [OF Reconcile_reports [OF assms] this] assms(1) key show ?thesis by simp
qed

end

text \<open>The reference server as the client of a manager.\<close>

interpretation srv_audit: audit srv_ports srv_claims srv_machines w_events w_fallbacks
  by unfold_locales
    (simp_all add: record_event_def srv_create_claim_def srv_set_claim_def srv_patch_awsmachine_def split: option.split,
      simp_all add: srv_ports_def)

definition ex_manager :: "(world, unit) manager" where
  "ex_manager = \<lparr>GetClient = srv_ports, GetScheme = (), GetEventRecorder = (\<lambda>_ e s. s\<lparr>w_events := w_events s @ [e]\<rparr>)\<rparr>"

lemma ex_main_ports: "main_ports ex_manager = srv_ports"
  by (simp add: main_ports_def ex_manager_def srv_ports_def)

section \<open>Properties\<close>



text \<open>
  The counter is not the number of machines released: when the patch of a fallback fails, the call that
  repeats it counts the machine and records the warning a second time.
\<close>

definition first_patch_lost :: "world ports" where
  "first_patch_lost = srv_ports\<lparr>p_patch_awsmachine := (\<lambda>base new s.
     if length (w_events s) \<le> 1 then (Some (OtherError ''timeout''), s) else srv_patch_awsmachine base new s)\<rparr>"

theorem fallback_counted_twice:
  "let s0 = (paused_world ex_pool)\<lparr>w_pools := []\<rparr>;
       s1 = snd (Reconcile_AWSMachine first_patch_lost ''workload'' ''b'' s0);
       s2 = snd (Reconcile_AWSMachine first_patch_lost ''workload'' ''b'' s1)
   in length (w_awsmachines s2) = 1 \<and> w_fallbacks s2 ''NoMatchingPool'' = 2 \<and> length (w_events s2) = 2 \<and>
     map (\<lambda>m. map_index (am_annotations m) AllocationResultAnnotation) (w_awsmachines s1) = [''''] \<and>
     map (\<lambda>m. map_index (am_annotations m) AllocationResultAnnotation) (w_awsmachines s2) = [AllocationResultDynamicFallback]"
  by code_simp

end
