(* ===== verification/Startup.thy ===== *)
theory Startup
  imports Prelude
begin

text \<open>
  The program's \<^verbatim>\<open>main\<close> (\<^verbatim>\<open>cmd/main.go\<close>): the flags, the options of the two servers and of the manager
  it computes from them, and the order in which it registers the controllers and webhooks before it
  starts the manager. The \<^verbatim>\<open>Setup...WithManager\<close> functions are the registrations they pass to the
  builders of controller-runtime. The parser is the one of Go's \<^verbatim>\<open>flag\<close> package; which calls fail, and
  the flags that zap and controller-runtime add to the command line, are parameters.
\<close>

section \<open>Flags\<close>

record Flags =
  metricsAddr :: string
  metricsCertPath :: string
  metricsCertName :: string
  metricsCertKey :: string
  webhookCertPath :: string
  webhookCertName :: string
  webhookCertKey :: string
  enableLeaderElection :: bool
  probeAddr :: string
  secureMetrics :: bool
  enableHTTP2 :: bool

definition default_flags :: Flags where
  "default_flags = \<lparr>metricsAddr = ''0'', metricsCertPath = '''', metricsCertName = ''tls.crt'',
     metricsCertKey = ''tls.key'', webhookCertPath = '''', webhookCertName = ''tls.crt'',
     webhookCertKey = ''tls.key'', enableLeaderElection = False, probeAddr = '':8081'',
     secureMetrics = True, enableHTTP2 = False\<rparr>"

text \<open>\<^verbatim>\<open>strconv.ParseBool\<close>\<close>

definition ParseBool :: "string \<Rightarrow> bool option" where
  "ParseBool s =
     (if s \<in> set [''1'', ''t'', ''T'', ''true'', ''TRUE'', ''True''] then Some True
      else if s \<in> set [''0'', ''f'', ''F'', ''false'', ''FALSE'', ''False''] then Some False
      else None)"

text \<open>
  What a name of the command line stands for: the \<^verbatim>\<open>Set\<close> of a string or a boolean flag. The flags that
  others add are \<open>others\<close>: whether they are boolean, and which values they take; they do not change
  \<open>Flags\<close>.
\<close>

datatype flag_kind =
    StringVar "string \<Rightarrow> Flags \<Rightarrow> Flags"
  | BoolVar "bool \<Rightarrow> Flags \<Rightarrow> Flags"
  | Foreign bool "string \<Rightarrow> bool"

definition flag_table :: "(string \<times> flag_kind) list" where
  "flag_table = [
     (''metrics-bind-address'', StringVar (\<lambda>v f. f\<lparr>metricsAddr := v\<rparr>)),
     (''health-probe-bind-address'', StringVar (\<lambda>v f. f\<lparr>probeAddr := v\<rparr>)),
     (''leader-elect'', BoolVar (\<lambda>v f. f\<lparr>enableLeaderElection := v\<rparr>)),
     (''metrics-secure'', BoolVar (\<lambda>v f. f\<lparr>secureMetrics := v\<rparr>)),
     (''webhook-cert-path'', StringVar (\<lambda>v f. f\<lparr>webhookCertPath := v\<rparr>)),
     (''webhook-cert-name'', StringVar (\<lambda>v f. f\<lparr>webhookCertName := v\<rparr>)),
     (''webhook-cert-key'', StringVar (\<lambda>v f. f\<lparr>webhookCertKey := v\<rparr>)),
     (''metrics-cert-path'', StringVar (\<lambda>v f. f\<lparr>metricsCertPath := v\<rparr>)),
     (''metrics-cert-name'', StringVar (\<lambda>v f. f\<lparr>metricsCertName := v\<rparr>)),
     (''metrics-cert-key'', StringVar (\<lambda>v f. f\<lparr>metricsCertKey := v\<rparr>)),
     (''enable-http2'', BoolVar (\<lambda>v f. f\<lparr>enableHTTP2 := v\<rparr>))]"

type_synonym other_flags = "string \<Rightarrow> (bool \<times> (string \<Rightarrow> bool)) option"

definition lookup_flag :: "other_flags \<Rightarrow> string \<Rightarrow> flag_kind option" where
  "lookup_flag others name = (case map_of flag_table name of
     Some k \<Rightarrow> Some k
   | None \<Rightarrow> map_option (\<lambda>(b, accepts). Foreign b accepts) (others name))"

definition is_bool_flag :: "flag_kind \<Rightarrow> bool" where
  "is_bool_flag k = (case k of StringVar _ \<Rightarrow> False | BoolVar _ \<Rightarrow> True | Foreign b _ \<Rightarrow> b)"

text \<open>\<^verbatim>\<open>Value.Set\<close>; \<open>None\<close> is its error.\<close>

definition set_flag :: "flag_kind \<Rightarrow> string \<Rightarrow> Flags \<Rightarrow> Flags option" where
  "set_flag k v f = (case k of
     StringVar upd \<Rightarrow> Some (upd v f)
   | BoolVar upd \<Rightarrow> map_option (\<lambda>b. upd b f) (ParseBool v)
   | Foreign _ accepts \<Rightarrow> if accepts v then Some f else None)"

text \<open>
  \<^verbatim>\<open>flag.Parse\<close> with \<^verbatim>\<open>ExitOnError\<close>: the flags, or the status of the exit it makes, 0 after a request
  for help and 2 after any error. \<open>split_value\<close> cuts a flag at its first \<^verbatim>\<open>=\<close> that is not its first byte.
\<close>

definition split_value :: "string \<Rightarrow> string \<times> string option" where
  "split_value s = (case s of
     [] \<Rightarrow> ([], None)
   | c # cs \<Rightarrow> (c # takeWhile (\<lambda>x. x \<noteq> CHR ''='') cs,
       (case dropWhile (\<lambda>x. x \<noteq> CHR ''='') cs of [] \<Rightarrow> None | _ # v \<Rightarrow> Some v)))"

fun flag_Parse :: "other_flags \<Rightarrow> string list \<Rightarrow> Flags \<Rightarrow> nat + Flags" where
  "flag_Parse others [] f = Inr f"
| "flag_Parse others (s # args) f =
     (if length s < 2 \<or> hd s \<noteq> CHR ''-'' then Inr f
      else if s = ''--'' then Inr f
      else
        let body = (if s ! 1 = CHR ''-'' then drop 2 s else drop 1 s) in
        if body = [] \<or> hd body = CHR ''-'' \<or> hd body = CHR ''='' then Inl 2
        else case split_value body of (name, given) \<Rightarrow>
          case lookup_flag others name of
            None \<Rightarrow> Inl (if name = ''help'' \<or> name = ''h'' then 0 else 2)
          | Some k \<Rightarrow>
              if is_bool_flag k then
                (case set_flag k (case given of Some v \<Rightarrow> v | None \<Rightarrow> ''true'') f of
                   None \<Rightarrow> Inl 2
                 | Some f' \<Rightarrow> flag_Parse others args f')
              else
                (case given of
                   Some v \<Rightarrow> (case set_flag k v f of None \<Rightarrow> Inl 2 | Some f' \<Rightarrow> flag_Parse others args f')
                 | None \<Rightarrow> (case args of
                     [] \<Rightarrow> Inl 2
                   | v # args' \<Rightarrow> (case set_flag k v f of None \<Rightarrow> Inl 2 | Some f' \<Rightarrow> flag_Parse others args' f'))))"

section \<open>Options\<close>

record tls_config =
  NextProtos :: "string list"

type_synonym tls_opts = "(tls_config \<Rightarrow> tls_config) list"

definition disableHTTP2 :: "tls_config \<Rightarrow> tls_config" where
  "disableHTTP2 c = c\<lparr>NextProtos := [''http/1.1'']\<rparr>"

definition tlsOpts :: "Flags \<Rightarrow> tls_opts" where
  "tlsOpts f = (if \<not> enableHTTP2 f then [] @ [disableHTTP2] else [])"

text \<open>How controller-runtime's servers use them.\<close>

definition apply_tls :: "tls_opts \<Rightarrow> tls_config \<Rightarrow> tls_config" where
  "apply_tls os c = fold (\<lambda>opt. opt) os c"

record server_options =
  so_TLSOpts :: tls_opts
  so_CertDir :: string
  so_CertName :: string
  so_KeyName :: string

record metrics_options = server_options +
  mo_BindAddress :: string
  mo_SecureServing :: bool
  mo_FilterProvider :: "string option"

definition webhookServerOptions :: "Flags \<Rightarrow> server_options" where
  "webhookServerOptions f =
     (let os = \<lparr>so_TLSOpts = tlsOpts f, so_CertDir = '''', so_CertName = '''', so_KeyName = ''''\<rparr>
      in if length (webhookCertPath f) > 0 then
           os\<lparr>so_CertDir := webhookCertPath f, so_CertName := webhookCertName f, so_KeyName := webhookCertKey f\<rparr>
         else os)"

definition metricsServerOptions :: "Flags \<Rightarrow> metrics_options" where
  "metricsServerOptions f =
     (let os = \<lparr>so_TLSOpts = tlsOpts f, so_CertDir = '''', so_CertName = '''', so_KeyName = '''',
            mo_BindAddress = metricsAddr f, mo_SecureServing = secureMetrics f, mo_FilterProvider = None\<rparr>;
          os = (if secureMetrics f then os\<lparr>mo_FilterProvider := Some ''WithAuthenticationAndAuthorization''\<rparr> else os)
      in if length (metricsCertPath f) > 0 then
           os\<lparr>so_CertDir := metricsCertPath f, so_CertName := metricsCertName f, so_KeyName := metricsCertKey f\<rparr>
         else os)"

record manager_options =
  Metrics :: metrics_options
  WebhookServer :: server_options
  HealthProbeBindAddress :: string
  LeaderElection :: bool
  LeaderElectionID :: string

definition manager_options_of :: "Flags \<Rightarrow> manager_options" where
  "manager_options_of f = \<lparr>Metrics = metricsServerOptions f, WebhookServer = webhookServerOptions f,
     HealthProbeBindAddress = probeAddr f, LeaderElection = enableLeaderElection f,
     LeaderElectionID = ''8af9a227.dcn.ssu.ac.kr''\<rparr>"

section \<open>Registrations\<close>

text \<open>
  \<^verbatim>\<open>For(kind).Named(name).Complete(r)\<close> of a controller, and the kind of a webhook with its validator and
  defaulter.
\<close>

datatype registration =
    Controller string string
  | Webhook string bool bool

definition SetupWithManager_ENIPool :: registration where
  "SetupWithManager_ENIPool = Controller ''ENIPool'' ''enipool''"
definition SetupWithManager_ENIClaim :: registration where
  "SetupWithManager_ENIClaim = Controller ''ENIClaim'' ''eniclaim''"
definition SetupWithManager_AWSMachine :: registration where
  "SetupWithManager_AWSMachine = Controller ''AWSMachine'' ''awsmachine''"
definition SetupAWSMachineWebhookWithManager :: registration where
  "SetupAWSMachineWebhookWithManager = Webhook ''AWSMachine'' False True"
definition SetupENIPoolWebhookWithManager :: registration where
  "SetupENIPoolWebhookWithManager = Webhook ''ENIPool'' True True"
definition SetupENIClaimWebhookWithManager :: registration where
  "SetupENIClaimWebhookWithManager = Webhook ''ENIClaim'' True False"

lemmas setup_defs =
  SetupWithManager_ENIPool_def SetupWithManager_ENIClaim_def SetupWithManager_AWSMachine_def
  SetupAWSMachineWebhookWithManager_def SetupENIPoolWebhookWithManager_def SetupENIClaimWebhookWithManager_def

section \<open>The program\<close>

text \<open>
  The calls of \<^verbatim>\<open>main\<close> that can fail, in the order it makes them; the first failure ends the program with
  status 1. A run is the calls that were made and the exit status.
\<close>

datatype call =
    GetConfigOrDie
  | NewManager manager_options
  | SetupWithManager registration
  | AddHealthzCheck string
  | AddReadyzCheck string
  | Start

type_synonym run = "call list \<times> nat"

definition attempt :: "(call \<Rightarrow> bool) \<Rightarrow> call \<Rightarrow> run \<Rightarrow> run" where
  "attempt fails c rest = (if fails c then ([c], 1) else (c # fst rest, snd rest))"

definition if_webhooks :: "string \<Rightarrow> (run \<Rightarrow> run) \<Rightarrow> run \<Rightarrow> run" where
  "if_webhooks ENABLE_WEBHOOKS c rest = (if ENABLE_WEBHOOKS \<noteq> ''false'' then c rest else rest)"

definition run_manager :: "(call \<Rightarrow> bool) \<Rightarrow> string \<Rightarrow> Flags \<Rightarrow> run" where
  "run_manager fails env f =
     (attempt fails GetConfigOrDie
     (attempt fails (NewManager (manager_options_of f))
     (attempt fails (SetupWithManager SetupWithManager_ENIPool)
     (attempt fails (SetupWithManager SetupWithManager_ENIClaim)
     (if_webhooks env (attempt fails (SetupWithManager SetupAWSMachineWebhookWithManager))
     (attempt fails (SetupWithManager SetupWithManager_AWSMachine)
     (if_webhooks env (attempt fails (SetupWithManager SetupENIPoolWebhookWithManager))
     (if_webhooks env (attempt fails (SetupWithManager SetupENIClaimWebhookWithManager))
     (attempt fails (AddHealthzCheck ''healthz'')
     (attempt fails (AddReadyzCheck ''readyz'')
     (attempt fails Start ([], 0))))))))))))"

definition main :: "other_flags \<Rightarrow> string list \<Rightarrow> string \<Rightarrow> (call \<Rightarrow> bool) \<Rightarrow> run" where
  "main others args env fails = (case flag_Parse others args default_flags of
     Inl code \<Rightarrow> ([], code)
   | Inr f \<Rightarrow> run_manager fails env f)"

section \<open>Runs\<close>

text \<open>What a program that works through a list of calls does.\<close>

fun follow :: "(call \<Rightarrow> bool) \<Rightarrow> call list \<Rightarrow> run" where
  "follow fails [] = ([], 0)"
| "follow fails (c # cs) = (if fails c then ([c], 1) else (c # fst (follow fails cs), snd (follow fails cs)))"

definition plan :: "string \<Rightarrow> Flags \<Rightarrow> call list" where
  "plan env f =
     (let webhook = (\<lambda>r. if env \<noteq> ''false'' then [SetupWithManager r] else [])
      in [GetConfigOrDie, NewManager (manager_options_of f), SetupWithManager (Controller ''ENIPool'' ''enipool''),
          SetupWithManager (Controller ''ENIClaim'' ''eniclaim'')] @
         webhook (Webhook ''AWSMachine'' False True) @ [SetupWithManager (Controller ''AWSMachine'' ''awsmachine'')] @
         webhook (Webhook ''ENIPool'' True True) @ webhook (Webhook ''ENIClaim'' True False) @
         [AddHealthzCheck ''healthz'', AddReadyzCheck ''readyz'', Start])"

lemma run_manager_follow: "run_manager fails env f = follow fails (plan env f)"
  by (simp add: run_manager_def plan_def attempt_def if_webhooks_def setup_defs)

lemma follow_all: "follow (\<lambda>_. False) cs = (cs, 0)"
  by (induction cs) simp_all

lemma follow_cases:
  "follow fails cs = (done, code) \<Longrightarrow>
    (code = 0 \<and> done = cs \<and> (\<forall>c\<in>set cs. \<not> fails c)) \<or>
    (code = 1 \<and> (\<exists>c rest. cs = done @ rest \<and> done = butlast done @ [c] \<and> fails c \<and> (\<forall>x\<in>set (butlast done). \<not> fails x)))"
proof (induction cs arbitrary: "done" code)
  case (Cons c cs)
  show ?case
  proof (cases "fails c")
    case False
    then obtain d where d: "follow fails cs = (d, code)" "done = c # d" using Cons.prems by (cases "follow fails cs") auto
    from Cons.IH [OF d(1)] False d(2) show ?thesis by (cases d) auto
  qed (use Cons.prems in auto)
qed simp

section \<open>Command lines\<close>

text \<open>All flags of a configuration, written out.\<close>

definition render_bool :: "bool \<Rightarrow> string" where
  "render_bool b = (if b then ''true'' else ''false'')"

definition flag_arg :: "string \<Rightarrow> string \<Rightarrow> string" where
  "flag_arg name v = ''--'' @ name @ ''='' @ v"

definition render :: "Flags \<Rightarrow> string list" where
  "render f = [flag_arg ''metrics-bind-address'' (metricsAddr f), flag_arg ''health-probe-bind-address'' (probeAddr f),
     flag_arg ''leader-elect'' (render_bool (enableLeaderElection f)),
     flag_arg ''metrics-secure'' (render_bool (secureMetrics f)),
     flag_arg ''webhook-cert-path'' (webhookCertPath f), flag_arg ''webhook-cert-name'' (webhookCertName f),
     flag_arg ''webhook-cert-key'' (webhookCertKey f), flag_arg ''metrics-cert-path'' (metricsCertPath f),
     flag_arg ''metrics-cert-name'' (metricsCertName f), flag_arg ''metrics-cert-key'' (metricsCertKey f),
     flag_arg ''enable-http2'' (render_bool (enableHTTP2 f))]"

lemma ParseBool_render [simp]: "ParseBool (render_bool b) = Some b"
  by (simp add: ParseBool_def render_bool_def)

text \<open>One argument of the form \<^verbatim>\<open>--name=value\<close>, for a name of the table.\<close>

lemma parse_argument:
  assumes "map_of flag_table name = Some k" and "set_flag k v f = Some f'"
    and "name \<noteq> []" "hd name \<noteq> CHR ''-''" "CHR ''='' \<notin> set name"
  shows "flag_Parse others (flag_arg name v # args) f = flag_Parse others args f'"
proof -
  have ne: "x \<noteq> CHR ''=''" if "x \<in> set (tl name)" for x
    using that assms(3,5) by (metis list.set_sel(2))
  have "takeWhile (\<lambda>x. x \<noteq> CHR ''='') (tl name @ ''='' @ v) = tl name"
    using takeWhile_append2 [of "tl name" "\<lambda>x. x \<noteq> CHR ''=''", OF ne] by simp
  moreover have "dropWhile (\<lambda>x. x \<noteq> CHR ''='') (tl name @ ''='' @ v) = ''='' @ v"
    using dropWhile_append2 [of "tl name" "\<lambda>x. x \<noteq> CHR ''=''", OF ne] by simp
  ultimately have "split_value (name @ ''='' @ v) = (name, Some v)"
    using assms(3) by (cases name) (simp_all add: split_value_def)
  moreover define s where "s = ''--'' @ name @ ''='' @ v"
  then have s: "\<not> (length s < 2 \<or> hd s \<noteq> CHR ''-'')" "s \<noteq> ''--''" "s ! 1 = CHR ''-''" "drop 2 s = name @ ''='' @ v"
    using assms(3) by simp_all
  moreover have "\<not> (name @ ''='' @ v = [] \<or> hd (name @ ''='' @ v) = CHR ''-'' \<or> hd (name @ ''='' @ v) = CHR ''='')"
    using assms(3-5) by (cases name) auto
  moreover have "lookup_flag others name = Some k" using assms(1) by (simp add: lookup_flag_def)
  ultimately have "flag_Parse others (s # args) f =
     (if is_bool_flag k then (case set_flag k v f of None \<Rightarrow> Inl 2 | Some f' \<Rightarrow> flag_Parse others args f')
      else (case set_flag k v f of None \<Rightarrow> Inl 2 | Some f' \<Rightarrow> flag_Parse others args f'))"
    by (subst flag_Parse.simps(2)) (simp only: Let_def if_False if_True prod.case option.case simp_thms)
  then show ?thesis using assms(2) by (simp add: s_def flag_arg_def)
qed

text \<open>
  C34: Written out as \<^verbatim>\<open>--name=value\<close>, any configuration is read back by the flags of the program, whatever
  the flags had before and whichever foreign flags there are.
\<close>
theorem flags_round_trip: "flag_Parse others (render f) g = Inr f"
proof -
  have str: "flag_Parse others (flag_arg name v # args) g = flag_Parse others args (upd v g)"
    if "map_of flag_table name = Some (StringVar upd)" "name \<noteq> []" "hd name \<noteq> CHR ''-''" "CHR ''='' \<notin> set name"
    for name upd v args g
    using parse_argument [OF that(1) _ that(2-4)] by (simp add: set_flag_def)
  have bool: "flag_Parse others (flag_arg name (render_bool b) # args) g = flag_Parse others args (upd b g)"
    if "map_of flag_table name = Some (BoolVar upd)" "name \<noteq> []" "hd name \<noteq> CHR ''-''" "CHR ''='' \<notin> set name"
    for name upd b args g
    using parse_argument [OF that(1) _ that(2-4)] by (simp add: set_flag_def)
  note strs = str [of "''metrics-bind-address''" "\<lambda>v f. f\<lparr>metricsAddr := v\<rparr>"]
    str [of "''health-probe-bind-address''" "\<lambda>v f. f\<lparr>probeAddr := v\<rparr>"]
    str [of "''webhook-cert-path''" "\<lambda>v f. f\<lparr>webhookCertPath := v\<rparr>"]
    str [of "''webhook-cert-name''" "\<lambda>v f. f\<lparr>webhookCertName := v\<rparr>"]
    str [of "''webhook-cert-key''" "\<lambda>v f. f\<lparr>webhookCertKey := v\<rparr>"]
    str [of "''metrics-cert-path''" "\<lambda>v f. f\<lparr>metricsCertPath := v\<rparr>"]
    str [of "''metrics-cert-name''" "\<lambda>v f. f\<lparr>metricsCertName := v\<rparr>"]
    str [of "''metrics-cert-key''" "\<lambda>v f. f\<lparr>metricsCertKey := v\<rparr>"]
  note bools = bool [of "''leader-elect''" "\<lambda>v f. f\<lparr>enableLeaderElection := v\<rparr>"]
    bool [of "''metrics-secure''" "\<lambda>v f. f\<lparr>secureMetrics := v\<rparr>"]
    bool [of "''enable-http2''" "\<lambda>v f. f\<lparr>enableHTTP2 := v\<rparr>"]
  show ?thesis unfolding render_def
    by (simp add: strs bools flag_table_def del: flag_Parse.simps(2))
qed



text \<open>
  Unless HTTP/2 is enabled, both servers offer HTTP/1.1 only, whatever their TLS configuration was and
  wherever the certificates come from; a metrics endpoint that is served securely demands
  authentication and authorization, and without flags none is served.
\<close>
theorem servers_hardened:
  "(\<not> enableHTTP2 f \<longrightarrow>
      NextProtos (apply_tls (so_TLSOpts (WebhookServer (manager_options_of f))) c) = [''http/1.1''] \<and>
      NextProtos (apply_tls (so_TLSOpts (Metrics (manager_options_of f))) c) = [''http/1.1'']) \<and>
   (mo_SecureServing (Metrics (manager_options_of f)) \<longleftrightarrow>
      mo_FilterProvider (Metrics (manager_options_of f)) = Some ''WithAuthenticationAndAuthorization'') \<and>
   (flag_Parse others [] default_flags = Inr f \<longrightarrow>
      mo_BindAddress (Metrics (manager_options_of f)) = ''0'' \<and> mo_SecureServing (Metrics (manager_options_of f)))"
  by (auto simp: manager_options_of_def webhookServerOptions_def metricsServerOptions_def tlsOpts_def apply_tls_def
    disableHTTP2_def default_flags_def Let_def)

theorem servers_hardened_witness:
  "\<exists>f. flag_Parse (\<lambda>_. None) [''--metrics-bind-address='' @ '':8443''] default_flags = Inr f \<and> \<not> enableHTTP2 f \<and>
    NextProtos (apply_tls (so_TLSOpts (Metrics (manager_options_of f))) \<lparr>NextProtos = [''h2'']\<rparr>) = [''http/1.1'']"
proof -
  let ?f = "default_flags\<lparr>metricsAddr := '':8443''\<rparr>"
  have "flag_Parse (\<lambda>_. None) [''--metrics-bind-address='' @ '':8443''] default_flags = Inr ?f" by code_simp
  moreover have "\<not> enableHTTP2 ?f" by (simp add: default_flags_def)
  ultimately show ?thesis using servers_hardened [of ?f "\<lparr>NextProtos = [''h2'']\<rparr>"] by blast
qed

end
