(* ===== verification/Deployment.thy ===== *)
theory Deployment
  imports Startup
begin

text \<open>
  How the program is started in a cluster: the pod of \<^verbatim>\<open>config/manager/manager.yaml\<close>, the two patches that
  \<^verbatim>\<open>config/default\<close> applies to it, and the pod of \<^verbatim>\<open>package/install.yaml\<close>, the file users install.
\<close>

record container =
  ct_command :: "string list"
  ct_args :: "string list"
  ct_ports :: "(nat \<times> string) list"
  ct_liveness :: "string \<times> nat"
  ct_readiness :: "string \<times> nat"
  ct_mounts :: "(string \<times> string) list"

record pod = container +
  pd_volumes :: "(string \<times> string) list"

text \<open>Ports with their names, probes as path and port, mounts as path and volume, volumes with their secrets.\<close>

definition manager_pod :: pod where
  "manager_pod = \<lparr>ct_command = [''/manager''], ct_args = [''--leader-elect'', ''--health-probe-bind-address=:8081''],
     ct_ports = [(8081, ''health'')], ct_liveness = (''/healthz'', 8081), ct_readiness = (''/readyz'', 8081),
     ct_mounts = [], pd_volumes = []\<rparr>"

text \<open>\<^verbatim>\<open>op: add\<close> of a JSON patch, at an index and at the end of an array.\<close>

definition add_at :: "nat \<Rightarrow> 'a \<Rightarrow> 'a list \<Rightarrow> 'a list" where
  "add_at i x xs = take i xs @ [x] @ drop i xs"

definition add_last :: "'a \<Rightarrow> 'a list \<Rightarrow> 'a list" where
  "add_last x xs = xs @ [x]"

definition metrics_patch :: "pod \<Rightarrow> pod" where
  "metrics_patch p = p\<lparr>ct_args := add_at 0 ''--metrics-bind-address=:8443'' (ct_args p)\<rparr>"

definition webhook_patch :: "pod \<Rightarrow> pod" where
  "webhook_patch p = p\<lparr>
     ct_args := add_last ''--webhook-cert-path=/tmp/k8s-webhook-server/serving-certs'' (ct_args p),
     ct_mounts := add_last (''/tmp/k8s-webhook-server/serving-certs'', ''webhook-certs'') (ct_mounts p),
     ct_ports := add_last (9443, ''webhook-server'') (ct_ports p),
     pd_volumes := add_last (''webhook-certs'', ''webhook-server-cert'') (pd_volumes p)\<rparr>"

definition install_pod :: pod where
  "install_pod = \<lparr>ct_command = [''/manager''],
     ct_args = [''--metrics-bind-address=:8443'', ''--leader-elect'', ''--health-probe-bind-address=:8081'',
       ''--webhook-cert-path=/tmp/k8s-webhook-server/serving-certs''],
     ct_ports = [(8081, ''health''), (9443, ''webhook-server'')], ct_liveness = (''/healthz'', 8081),
     ct_readiness = (''/readyz'', 8081), ct_mounts = [(''/tmp/k8s-webhook-server/serving-certs'', ''webhook-certs'')],
     pd_volumes = [(''webhook-certs'', ''webhook-server-cert'')]\<rparr>"

lemma install_pod_patched: "webhook_patch (metrics_patch manager_pod) = install_pod"
  by (simp add: webhook_patch_def metrics_patch_def manager_pod_def install_pod_def add_at_def add_last_def)

section \<open>What the deployed program does\<close>

fun decimal :: "nat \<Rightarrow> string" where
  "decimal n = (if n < 10 then [char_of (48 + n)] else decimal (n div 10) @ [char_of (48 + n mod 10)])"

text \<open>The address of a port on all interfaces, \<^verbatim>\<open>:8081\<close>.\<close>

definition port_address :: "nat \<Rightarrow> string" where
  "port_address n = '':'' @ decimal n"

definition deployed_flags :: Flags where
  "deployed_flags = default_flags\<lparr>metricsAddr := port_address 8443, enableLeaderElection := True,
     probeAddr := port_address 8081, webhookCertPath := ''/tmp/k8s-webhook-server/serving-certs''\<rparr>"

lemma long_flag:
  assumes "map_of flag_table name = Some k" "set_flag k v f = Some f'" "name \<noteq> []" "hd name \<noteq> CHR ''-''" "CHR ''='' \<notin> set name"
    and "arg = flag_arg name v"
  shows "flag_Parse others (arg # args) f = flag_Parse others args f'"
  using parse_argument [OF assms(1-5)] assms(6) by simp

lemma leader_flag: "flag_Parse others (''--leader-elect'' # args) f = flag_Parse others args (f\<lparr>enableLeaderElection := True\<rparr>)"
  by (simp add: split_value_def lookup_flag_def flag_table_def is_bool_flag_def set_flag_def ParseBool_def)

declare decimal.simps [simp del]

lemma addresses: "port_address 8443 = '':8443''" "port_address 8081 = '':8081''"
  by (simp_all add: port_address_def decimal.simps [of 8443] decimal.simps [of 844] decimal.simps [of 84] decimal.simps [of 8081]
      decimal.simps [of 808] decimal.simps [of 80] decimal.simps [of 8] char_of_def bit_0)

lemma flags_deployed: "flag_Parse others (ct_args install_pod) default_flags = Inr deployed_flags"
proof -
  have args: "''--metrics-bind-address=:8443'' = flag_arg ''metrics-bind-address'' (port_address 8443)"
    "''--health-probe-bind-address=:8081'' = flag_arg ''health-probe-bind-address'' (port_address 8081)"
    "''--webhook-cert-path=/tmp/k8s-webhook-server/serving-certs'' = flag_arg ''webhook-cert-path'' ''/tmp/k8s-webhook-server/serving-certs''"
    by (simp_all add: flag_arg_def addresses)
  have table: "map_of flag_table ''metrics-bind-address'' = Some (StringVar (\<lambda>v f. f\<lparr>metricsAddr := v\<rparr>))"
    "map_of flag_table ''health-probe-bind-address'' = Some (StringVar (\<lambda>v f. f\<lparr>probeAddr := v\<rparr>))"
    "map_of flag_table ''webhook-cert-path'' = Some (StringVar (\<lambda>v f. f\<lparr>webhookCertPath := v\<rparr>))"
    by (simp_all add: flag_table_def)
  have set: "set_flag (StringVar upd) v f = Some (upd v f)" for upd v f by (simp add: set_flag_def)
  show ?thesis
    by (simp add: install_pod_def long_flag [OF table(1) set _ _ _ args(1)] leader_flag long_flag [OF table(2) set _ _ _ args(2)]
        long_flag [OF table(3) set _ _ _ args(3)] deployed_flags_def default_flags_def del: flag_Parse.simps(2))
qed

text \<open>
  The pod that users install is the one that the kustomization makes. Its command line starts the program
  with leader election, with the probes on the port that the kubelet asks, the metrics on port 8443 for
  authorized clients only, the webhooks with the certificate of the mounted secret, and both servers
  without HTTP/2, whichever other flags there are.
\<close>
theorem deployed_program:
  "webhook_patch (metrics_patch manager_pod) = install_pod \<and>
   main others (ct_args install_pod) env fails = run_manager fails env deployed_flags \<and>
   (let opts = manager_options_of deployed_flags; (path, volume) = hd (ct_mounts install_pod)
    in LeaderElection opts \<and>
       HealthProbeBindAddress opts = port_address (snd (ct_liveness install_pod)) \<and>
       HealthProbeBindAddress opts = port_address (snd (ct_readiness install_pod)) \<and>
       mo_BindAddress (Metrics opts) = port_address 8443 \<and> mo_SecureServing (Metrics opts) \<and>
       mo_FilterProvider (Metrics opts) = Some ''WithAuthenticationAndAuthorization'' \<and>
       so_CertDir (WebhookServer opts) = path \<and> map_of (pd_volumes install_pod) volume = Some ''webhook-server-cert'' \<and>
       so_CertName (WebhookServer opts) = ''tls.crt'' \<and> so_KeyName (WebhookServer opts) = ''tls.key'' \<and>
       NextProtos (apply_tls (so_TLSOpts (WebhookServer opts)) c) = [''http/1.1''] \<and>
       NextProtos (apply_tls (so_TLSOpts (Metrics opts)) c) = [''http/1.1''])"
  by (simp add: install_pod_patched main_def flags_deployed Let_def)
    (simp add: install_pod_def deployed_flags_def default_flags_def manager_options_of_def webhookServerOptions_def
      metricsServerOptions_def tlsOpts_def apply_tls_def disableHTTP2_def)

end
