(* ===== verification/Go_Memory.thy ===== *)
theory Go_Memory
  imports Api_Types
begin

text \<open>
  Go's memory, where the rest of the development reads values: blocks at addresses, slices that are
  windows of a block, pointers. It serves the two places where the code relies on what is shared and
  what is copied: the generated \<^verbatim>\<open>DeepCopy\<close> methods (\<open>Deep_Copy\<close>) and the slices that are changed in
  place (\<open>Go_Slices\<close>).

  A block holds the elements of an array of one type; a variable that a pointer leads to is a block of
  one element. The struct types with pointers, slices or maps in them have a memory layout of their own
  (\<open>Go...\<close>), whose view in a heap is the record of \<open>Api_Types\<close>; types without references have none.
\<close>

section \<open>Memory layout of the API types\<close>

type_synonym addr = nat

text \<open>The header of a slice; a nil slice is \<open>None\<close>.\<close>

record slice =
  sl_array :: addr
  sl_offset :: nat
  sl_len :: nat
  sl_cap :: nat

type_synonym go_slice = "slice option"

record TypeMeta =
  tm_Kind :: string
  tm_APIVersion :: string

record GoListMeta =
  glm_resourceVersion :: string
  glm_remainingItemCount :: "addr option"

record GoObjectMeta =
  gm_name :: string
  gm_namespace :: string
  gm_generation :: int
  gm_creationTimestamp :: instant
  gm_deletionTimestamp :: "addr option"
  gm_annotations :: "addr option"
  gm_labels :: "addr option"
  gm_finalizers :: go_slice
  gm_ownerReferences :: go_slice

record GoENIClaimStatus =
  gcs_phase :: ENIClaimPhase
  gcs_privateIP :: string
  gcs_conditions :: go_slice

record GoENIClaim =
  gc_type :: TypeMeta
  gc_meta :: GoObjectMeta
  gc_spec :: ENIClaimSpec
  gc_status :: GoENIClaimStatus

record GoENIClaimList =
  gcl_type :: TypeMeta
  gcl_meta :: GoListMeta
  gcl_items :: go_slice

record GoENIObservation =
  gob_key :: string
  gob_id :: string
  gob_availabilityZone :: string
  gob_subnetID :: string
  gob_privateIP :: string
  gob_state :: ENIState
  gob_claimRef :: "addr option"
  gob_message :: string

record GoENIPoolSpec =
  gps_region :: string
  gps_vpcID :: string
  gps_interfaces :: go_slice
  gps_exhaustionPolicy :: ExhaustionPolicy

record GoENIPoolStatus =
  gpt_observedGeneration :: int
  gpt_interfaces :: go_slice
  gpt_conditions :: go_slice

record GoENIPool =
  gp_type :: TypeMeta
  gp_meta :: GoObjectMeta
  gp_spec :: GoENIPoolSpec
  gp_status :: GoENIPoolStatus

record GoENIPoolList =
  gpl_type :: TypeMeta
  gpl_meta :: GoListMeta
  gpl_items :: go_slice

section \<open>Blocks and heaps\<close>

datatype cell =
    Unused
  | Strings "string list"
  | StringMaps "(string \<rightharpoonup> string) list"
  | Times "instant list"
  | Int64s "int list"
  | OwnerReferences "OwnerReference list"
  | Conditions "Condition list"
  | NamespacedObjectReferences "NamespacedObjectReference list"
  | ClusterObjectReferences "ClusterObjectReference list"
  | ENIReferences "ENIReference list"
  | ENIObservations "GoENIObservation list"
  | ENIClaimSpecs "ENIClaimSpec list"
  | ENIClaimStatuses "GoENIClaimStatus list"
  | ENIClaims "GoENIClaim list"
  | ENIClaimLists "GoENIClaimList list"
  | ENIPoolSpecs "GoENIPoolSpec list"
  | ENIPoolStatuses "GoENIPoolStatus list"
  | ENIPools "GoENIPool list"
  | ENIPoolLists "GoENIPoolList list"

record heap =
  h_next :: addr
  h_cells :: "addr \<Rightarrow> cell"

definition empty_heap :: heap where
  "empty_heap = \<lparr>h_next = 0, h_cells = (\<lambda>_. Unused)\<rparr>"

text \<open>The elements of a block of each type, none for a block of another type.\<close>

definition strings :: "cell \<Rightarrow> string list" where
  "strings c = (case c of Strings xs \<Rightarrow> xs | _ \<Rightarrow> [])"
definition stringMaps :: "cell \<Rightarrow> (string \<rightharpoonup> string) list" where
  "stringMaps c = (case c of StringMaps xs \<Rightarrow> xs | _ \<Rightarrow> [])"
definition times :: "cell \<Rightarrow> instant list" where
  "times c = (case c of Times xs \<Rightarrow> xs | _ \<Rightarrow> [])"
definition int64s :: "cell \<Rightarrow> int list" where
  "int64s c = (case c of Int64s xs \<Rightarrow> xs | _ \<Rightarrow> [])"
definition ownerReferences :: "cell \<Rightarrow> OwnerReference list" where
  "ownerReferences c = (case c of OwnerReferences xs \<Rightarrow> xs | _ \<Rightarrow> [])"
definition conditions :: "cell \<Rightarrow> Condition list" where
  "conditions c = (case c of Conditions xs \<Rightarrow> xs | _ \<Rightarrow> [])"
definition namespacedObjectReferences :: "cell \<Rightarrow> NamespacedObjectReference list" where
  "namespacedObjectReferences c = (case c of NamespacedObjectReferences xs \<Rightarrow> xs | _ \<Rightarrow> [])"
definition clusterObjectReferences :: "cell \<Rightarrow> ClusterObjectReference list" where
  "clusterObjectReferences c = (case c of ClusterObjectReferences xs \<Rightarrow> xs | _ \<Rightarrow> [])"
definition eniReferences :: "cell \<Rightarrow> ENIReference list" where
  "eniReferences c = (case c of ENIReferences xs \<Rightarrow> xs | _ \<Rightarrow> [])"
definition eniObservations :: "cell \<Rightarrow> GoENIObservation list" where
  "eniObservations c = (case c of ENIObservations xs \<Rightarrow> xs | _ \<Rightarrow> [])"
definition eniClaimSpecs :: "cell \<Rightarrow> ENIClaimSpec list" where
  "eniClaimSpecs c = (case c of ENIClaimSpecs xs \<Rightarrow> xs | _ \<Rightarrow> [])"
definition eniClaimStatuses :: "cell \<Rightarrow> GoENIClaimStatus list" where
  "eniClaimStatuses c = (case c of ENIClaimStatuses xs \<Rightarrow> xs | _ \<Rightarrow> [])"
definition eniClaims :: "cell \<Rightarrow> GoENIClaim list" where
  "eniClaims c = (case c of ENIClaims xs \<Rightarrow> xs | _ \<Rightarrow> [])"
definition eniClaimLists :: "cell \<Rightarrow> GoENIClaimList list" where
  "eniClaimLists c = (case c of ENIClaimLists xs \<Rightarrow> xs | _ \<Rightarrow> [])"
definition eniPoolSpecs :: "cell \<Rightarrow> GoENIPoolSpec list" where
  "eniPoolSpecs c = (case c of ENIPoolSpecs xs \<Rightarrow> xs | _ \<Rightarrow> [])"
definition eniPoolStatuses :: "cell \<Rightarrow> GoENIPoolStatus list" where
  "eniPoolStatuses c = (case c of ENIPoolStatuses xs \<Rightarrow> xs | _ \<Rightarrow> [])"
definition eniPools :: "cell \<Rightarrow> GoENIPool list" where
  "eniPools c = (case c of ENIPools xs \<Rightarrow> xs | _ \<Rightarrow> [])"
definition eniPoolLists :: "cell \<Rightarrow> GoENIPoolList list" where
  "eniPoolLists c = (case c of ENIPoolLists xs \<Rightarrow> xs | _ \<Rightarrow> [])"

lemmas block_defs =
  strings_def stringMaps_def times_def int64s_def ownerReferences_def conditions_def namespacedObjectReferences_def clusterObjectReferences_def eniReferences_def eniObservations_def eniClaimSpecs_def eniClaimStatuses_def eniClaims_def eniClaimLists_def eniPoolSpecs_def eniPoolStatuses_def eniPools_def eniPoolLists_def

definition alloc :: "cell \<Rightarrow> heap \<Rightarrow> addr \<times> heap" where
  "alloc c h = (h_next h, h\<lparr>h_next := Suc (h_next h), h_cells := (h_cells h)(h_next h := c)\<rparr>)"

definition set_cell :: "addr \<Rightarrow> cell \<Rightarrow> heap \<Rightarrow> heap" where
  "set_cell a c h = h\<lparr>h_cells := (h_cells h)(a := c)\<rparr>"

lemma set_cell_simps [simp]:
  "h_next (set_cell a c h) = h_next h" "h_cells (set_cell a c h) b = (if b = a then c else h_cells h b)"
  by (simp_all add: set_cell_def)

lemma alloc_simps [simp]:
  "fst (alloc c h) = h_next h" "h_next (snd (alloc c h)) = Suc (h_next h)"
  "h_cells (snd (alloc c h)) b = (if b = h_next h then c else h_cells h b)"
  by (simp_all add: alloc_def)

text \<open>
  \<open>same_on A\<close>: the blocks at \<open>A\<close> are what they were. \<open>grows\<close>: memory was allocated and written, but no
  block that existed before was changed.
\<close>

definition same_on :: "addr set \<Rightarrow> heap \<Rightarrow> heap \<Rightarrow> bool" where
  "same_on A h h' \<longleftrightarrow> (\<forall>a\<in>A. h_cells h' a = h_cells h a)"

definition grows :: "heap \<Rightarrow> heap \<Rightarrow> bool" where
  "grows h h' \<longleftrightarrow> h_next h \<le> h_next h' \<and> same_on {..<h_next h} h h'"

lemma same_on_cell: "same_on A h h' \<Longrightarrow> a \<in> A \<Longrightarrow> h_cells h' a = h_cells h a"
  by (simp add: same_on_def)

lemma same_on_mono: "same_on A h h' \<Longrightarrow> B \<subseteq> A \<Longrightarrow> same_on B h h'"
  by (auto simp: same_on_def)

lemma same_on_refl [simp]: "same_on A h h"
  by (simp add: same_on_def)

lemma same_on_sym: "same_on A h h' \<Longrightarrow> same_on A h' h"
  by (simp add: same_on_def)

lemma same_on_trans: "same_on A h h' \<Longrightarrow> same_on A h' h'' \<Longrightarrow> same_on A h h''"
  by (simp add: same_on_def)

lemma same_on_set_cell: "a \<notin> A \<Longrightarrow> same_on A h (set_cell a c h)"
  by (auto simp: same_on_def)

lemma grows_refl [simp]: "grows h h"
  by (simp add: grows_def)

lemma grows_trans [trans]: "grows h h' \<Longrightarrow> grows h' h'' \<Longrightarrow> grows h h''"
  by (auto simp: grows_def same_on_def)

lemma grows_next: "grows h h' \<Longrightarrow> h_next h \<le> h_next h'"
  by (simp add: grows_def)

lemma grows_same_on: "grows h h' \<Longrightarrow> A \<subseteq> {..<h_next h} \<Longrightarrow> same_on A h h'"
  by (auto simp: grows_def intro: same_on_mono)

lemma grows_alloc: "grows h (snd (alloc c h))"
  by (auto simp: grows_def same_on_def)

lemma grows_set_cell: "grows h h' \<Longrightarrow> h_next h \<le> a \<Longrightarrow> grows h (set_cell a c h')"
  by (auto simp: grows_def same_on_def)

section \<open>Slices\<close>

text \<open>
  A type of block is given by its constructor \<open>con\<close> and the elements \<open>sel\<close>. \<open>make\<close>, indexing,
  assignment to an element and \<open>append\<close> are Go's; \<open>grow\<close> is the capacity the run time chooses when an
  append does not fit, from the old one and the length needed; any function will do, as the model never
  takes less than that length.
\<close>

locale block =
  fixes con :: "'a list \<Rightarrow> cell" and sel :: "cell \<Rightarrow> 'a list"
  assumes sel_con [simp]: "sel (con xs) = xs"

definition make_slice :: "('a list \<Rightarrow> cell) \<Rightarrow> 'a \<Rightarrow> nat \<Rightarrow> heap \<Rightarrow> slice \<times> heap" where
  "make_slice con zero n h = (case alloc (con (replicate n zero)) h of
     (a, h') \<Rightarrow> (\<lparr>sl_array = a, sl_offset = 0, sl_len = n, sl_cap = n\<rparr>, h'))"

definition slice_index :: "(cell \<Rightarrow> 'a list) \<Rightarrow> slice \<Rightarrow> heap \<Rightarrow> nat \<Rightarrow> 'a" where
  "slice_index sel sl h i = sel (h_cells h (sl_array sl)) ! (sl_offset sl + i)"

definition slice_store ::
  "('a list \<Rightarrow> cell) \<Rightarrow> (cell \<Rightarrow> 'a list) \<Rightarrow> slice \<Rightarrow> nat \<Rightarrow> 'a \<Rightarrow> heap \<Rightarrow> heap" where
  "slice_store con sel sl i v h =
     set_cell (sl_array sl) (con ((sel (h_cells h (sl_array sl)))[sl_offset sl + i := v])) h"

definition slice_list :: "(cell \<Rightarrow> 'a list) \<Rightarrow> heap \<Rightarrow> go_slice \<Rightarrow> 'a list" where
  "slice_list sel h s = (case s of None \<Rightarrow> []
     | Some sl \<Rightarrow> take (sl_len sl) (drop (sl_offset sl) (sel (h_cells h (sl_array sl)))))"

definition slice_ok :: "(cell \<Rightarrow> 'a list) \<Rightarrow> heap \<Rightarrow> go_slice \<Rightarrow> bool" where
  "slice_ok sel h s \<longleftrightarrow> (case s of None \<Rightarrow> True
     | Some sl \<Rightarrow> sl_len sl \<le> sl_cap sl \<and> sl_offset sl + sl_cap sl \<le> length (sel (h_cells h (sl_array sl))))"

text \<open>\<^verbatim>\<open>values[:0]\<close>\<close>

definition slice_empty :: "go_slice \<Rightarrow> go_slice" where
  "slice_empty s = map_option (\<lambda>sl. sl\<lparr>sl_len := 0\<rparr>) s"

text \<open>\<^verbatim>\<open>append(s, vs...)\<close>: in place if the capacity suffices, in a new block otherwise.\<close>

definition append_new :: "('a list \<Rightarrow> cell) \<Rightarrow> 'a \<Rightarrow> nat \<Rightarrow> 'a list \<Rightarrow> heap \<Rightarrow> go_slice \<times> heap" where
  "append_new con zero wanted xs h =
     (let cap = max wanted (length xs)
      in case alloc (con (xs @ replicate (cap - length xs) zero)) h of
        (a, h') \<Rightarrow> (Some \<lparr>sl_array = a, sl_offset = 0, sl_len = length xs, sl_cap = cap\<rparr>, h'))"

definition append_list ::
  "('a list \<Rightarrow> cell) \<Rightarrow> (cell \<Rightarrow> 'a list) \<Rightarrow> 'a \<Rightarrow> (nat \<Rightarrow> nat \<Rightarrow> nat) \<Rightarrow> go_slice \<Rightarrow> 'a list \<Rightarrow> heap \<Rightarrow>
    go_slice \<times> heap"
where
  "append_list con sel zero grow s vs h =
     (if vs = [] then (s, h)
      else let old = slice_list sel h s; n = length old + length vs in
        case s of
          Some sl \<Rightarrow>
            if n \<le> sl_cap sl then
              (Some (sl\<lparr>sl_len := n\<rparr>),
               set_cell (sl_array sl) (con (let xs = sel (h_cells h (sl_array sl)); k = sl_offset sl
                 in take (k + sl_len sl) xs @ vs @ drop (k + n) xs)) h)
            else append_new con zero (grow (sl_cap sl) n) (old @ vs) h
        | None \<Rightarrow> append_new con zero (grow 0 n) (old @ vs) h)"


lemma slice_list_simps [simp]:
  "slice_list sel h None = []"
  "slice_list sel h (Some sl) = take (sl_len sl) (drop (sl_offset sl) (sel (h_cells h (sl_array sl))))"
  by (simp_all add: slice_list_def)

lemma slice_ok_simps [simp]:
  "slice_ok sel h None"
  "slice_ok sel h (Some sl) \<longleftrightarrow>
     sl_len sl \<le> sl_cap sl \<and> sl_offset sl + sl_cap sl \<le> length (sel (h_cells h (sl_array sl)))"
  by (simp_all add: slice_ok_def)

lemma slice_list_length: "slice_ok sel h (Some sl) \<Longrightarrow> length (slice_list sel h (Some sl)) = sl_len sl"
  by auto

lemma slice_index_nth:
  "slice_ok sel h (Some sl) \<Longrightarrow> i < sl_len sl \<Longrightarrow> slice_index sel sl h i = slice_list sel h (Some sl) ! i"
  by (simp add: slice_index_def)

lemma slice_store_next [simp]: "h_next (slice_store con sel sl i v h) = h_next h"
  by (simp add: slice_store_def)

text \<open>\<^verbatim>\<open>for _, value := range values { if p(value) { result = append(result, value) } }\<close>, over the indices.\<close>

fun filter_into :: "('a list \<Rightarrow> cell) \<Rightarrow> (cell \<Rightarrow> 'a list) \<Rightarrow> 'a \<Rightarrow> (nat \<Rightarrow> nat \<Rightarrow> nat) \<Rightarrow> ('a \<Rightarrow> bool) \<Rightarrow>
    slice \<Rightarrow> go_slice \<Rightarrow> nat list \<Rightarrow> heap \<Rightarrow> go_slice \<times> heap" where
  "filter_into con sel zero grow p values result [] h = (result, h)"
| "filter_into con sel zero grow p values result (i # is') h =
     (let value = slice_index sel values h i
      in if p value then
           (case append_list con sel zero grow result [value] h of
              (result', h') \<Rightarrow> filter_into con sel zero grow p values result' is' h')
         else filter_into con sel zero grow p values result is' h)"

lemma filter_into_append:
  "filter_into con sel zero grow p values result (is1 @ is2) h =
     (case filter_into con sel zero grow p values result is1 h of
        (result', h') \<Rightarrow> filter_into con sel zero grow p values result' is2 h')"
  by (induction is1 arbitrary: result h) (auto simp: Let_def split: prod.split)

text \<open>At most the block at \<open>a\<close> was overwritten, with a block of the same type.\<close>

definition overwrites :: "('a list \<Rightarrow> cell) \<Rightarrow> addr \<Rightarrow> heap \<Rightarrow> heap \<Rightarrow> bool" where
  "overwrites con a h h' \<longleftrightarrow> h' = h \<or> (\<exists>ys. h' = set_cell a (con ys) h)"

lemma overwrites_trans: "overwrites con a h h' \<Longrightarrow> overwrites con a h' h'' \<Longrightarrow> overwrites con a h h''"
  by (auto simp: overwrites_def set_cell_def)

lemma overwrites_next: "overwrites con a h h' \<Longrightarrow> h_next h' = h_next h"
  by (auto simp: overwrites_def)

lemma overwrites_other: "overwrites con a h h' \<Longrightarrow> b \<noteq> a \<Longrightarrow> h_cells h' b = h_cells h b"
  by (auto simp: overwrites_def)

context block
begin

text \<open>
  Filtering into a slice that starts where \<open>values\<close> starts, or in another block, never overtakes the
  reads: with enough capacity nothing is allocated, and what the slice's block has behind the kept
  elements stays there.
\<close>

lemma filter_into_correct:
  fixes p :: "'a \<Rightarrow> bool" and zero :: 'a and grow :: "nat \<Rightarrow> nat \<Rightarrow> nat"
  assumes ok: "slice_ok sel h (Some values)" "slice_ok sel h (Some r)"
    and cap: "sl_len values \<le> sl_cap r"
    and apart: "sl_array r \<noteq> sl_array values \<or> sl_offset r = sl_offset values"
    and k: "k \<le> sl_len values"
  defines "kept j \<equiv> filter p (take j (slice_list sel h (Some values)))"
  defines "run j \<equiv> filter_into con sel zero grow p values (Some (r\<lparr>sl_len := 0\<rparr>)) [0..<j] h"
  shows "fst (run k) = Some (r\<lparr>sl_len := length (kept k)\<rparr>) \<and> overwrites con (sl_array r) h (snd (run k)) \<and>
    sel (h_cells (snd (run k)) (sl_array r)) = take (sl_offset r) (sel (h_cells h (sl_array r))) @ kept k @
      drop (sl_offset r + length (kept k)) (sel (h_cells h (sl_array r)))"
  using k
proof (induction k)
  case 0
  then show ?case by (simp add: run_def kept_def overwrites_def)
next
  case (Suc k)
  let ?xs = "slice_list sel h (Some values)" and ?b = "sel (h_cells h (sl_array r))"
  obtain h1 where h1: "run k = (Some (r\<lparr>sl_len := length (kept k)\<rparr>), h1)" "overwrites con (sl_array r) h h1"
    "sel (h_cells h1 (sl_array r)) = take (sl_offset r) ?b @ kept k @ drop (sl_offset r + length (kept k)) ?b"
    using Suc by (cases "run k") auto
  have len: "length ?xs = sl_len values" "sl_offset r + sl_cap r \<le> length ?b" using ok by auto
  have short: "length (kept k) \<le> k" unfolding kept_def using length_filter_le [of p "take k ?xs"] by simp
  have read: "slice_index sel values h1 k = ?xs ! k"
  proof (cases "sl_array r = sl_array values")
    case True
    then show ?thesis using h1(3) apart short ok Suc.prems
      by (auto simp: slice_index_def nth_append)
  next
    case False
    then show ?thesis using overwrites_other [OF h1(2)] ok Suc.prems by (auto simp: slice_index_def)
  qed
  have kept: "kept (Suc k) = kept k @ (if p (?xs ! k) then [?xs ! k] else [])"
    using Suc.prems len(1) by (simp add: kept_def take_Suc_conv_app_nth del: slice_list_simps)
  have run: "run (Suc k) = filter_into con sel zero grow p values (Some (r\<lparr>sl_len := length (kept k)\<rparr>)) [k] h1"
    using h1(1) by (simp add: run_def filter_into_append)
  show ?case
  proof (cases "p (?xs ! k)")
    case True
    have "length (slice_list sel h1 (Some (r\<lparr>sl_len := length (kept k)\<rparr>))) = length (kept k)"
      using h1(3) len(2) by simp
    then have "run (Suc k) = (Some (r\<lparr>sl_len := length (kept (Suc k))\<rparr>),
        set_cell (sl_array r) (con (take (sl_offset r) ?b @ kept (Suc k) @ drop (sl_offset r + length (kept (Suc k))) ?b)) h1)"
      using True short cap Suc.prems len(2) unfolding run
      by (auto simp: read append_list_def Let_def kept h1(3) simp del: slice_list_simps)
    then show ?thesis using overwrites_trans [OF h1(2)] by (auto simp: overwrites_def)
  next
    case False
    then show ?thesis using h1 by (simp add: run read kept Let_def)
  qed
qed

lemma append_new_correct:
  "append_new con zero wanted xs h = (s, h') \<Longrightarrow>
    grows h h' \<and> slice_list sel h' s = xs \<and> slice_ok sel h' s \<and>
    (\<exists>sl. s = Some sl \<and> sl_array sl = h_next h \<and> h_next h < h_next h' \<and> wanted \<le> sl_cap sl)"
  by (auto simp: append_new_def alloc_def Let_def grows_def same_on_def)

text \<open>An append never shortens or changes what the slice showed; in place it needs no new memory.\<close>

lemma append_correct:
  assumes "append_list con sel zero grow s vs h = (s', h')" "slice_ok sel h s"
  shows "slice_list sel h' s' = slice_list sel h s @ vs" "slice_ok sel h' s'" "h_next h \<le> h_next h'"
  using assms append_new_correct [of zero _ _ h]
  by (auto simp: append_list_def Let_def grows_def drop_take split: option.splits if_splits)

end

end
