(* ===== verification/Deep_Copy.thy ===== *)
theory Deep_Copy
  imports Go_Memory
begin

text \<open>
  The generated deep copies (\<^verbatim>\<open>api/v1alpha1/zz_generated.deepcopy.go\<close>). Each \<open>DeepCopyInto_T\<close> takes the
  struct \<^verbatim>\<open>*in\<close> and the heap and returns the struct that ends up in \<^verbatim>\<open>*out\<close> and the heap after it;
  \<open>DeepCopy_T\<close> and \<open>DeepCopyObject_T\<close> work on pointers. The copies of \<^verbatim>\<open>ObjectMeta\<close>, \<^verbatim>\<open>ListMeta\<close> and
  \<^verbatim>\<open>Condition\<close> are apimachinery's and parameters here.

  The contract of a copy is the locale \<open>deep_copy\<close>: the copy shows the value of the original, uses only
  blocks that did not exist before, and leaves every existing block alone. Copying the elements of a
  slice and copying behind a pointer keep the contract of the copy they use (\<open>copy_block\<close>), so each
  generated function keeps it (\<open>apimachinery\<close>).
\<close>

section \<open>The contract\<close>

text \<open>
  \<open>view h v\<close> is the value that \<open>v\<close> shows in \<open>h\<close>, \<open>fp h v\<close> the blocks it leads to, \<open>ok h v\<close> that its
  slices and pointers fit the blocks they lead to.
\<close>

definition live :: "(heap \<Rightarrow> 'a \<Rightarrow> bool) \<Rightarrow> (heap \<Rightarrow> 'a \<Rightarrow> addr set) \<Rightarrow> heap \<Rightarrow> 'a \<Rightarrow> bool" where
  "live ok fp h v \<longleftrightarrow> ok h v \<and> fp h v \<subseteq> {..<h_next h}"

locale deep_copy =
  fixes copy :: "'a \<Rightarrow> heap \<Rightarrow> 'a \<times> heap" and view :: "heap \<Rightarrow> 'a \<Rightarrow> 'b"
    and fp :: "heap \<Rightarrow> 'a \<Rightarrow> addr set" and ok :: "heap \<Rightarrow> 'a \<Rightarrow> bool"
  assumes stable: "ok h v \<Longrightarrow> same_on (fp h v) h h' \<Longrightarrow> ok h' v \<and> view h' v = view h v \<and> fp h' v = fp h v"
    and copies: "live ok fp h v \<Longrightarrow> copy v h = (v', h') \<Longrightarrow>
          grows h h' \<and> live ok fp h' v' \<and> view h' v' = view h v \<and> fp h' v' \<inter> {..<h_next h} = {}"
begin

text \<open>What is allocated stays as it is when memory only grows.\<close>

lemma live_grows:
  assumes "live ok fp h v" "grows h h'"
  shows "live ok fp h' v" "view h' v = view h v" "fp h' v = fp h v"
proof -
  have "same_on (fp h v) h h'" using assms by (simp add: live_def grows_same_on)
  from stable [OF _ this] assms(1) have "ok h' v \<and> view h' v = view h v \<and> fp h' v = fp h v"
    by (simp add: live_def)
  with assms show "live ok fp h' v" "view h' v = view h v" "fp h' v = fp h v"
    by (auto simp: live_def grows_def intro: less_le_trans)
qed

lemma live_set_cell:
  assumes "live ok fp h v" "a \<notin> fp h v"
  shows "live ok fp (set_cell a c h) v" "view (set_cell a c h) v = view h v" "fp (set_cell a c h) v = fp h v"
  using stable [of h v "set_cell a c h"] assms same_on_set_cell [OF assms(2)] by (auto simp: live_def)

text \<open>Neither of the original and the copy sees what is later written to the other.\<close>

lemma independent:
  assumes "live ok fp h v" "copy v h = (v', h')"
  shows "fp h' v \<inter> fp h' v' = {}"
    and "same_on (fp h' v) h' k \<Longrightarrow> view k v = view h v"
    and "same_on (fp h' v') h' k \<Longrightarrow> view k v' = view h v"
proof -
  have c: "grows h h'" "live ok fp h' v'" "view h' v' = view h v" "fp h' v' \<inter> {..<h_next h} = {}"
    using copies [OF assms] by simp_all
  note v = live_grows [OF assms(1) c(1)]
  show "fp h' v \<inter> fp h' v' = {}" using c(4) v(3) assms(1) by (auto simp: live_def)
  show "view k v = view h v" if "same_on (fp h' v) h' k" using stable [OF _ that] v by (simp add: live_def)
  show "view k v' = view h v" if "same_on (fp h' v') h' k" using stable [OF _ that] c by (simp add: live_def)
qed

lemma contract:
  assumes "live ok fp h v" "copy v h = (v', h')"
  shows "view h' v' = view h v \<and> same_on {..<h_next h} h h' \<and> fp h' v' \<inter> {..<h_next h} = {} \<and>
    (\<forall>k. same_on (- fp h' v') h' k \<longrightarrow> view k v = view h v) \<and>
    (\<forall>k. same_on (- fp h' v) h' k \<longrightarrow> view k v' = view h v)"
proof -
  note i = independent [OF assms] and c = copies [OF assms]
  have "fp h' v \<subseteq> - fp h' v'" "fp h' v' \<subseteq> - fp h' v" using i(1) by auto
  with i(2,3) show ?thesis using c by (auto simp: grows_def intro: same_on_mono)
qed

end

section \<open>Copying the elements of a slice\<close>

text \<open>\<^verbatim>\<open>for i := range *in { (*in)[i].DeepCopyInto(&(*out)[i]) }\<close>\<close>

fun copy_elements :: "('a list \<Rightarrow> cell) \<Rightarrow> (cell \<Rightarrow> 'a list) \<Rightarrow> ('a \<Rightarrow> heap \<Rightarrow> 'a \<times> heap) \<Rightarrow> slice \<Rightarrow> slice \<Rightarrow>
    nat list \<Rightarrow> heap \<Rightarrow> heap" where
  "copy_elements con sel copy src dst [] h = h"
| "copy_elements con sel copy src dst (i # is') h =
     (case copy (slice_index sel src h i) h of
        (v, h') \<Rightarrow> copy_elements con sel copy src dst is' (slice_store con sel dst i v h'))"

lemma copy_elements_append:
  "copy_elements con sel copy src dst (is1 @ is2) h =
     copy_elements con sel copy src dst is2 (copy_elements con sel copy src dst is1 h)"
  by (induction is1 arbitrary: h) (auto split: prod.splits)

text \<open>The block that the generated code has for a slice: a nil slice stays nil.\<close>

definition deep_copy_slice :: "('a list \<Rightarrow> cell) \<Rightarrow> (cell \<Rightarrow> 'a list) \<Rightarrow> 'a \<Rightarrow> ('a \<Rightarrow> heap \<Rightarrow> 'a \<times> heap) \<Rightarrow>
    go_slice \<Rightarrow> heap \<Rightarrow> go_slice \<times> heap" where
  "deep_copy_slice con sel zero copy s h = (case s of
     None \<Rightarrow> (None, h)
   | Some src \<Rightarrow> (case make_slice con zero (sl_len src) h of
       (dst, h') \<Rightarrow> (Some dst, copy_elements con sel copy src dst [0..<sl_len src] h')))"

text \<open>\<^verbatim>\<open>out := new(T); in.DeepCopyInto(out)\<close>, for a nil pointer nil.\<close>

definition deep_copy_ptr :: "('a list \<Rightarrow> cell) \<Rightarrow> (cell \<Rightarrow> 'a list) \<Rightarrow> 'a \<Rightarrow> ('a \<Rightarrow> heap \<Rightarrow> 'a \<times> heap) \<Rightarrow>
    addr option \<Rightarrow> heap \<Rightarrow> addr option \<times> heap" where
  "deep_copy_ptr con sel zero copy p h = (case p of
     None \<Rightarrow> (None, h)
   | Some a \<Rightarrow> (case alloc (con [zero]) h of
       (b, h1) \<Rightarrow> (case copy (sel (h_cells h1 a) ! 0) h1 of
         (v, h2) \<Rightarrow> (Some b, set_cell b (con [v]) h2))))"

definition view_slice where
  "view_slice sel view h s = map (view h) (slice_list sel h s)"

definition fp_slice where
  "fp_slice sel fp h s = (case s of None \<Rightarrow> {}
     | Some sl \<Rightarrow> insert (sl_array sl) (\<Union>v\<in>set (slice_list sel h s). fp h v))"

definition ok_slice where
  "ok_slice sel ok h s \<longleftrightarrow> slice_ok sel h s \<and> (\<forall>v\<in>set (slice_list sel h s). ok h v)"

definition view_ptr where
  "view_ptr sel view h p = map_option (\<lambda>a. view h (sel (h_cells h a) ! 0)) p"

definition fp_ptr where
  "fp_ptr sel fp h p = (case p of None \<Rightarrow> {} | Some a \<Rightarrow> insert a (fp h (sel (h_cells h a) ! 0)))"

definition ok_ptr where
  "ok_ptr sel ok h p \<longleftrightarrow> (case p of None \<Rightarrow> True
     | Some a \<Rightarrow> length (sel (h_cells h a)) = 1 \<and> ok h (sel (h_cells h a) ! 0))"

locale copy_block = deep_copy copy view fp ok + block con sel
  for copy :: "'a \<Rightarrow> heap \<Rightarrow> 'a \<times> heap" and view :: "heap \<Rightarrow> 'a \<Rightarrow> 'b"
    and fp :: "heap \<Rightarrow> 'a \<Rightarrow> addr set" and ok :: "heap \<Rightarrow> 'a \<Rightarrow> bool"
    and con :: "'a list \<Rightarrow> cell" and sel :: "cell \<Rightarrow> 'a list" +
  fixes zero :: 'a
begin

lemma elements_live:
  assumes "live (ok_slice sel ok) (fp_slice sel fp) h (Some src)" "i < sl_len src"
  shows "live ok fp h (slice_list sel h (Some src) ! i)"
proof -
  have "slice_list sel h (Some src) ! i \<in> set (slice_list sel h (Some src))"
    using assms by (intro nth_mem) (auto simp: live_def ok_slice_def)
  with assms(1) show ?thesis by (auto simp: live_def ok_slice_def fp_slice_def)
qed

text \<open>After \<open>k\<close> rounds the first \<open>k\<close> elements of the new block are copies, each with its own blocks.\<close>

lemma copy_elements_correct:
  assumes src: "live (ok_slice sel ok) (fp_slice sel fp) h (Some src)"
    and dst: "make_slice con zero (sl_len src) h = (dst, h1)"
    and k: "k \<le> sl_len src"
  defines "xs \<equiv> slice_list sel h (Some src)"
  defines "t j \<equiv> copy_elements con sel copy src dst [0..<j] h1"
  shows "grows h (t k) \<and> h_next h < h_next (t k) \<and>
    (\<exists>ys. h_cells (t k) (h_next h) = con ys \<and> length ys = sl_len src \<and>
      (\<forall>j<k. live ok fp (t k) (ys ! j) \<and> view (t k) (ys ! j) = view h (xs ! j) \<and>
        fp (t k) (ys ! j) \<inter> {..h_next h} = {}))"
  using k
proof (induction k)
  case 0
  then show ?case using dst by (auto simp: t_def make_slice_def alloc_def grows_def same_on_def)
next
  case (Suc k)
  then obtain ys where IH: "grows h (t k)" "h_next h < h_next (t k)" "h_cells (t k) (h_next h) = con ys"
    "length ys = sl_len src"
    "\<And>j. j < k \<Longrightarrow> live ok fp (t k) (ys ! j) \<and> view (t k) (ys ! j) = view h (xs ! j) \<and>
        fp (t k) (ys ! j) \<inter> {..h_next h} = {}"
    by auto
  have "h_cells (t k) (sl_array src) = h_cells h (sl_array src)"
    using IH(1) src by (auto simp: grows_def same_on_def live_def fp_slice_def)
  then have read: "slice_index sel src (t k) k = xs ! k"
    using src Suc.prems by (simp add: slice_index_def xs_def live_def ok_slice_def)
  have live_k: "live ok fp h (xs ! k)" unfolding xs_def by (rule elements_live [OF src]) (use Suc.prems in simp)
  obtain v h2 where c: "copy (xs ! k) (t k) = (v, h2)" by force
  note before = live_grows [OF live_k IH(1)]
  from copies [OF before(1) c] before have cp: "grows (t k) h2" "live ok fp h2 v"
    "view h2 v = view h (xs ! k)" "fp h2 v \<inter> {..<h_next (t k)} = {}" by simp_all
  have step: "t (Suc k) = set_cell (h_next h) (con (ys[k := v])) h2"
  proof -
    have "t (Suc k) = slice_store con sel dst k v h2"
      using c read by (simp add: t_def copy_elements_append)
    moreover have "h_cells h2 (h_next h) = con ys" using cp(1) IH(2,3) by (auto simp: grows_def same_on_def)
    moreover have "sl_array dst = h_next h" "sl_offset dst = 0" using dst by (auto simp: make_slice_def alloc_def)
    ultimately show ?thesis by (simp add: slice_store_def)
  qed
  have old: "live ok fp (t (Suc k)) (ys ! j) \<and> view (t (Suc k)) (ys ! j) = view h (xs ! j) \<and>
      fp (t (Suc k)) (ys ! j) \<inter> {..h_next h} = {}" if "j < k" for j
  proof -
    from IH(5) [OF that] have j: "live ok fp (t k) (ys ! j)" "view (t k) (ys ! j) = view h (xs ! j)"
      "fp (t k) (ys ! j) \<inter> {..h_next h} = {}" by simp_all
    note g = live_grows [OF j(1) cp(1)]
    have "h_next h \<notin> fp h2 (ys ! j)" using j(3) g(3) by auto
    from live_set_cell [OF g(1) this] g j show ?thesis by (simp add: step)
  qed
  have new: "live ok fp (t (Suc k)) v \<and> view (t (Suc k)) v = view h (xs ! k) \<and> fp (t (Suc k)) v \<inter> {..h_next h} = {}"
  proof -
    have fresh: "fp h2 v \<inter> {..h_next h} = {}" using cp(4) IH(2) by (auto simp: disjoint_iff)
    then have "h_next h \<notin> fp h2 v" by auto
    from live_set_cell [OF cp(2) this] cp(3) fresh show ?thesis by (simp add: step)
  qed
  have "grows h (t (Suc k))" unfolding step by (rule grows_set_cell [OF grows_trans [OF IH(1) cp(1)]]) simp
  moreover have "h_next h < h_next (t (Suc k))" using IH(2) cp(1) by (simp add: step grows_def)
  moreover have "\<forall>j<Suc k. live ok fp (t (Suc k)) (ys[k := v] ! j) \<and> view (t (Suc k)) (ys[k := v] ! j) = view h (xs ! j) \<and>
      fp (t (Suc k)) (ys[k := v] ! j) \<inter> {..h_next h} = {}"
    using old new IH(4) Suc.prems by (auto simp: less_Suc_eq)
  moreover have "h_cells (t (Suc k)) (h_next h) = con (ys[k := v])" by (simp add: step)
  ultimately show ?case using IH(4) by (intro conjI exI [of _ "ys[k := v]"]) simp_all
qed

lemma deep_copy_slice_copies:
  assumes live: "live (ok_slice sel ok) (fp_slice sel fp) h s" and run: "deep_copy_slice con sel zero copy s h = (s', h')"
  shows "grows h h' \<and> live (ok_slice sel ok) (fp_slice sel fp) h' s' \<and>
    view_slice sel view h' s' = view_slice sel view h s \<and> fp_slice sel fp h' s' \<inter> {..<h_next h} = {}"
proof (cases s)
  case None
  with run show ?thesis by (simp add: deep_copy_slice_def live_def ok_slice_def fp_slice_def view_slice_def)
next
  case (Some src)
  obtain dst h1 where dst: "make_slice con zero (sl_len src) h = (dst, h1)" by force
  then have d: "dst = \<lparr>sl_array = h_next h, sl_offset = 0, sl_len = sl_len src, sl_cap = sl_len src\<rparr>"
    by (auto simp: make_slice_def alloc_def)
  define xs where "xs = slice_list sel h s"
  have len: "length xs = sl_len src" using live Some by (auto simp: xs_def live_def ok_slice_def)
  from copy_elements_correct [OF live [unfolded Some] dst order_refl] run dst Some
  obtain ys where r: "s' = Some dst" "grows h h'" "h_next h < h_next h'" "h_cells h' (h_next h) = con ys"
    "length ys = sl_len src"
    and el: "\<And>j. j < sl_len src \<Longrightarrow> live ok fp h' (ys ! j) \<and> view h' (ys ! j) = view h (xs ! j) \<and>
        fp h' (ys ! j) \<inter> {..h_next h} = {}"
    by (auto simp: deep_copy_slice_def xs_def)
  have list: "slice_list sel h' s' = ys" using r d by simp
  have each: "live ok fp h' y" "fp h' y \<inter> {..h_next h} = {}" if "y \<in> set ys" for y
    using that el r(5) by (auto simp: in_set_conv_nth)
  have "map (view h') ys = map (view h) xs" using el r(5) len by (intro nth_equalityI) auto
  moreover have "live (ok_slice sel ok) (fp_slice sel fp) h' s'" "fp_slice sel fp h' s' \<inter> {..<h_next h} = {}"
    using r d list each by (fastforce simp: live_def ok_slice_def fp_slice_def)+
  ultimately show ?thesis using r(2) list by (simp add: view_slice_def xs_def)
qed

lemma slice_stable:
  assumes "ok_slice sel ok h s" "same_on (fp_slice sel fp h s) h h'"
  shows "ok_slice sel ok h' s \<and> view_slice sel view h' s = view_slice sel view h s \<and>
    fp_slice sel fp h' s = fp_slice sel fp h s"
proof (cases s)
  case (Some sl)
  have cell: "h_cells h' (sl_array sl) = h_cells h (sl_array sl)"
    using assms(2) Some by (simp add: same_on_def fp_slice_def)
  have el: "ok h' v \<and> view h' v = view h v \<and> fp h' v = fp h v" if "v \<in> set (slice_list sel h s)" for v
  proof (rule stable)
    show "ok h v" using assms(1) that by (simp add: ok_slice_def)
    show "same_on (fp h v) h h'" using assms(2) by (rule same_on_mono) (use that Some in \<open>auto simp: fp_slice_def\<close>)
  qed
  have "slice_list sel h' s = slice_list sel h s" using Some cell by simp
  moreover have "slice_ok sel h' s" using assms(1) Some cell by (simp add: ok_slice_def)
  ultimately show ?thesis using el Some by (simp add: ok_slice_def view_slice_def fp_slice_def)
qed (simp add: ok_slice_def view_slice_def fp_slice_def)

lemma deep_copy_ptr_copies:
  assumes live: "live (ok_ptr sel ok) (fp_ptr sel fp) h p" and run: "deep_copy_ptr con sel zero copy p h = (p', h')"
  shows "grows h h' \<and> live (ok_ptr sel ok) (fp_ptr sel fp) h' p' \<and> view_ptr sel view h' p' = view_ptr sel view h p \<and>
    fp_ptr sel fp h' p' \<inter> {..<h_next h} = {}"
proof (cases p)
  case None
  with run show ?thesis by (simp add: deep_copy_ptr_def live_def ok_ptr_def fp_ptr_def view_ptr_def)
next
  case (Some a)
  define h1 where "h1 = snd (alloc (con [zero]) h)"
  let ?v = "sel (h_cells h a) ! 0"
  have h1: "alloc (con [zero]) h = (h_next h, h1)" "grows h h1" "h_next h1 = Suc (h_next h)" "h_cells h1 a = h_cells h a"
    using live Some grows_alloc [of h "con [zero]"]
    by (auto simp: h1_def live_def fp_ptr_def alloc_def)
  obtain v h2 where c: "copy ?v h1 = (v, h2)" by force
  have "live ok fp h ?v" using live Some by (auto simp: live_def ok_ptr_def fp_ptr_def)
  note before = live_grows [OF this h1(2)]
  from copies [OF before(1) c] before have cp: "grows h1 h2" "live ok fp h2 v" "view h2 v = view h ?v"
    "fp h2 v \<inter> {..<Suc (h_next h)} = {}" by (simp_all add: h1)
  then have "h_next h \<notin> fp h2 v" by auto
  note after = live_set_cell [OF cp(2) this, of "con [v]"]
  have r: "p' = Some (h_next h)" "h' = set_cell (h_next h) (con [v]) h2"
    using run Some h1 c by (simp_all add: deep_copy_ptr_def)
  have "grows h h'" unfolding r by (rule grows_set_cell [OF grows_trans [OF h1(2) cp(1)]]) simp
  moreover have "h_next h < h_next h'" using cp(1) h1(3) by (simp add: r grows_def)
  ultimately show ?thesis using after cp r Some
    by (auto simp: live_def ok_ptr_def fp_ptr_def view_ptr_def)
qed

lemma ptr_stable:
  assumes "ok_ptr sel ok h p" "same_on (fp_ptr sel fp h p) h h'"
  shows "ok_ptr sel ok h' p \<and> view_ptr sel view h' p = view_ptr sel view h p \<and> fp_ptr sel fp h' p = fp_ptr sel fp h p"
proof (cases p)
  case (Some a)
  let ?v = "sel (h_cells h a) ! 0"
  have "h_cells h' a = h_cells h a" using assms(2) Some by (simp add: same_on_def fp_ptr_def)
  moreover have "same_on (fp h ?v) h h'" using assms(2) by (rule same_on_mono) (use Some in \<open>auto simp: fp_ptr_def\<close>)
  ultimately show ?thesis using assms(1) Some stable [of h ?v h'] by (simp add: ok_ptr_def view_ptr_def fp_ptr_def)
qed (simp add: ok_ptr_def view_ptr_def fp_ptr_def)

end

section \<open>The built-in \<^verbatim>\<open>copy\<close>\<close>

text \<open>\<^verbatim>\<open>copy(dst, src)\<close> moves as many elements as both slices have.\<close>

definition builtin_copy :: "('a list \<Rightarrow> cell) \<Rightarrow> (cell \<Rightarrow> 'a list) \<Rightarrow> slice \<Rightarrow> slice \<Rightarrow> heap \<Rightarrow> heap" where
  "builtin_copy con sel dst src h =
     (let n = min (sl_len dst) (sl_len src); xs = sel (h_cells h (sl_array dst))
      in set_cell (sl_array dst) (con (take (sl_offset dst) xs @ take n (slice_list sel h (Some src)) @
           drop (sl_offset dst + n) xs)) h)"

text \<open>\<^verbatim>\<open>*out = make([]T, len(*in)); copy( *out, *in)\<close>\<close>

definition clone_slice :: "('a list \<Rightarrow> cell) \<Rightarrow> (cell \<Rightarrow> 'a list) \<Rightarrow> 'a \<Rightarrow> go_slice \<Rightarrow> heap \<Rightarrow> go_slice \<times> heap" where
  "clone_slice con sel zero s h = (case s of
     None \<Rightarrow> (None, h)
   | Some src \<Rightarrow> (case make_slice con zero (sl_len src) h of
       (dst, h') \<Rightarrow> (Some dst, builtin_copy con sel dst src h')))"

text \<open>Elements without references are values: nothing is behind them.\<close>

abbreviation (input) "plain_view \<equiv> \<lambda>(_::heap) v. v"
abbreviation (input) "plain_fp \<equiv> \<lambda>(_::heap) _. {}"
abbreviation (input) "plain_ok \<equiv> \<lambda>(_::heap) _. True"

context block
begin

lemma clone_contract:
  "deep_copy (clone_slice con sel zero) (view_slice sel plain_view) (fp_slice sel plain_fp) (ok_slice sel plain_ok)"
proof (rule deep_copy.intro)
  fix h h' :: heap and s :: go_slice
  assume "ok_slice sel plain_ok h s" "same_on (fp_slice sel plain_fp h s) h h'"
  then show "ok_slice sel plain_ok h' s \<and> view_slice sel plain_view h' s = view_slice sel plain_view h s \<and>
      fp_slice sel plain_fp h' s = fp_slice sel plain_fp h s"
    by (cases s) (auto simp: ok_slice_def view_slice_def fp_slice_def same_on_def)
next
  fix h h' :: heap and s s' :: go_slice
  assume "live (ok_slice sel plain_ok) (fp_slice sel plain_fp) h s" "clone_slice con sel zero s h = (s', h')"
  then show "grows h h' \<and> live (ok_slice sel plain_ok) (fp_slice sel plain_fp) h' s' \<and>
      view_slice sel plain_view h' s' = view_slice sel plain_view h s \<and> fp_slice sel plain_fp h' s' \<inter> {..<h_next h} = {}"
    by (cases s)
      (auto simp: live_def ok_slice_def view_slice_def fp_slice_def clone_slice_def builtin_copy_def make_slice_def
        alloc_def grows_def same_on_def Let_def)
qed

end

text \<open>Copying two parts one after the other, and copying the parts of a struct.\<close>

lemma same_on_Un: "same_on (A \<union> B) h h' \<longleftrightarrow> same_on A h h' \<and> same_on B h h'"
  by (auto simp: same_on_def)

lemma copy_pair:
  assumes 1: "deep_copy c1 v1 f1 o1" and 2: "deep_copy c2 v2 f2 o2"
  shows "deep_copy (\<lambda>p h. case c1 (fst p) h of (a, h1) \<Rightarrow> case c2 (snd p) h1 of (b, h2) \<Rightarrow> ((a, b), h2))
    (\<lambda>h p. (v1 h (fst p), v2 h (snd p))) (\<lambda>h p. f1 h (fst p) \<union> f2 h (snd p)) (\<lambda>h p. o1 h (fst p) \<and> o2 h (snd p))"
proof (rule deep_copy.intro)
  fix h h' p
  assume "o1 h (fst p) \<and> o2 h (snd p)" "same_on (f1 h (fst p) \<union> f2 h (snd p)) h h'"
  then show "(o1 h' (fst p) \<and> o2 h' (snd p)) \<and> (v1 h' (fst p), v2 h' (snd p)) = (v1 h (fst p), v2 h (snd p)) \<and>
      f1 h' (fst p) \<union> f2 h' (snd p) = f1 h (fst p) \<union> f2 h (snd p)"
    using deep_copy.stable [OF 1, of h "fst p" h'] deep_copy.stable [OF 2, of h "snd p" h'] by (simp add: same_on_Un)
next
  fix h h' p p'
  assume live: "live (\<lambda>h p. o1 h (fst p) \<and> o2 h (snd p)) (\<lambda>h p. f1 h (fst p) \<union> f2 h (snd p)) h p"
    and run: "(case c1 (fst p) h of (a, h1) \<Rightarrow> case c2 (snd p) h1 of (b, h2) \<Rightarrow> ((a, b), h2)) = (p', h')"
  obtain a h1 b where c: "c1 (fst p) h = (a, h1)" "c2 (snd p) h1 = (b, h')" "p' = (a, b)"
    using run by (auto split: prod.splits)
  have l: "live o1 f1 h (fst p)" "live o2 f2 h (snd p)" using live by (auto simp: live_def)
  note a = deep_copy.copies [OF 1 l(1) c(1)]
  note b0 = deep_copy.live_grows [OF 2 l(2) conjunct1 [OF a]]
  note b = deep_copy.copies [OF 2 b0(1) c(2)]
  have a1: "live o1 f1 h1 a" "grows h1 h'" using a b by simp_all
  note a2 = deep_copy.live_grows [OF 1 this]
  have le: "h_next h \<le> h_next h1" using a by (simp add: grows_def)
  have f2: "f2 h' b \<inter> {..<h_next h1} = {}" using b by simp
  show "grows h h' \<and> live (\<lambda>h p. o1 h (fst p) \<and> o2 h (snd p)) (\<lambda>h p. f1 h (fst p) \<union> f2 h (snd p)) h' p' \<and>
      (v1 h' (fst p'), v2 h' (snd p')) = (v1 h (fst p), v2 h (snd p)) \<and>
      (f1 h' (fst p') \<union> f2 h' (snd p')) \<inter> {..<h_next h} = {}"
  proof (intro conjI)
    show "grows h h'" using a a1(2) by (blast intro: grows_trans)
    show "live (\<lambda>h p. o1 h (fst p) \<and> o2 h (snd p)) (\<lambda>h p. f1 h (fst p) \<union> f2 h (snd p)) h' p'"
      using a2(1) b by (simp add: live_def c(3))
    show "(v1 h' (fst p'), v2 h' (snd p')) = (v1 h (fst p), v2 h (snd p))"
      using a2(2) a b b0(2) by (simp add: c(3))
    have "f1 h' a \<inter> {..<h_next h} = {}" using a2(3) a by simp
    then show "(f1 h' (fst p') \<union> f2 h' (snd p')) \<inter> {..<h_next h} = {}"
      using f2 le by (auto simp: c(3) disjoint_iff)
  qed
qed

lemma copy_struct:
  assumes "deep_copy c v f ok" and "\<And>s p. parts (update s p) = p" and "\<And>s p. build (update s p) = build s"
  shows "deep_copy (\<lambda>s h. case c (parts s) h of (p, h') \<Rightarrow> (update s p, h')) (\<lambda>h s. build s (v h (parts s)))
    (\<lambda>h s. f h (parts s)) (\<lambda>h s. ok h (parts s))"
proof (rule deep_copy.intro)
  fix h h' s
  assume "ok h (parts s)" "same_on (f h (parts s)) h h'"
  then show "ok h' (parts s) \<and> build s (v h' (parts s)) = build s (v h (parts s)) \<and> f h' (parts s) = f h (parts s)"
    using deep_copy.stable [OF assms(1), of h "parts s" h'] by simp
next
  fix h h' s s'
  assume live: "live (\<lambda>h s. ok h (parts s)) (\<lambda>h s. f h (parts s)) h s"
    and run: "(case c (parts s) h of (p, h') \<Rightarrow> (update s p, h')) = (s', h')"
  obtain p where p: "c (parts s) h = (p, h')" "s' = update s p" using run by (auto split: prod.splits)
  have "live ok f h (parts s)" using live by (simp add: live_def)
  note c = deep_copy.copies [OF assms(1) this p(1)]
  have s': "parts s' = p" "build s' = build s" by (simp_all only: p(2) assms(2,3))
  from c show "grows h h' \<and> live (\<lambda>h s. ok h (parts s)) (\<lambda>h s. f h (parts s)) h' s' \<and>
      build s' (v h' (parts s')) = build s (v h (parts s)) \<and> f h' (parts s') \<inter> {..<h_next h} = {}"
    unfolding live_def s' by simp
qed

lemma copy_structI:
  assumes "deep_copy c v f ok" and "\<And>s p. parts (update s p) = p" and "\<And>s p. build (update s p) = build s"
    and "\<And>s h. copy s h = (case c (parts s) h of (p, h') \<Rightarrow> (update s p, h'))"
    and "\<And>h s. view h s = build s (v h (parts s))"
    and "\<And>h s. fp h s = f h (parts s)" and "\<And>h s. K h s = ok h (parts s)"
  shows "deep_copy copy view fp K"
proof -
  have "copy = (\<lambda>s h. case c (parts s) h of (p, h') \<Rightarrow> (update s p, h'))" "view = (\<lambda>h s. build s (v h (parts s)))"
    "fp = (\<lambda>h s. f h (parts s))" "K = (\<lambda>h s. ok h (parts s))"
    by (simp_all add: fun_eq_iff assms(4-7))
  then show ?thesis using copy_struct [of c v f ok parts update build, OF assms(1-3)] by simp
qed

section \<open>Contracts of the parts\<close>

sublocale copy_block \<subseteq> slice: deep_copy "deep_copy_slice con sel zero copy" "view_slice sel view" "fp_slice sel fp" "ok_slice sel ok"
  by (rule deep_copy.intro) (rule slice_stable deep_copy_slice_copies, assumption+)+

sublocale copy_block \<subseteq> ptr: deep_copy "deep_copy_ptr con sel zero copy" "view_ptr sel view" "fp_ptr sel fp" "ok_ptr sel ok"
  by (rule deep_copy.intro) (rule ptr_stable deep_copy_ptr_copies, assumption+)+

end
