(* ===== verification/Generated_Copies.thy ===== *)
theory Generated_Copies
  imports Deep_Copy
begin

text \<open>
  The functions of \<^verbatim>\<open>api/v1alpha1/zz_generated.deepcopy.go\<close>, one after the other, and the proof that each
  keeps the contract of \<open>Deep_Copy\<close>.
\<close>

section \<open>Zero values\<close>

text \<open>\<open>0\<close> is Go's zero value of a struct type, the content of fresh memory.\<close>

instantiation unit :: zero
begin
definition zero_unit :: unit where "zero_unit = ()"
instance ..
end

instantiation TypeMeta_ext :: (zero) zero
begin
definition zero_TypeMeta_ext :: "'a TypeMeta_scheme" where
  "zero_TypeMeta_ext = \<lparr>tm_Kind = '''', tm_APIVersion = '''', \<dots> = 0\<rparr>"
instance ..
end

instantiation ClusterObjectReference_ext :: (zero) zero
begin
definition zero_ClusterObjectReference_ext :: "'a ClusterObjectReference_scheme" where
  "zero_ClusterObjectReference_ext = \<lparr>cref_name = '''', \<dots> = 0\<rparr>"
instance ..
end

instantiation NamespacedObjectReference_ext :: (zero) zero
begin
definition zero_NamespacedObjectReference_ext :: "'a NamespacedObjectReference_scheme" where
  "zero_NamespacedObjectReference_ext = \<lparr>nref_namespace = '''', nref_name = '''', \<dots> = 0\<rparr>"
instance ..
end

instantiation ENIReference_ext :: (zero) zero
begin
definition zero_ENIReference_ext :: "'a ENIReference_scheme" where
  "zero_ENIReference_ext = \<lparr>ref_key = '''', ref_id = '''', ref_privateIP = '''', \<dots> = 0\<rparr>"
instance ..
end

instantiation Condition_ext :: (zero) zero
begin
definition zero_Condition_ext :: "'a Condition_scheme" where
  "zero_Condition_ext = \<lparr>cond_Type = '''', cond_Status = '''', cond_Reason = '''', cond_Message = '''', cond_ObservedGeneration = 0, \<dots> = 0\<rparr>"
instance ..
end

instantiation ENIClaimSpec_ext :: (zero) zero
begin
definition zero_ENIClaimSpec_ext :: "'a ENIClaimSpec_scheme" where
  "zero_ENIClaimSpec_ext = \<lparr>cs_machineRef = 0, cs_poolRef = 0, cs_eniID = '''', \<dots> = 0\<rparr>"
instance ..
end

instantiation GoListMeta_ext :: (zero) zero
begin
definition zero_GoListMeta_ext :: "'a GoListMeta_scheme" where
  "zero_GoListMeta_ext = \<lparr>glm_resourceVersion = '''', glm_remainingItemCount = None, \<dots> = 0\<rparr>"
instance ..
end

instantiation GoObjectMeta_ext :: (zero) zero
begin
definition zero_GoObjectMeta_ext :: "'a GoObjectMeta_scheme" where
  "zero_GoObjectMeta_ext = \<lparr>gm_name = '''', gm_namespace = '''', gm_generation = 0, gm_creationTimestamp = 0,
    gm_deletionTimestamp = None, gm_annotations = None, gm_labels = None, gm_finalizers = None, gm_ownerReferences = None, \<dots> = 0\<rparr>"
instance ..
end

instantiation GoENIClaimStatus_ext :: (zero) zero
begin
definition zero_GoENIClaimStatus_ext :: "'a GoENIClaimStatus_scheme" where
  "zero_GoENIClaimStatus_ext = \<lparr>gcs_phase = '''', gcs_privateIP = '''', gcs_conditions = None, \<dots> = 0\<rparr>"
instance ..
end

instantiation GoENIClaim_ext :: (zero) zero
begin
definition zero_GoENIClaim_ext :: "'a GoENIClaim_scheme" where
  "zero_GoENIClaim_ext = \<lparr>gc_type = 0, gc_meta = 0, gc_spec = 0, gc_status = 0, \<dots> = 0\<rparr>"
instance ..
end

instantiation GoENIClaimList_ext :: (zero) zero
begin
definition zero_GoENIClaimList_ext :: "'a GoENIClaimList_scheme" where
  "zero_GoENIClaimList_ext = \<lparr>gcl_type = 0, gcl_meta = 0, gcl_items = None, \<dots> = 0\<rparr>"
instance ..
end

instantiation GoENIObservation_ext :: (zero) zero
begin
definition zero_GoENIObservation_ext :: "'a GoENIObservation_scheme" where
  "zero_GoENIObservation_ext = \<lparr>gob_key = '''', gob_id = '''', gob_availabilityZone = '''', gob_subnetID = '''', gob_privateIP = '''',
    gob_state = '''', gob_claimRef = None, gob_message = '''', \<dots> = 0\<rparr>"
instance ..
end

instantiation GoENIPoolSpec_ext :: (zero) zero
begin
definition zero_GoENIPoolSpec_ext :: "'a GoENIPoolSpec_scheme" where
  "zero_GoENIPoolSpec_ext = \<lparr>gps_region = '''', gps_vpcID = '''', gps_interfaces = None, gps_exhaustionPolicy = '''', \<dots> = 0\<rparr>"
instance ..
end

instantiation GoENIPoolStatus_ext :: (zero) zero
begin
definition zero_GoENIPoolStatus_ext :: "'a GoENIPoolStatus_scheme" where
  "zero_GoENIPoolStatus_ext = \<lparr>gpt_observedGeneration = 0, gpt_interfaces = None, gpt_conditions = None, \<dots> = 0\<rparr>"
instance ..
end

instantiation GoENIPool_ext :: (zero) zero
begin
definition zero_GoENIPool_ext :: "'a GoENIPool_scheme" where
  "zero_GoENIPool_ext = \<lparr>gp_type = 0, gp_meta = 0, gp_spec = 0, gp_status = 0, \<dots> = 0\<rparr>"
instance ..
end

instantiation GoENIPoolList_ext :: (zero) zero
begin
definition zero_GoENIPoolList_ext :: "'a GoENIPoolList_scheme" where
  "zero_GoENIPoolList_ext = \<lparr>gpl_type = 0, gpl_meta = 0, gpl_items = None, \<dots> = 0\<rparr>"
instance ..
end

section \<open>DeepCopyInto\<close>

definition DeepCopyInto_ClusterObjectReference ::
  "ClusterObjectReference \<Rightarrow> heap \<Rightarrow> ClusterObjectReference \<times> heap" where
  "DeepCopyInto_ClusterObjectReference r h = (r, h)"

definition DeepCopyInto_NamespacedObjectReference ::
  "NamespacedObjectReference \<Rightarrow> heap \<Rightarrow> NamespacedObjectReference \<times> heap" where
  "DeepCopyInto_NamespacedObjectReference r h = (r, h)"

definition DeepCopyInto_ENIReference :: "ENIReference \<Rightarrow> heap \<Rightarrow> ENIReference \<times> heap" where
  "DeepCopyInto_ENIReference r h = (r, h)"

definition DeepCopyInto_ENIClaimSpec :: "ENIClaimSpec \<Rightarrow> heap \<Rightarrow> ENIClaimSpec \<times> heap" where
  "DeepCopyInto_ENIClaimSpec spec h =
     (spec\<lparr>cs_machineRef := cs_machineRef spec, cs_poolRef := cs_poolRef spec\<rparr>, h)"

type_synonym 'a copier = "'a \<Rightarrow> heap \<Rightarrow> 'a \<times> heap"

definition DeepCopyInto_ENIClaimStatus :: "Condition copier \<Rightarrow> GoENIClaimStatus copier" where
  "DeepCopyInto_ENIClaimStatus copyC status h =
     (case deep_copy_slice Conditions conditions 0 copyC (gcs_conditions status) h of
        (cs, h') \<Rightarrow> (status\<lparr>gcs_conditions := cs\<rparr>, h'))"

definition DeepCopyInto_ENIClaim :: "GoObjectMeta copier \<Rightarrow> Condition copier \<Rightarrow> GoENIClaim copier" where
  "DeepCopyInto_ENIClaim copyOM copyC claim h =
     (case copyOM (gc_meta claim) h of (om, h1) \<Rightarrow>
       case DeepCopyInto_ENIClaimStatus copyC (gc_status claim) h1 of (status, h2) \<Rightarrow>
         (claim\<lparr>gc_type := gc_type claim, gc_meta := om, gc_spec := gc_spec claim, gc_status := status\<rparr>, h2))"

definition DeepCopyInto_ENIClaimList ::
  "GoObjectMeta copier \<Rightarrow> GoListMeta copier \<Rightarrow> Condition copier \<Rightarrow> GoENIClaimList copier" where
  "DeepCopyInto_ENIClaimList copyOM copyLM copyC cl h =
     (case copyLM (gcl_meta cl) h of (lm, h1) \<Rightarrow>
       case deep_copy_slice ENIClaims eniClaims 0 (DeepCopyInto_ENIClaim copyOM copyC) (gcl_items cl) h1 of
         (items, h2) \<Rightarrow> (cl\<lparr>gcl_type := gcl_type cl, gcl_meta := lm, gcl_items := items\<rparr>, h2))"

definition DeepCopyInto_ENIObservation :: "GoENIObservation copier" where
  "DeepCopyInto_ENIObservation ob h =
     (case deep_copy_ptr NamespacedObjectReferences namespacedObjectReferences 0
         DeepCopyInto_NamespacedObjectReference (gob_claimRef ob) h of
        (r, h') \<Rightarrow> (ob\<lparr>gob_claimRef := r\<rparr>, h'))"


definition DeepCopyInto_ENIPoolSpec :: "GoENIPoolSpec copier" where
  "DeepCopyInto_ENIPoolSpec spec h =
     (case clone_slice ENIReferences eniReferences 0 (gps_interfaces spec) h of
        (refs, h') \<Rightarrow> (spec\<lparr>gps_interfaces := refs\<rparr>, h'))"

definition DeepCopyInto_ENIPoolStatus :: "Condition copier \<Rightarrow> GoENIPoolStatus copier" where
  "DeepCopyInto_ENIPoolStatus copyC status h =
     (case deep_copy_slice ENIObservations eniObservations 0 DeepCopyInto_ENIObservation (gpt_interfaces status) h of
        (obs, h1) \<Rightarrow>
          case deep_copy_slice Conditions conditions 0 copyC (gpt_conditions status) h1 of
            (cs, h2) \<Rightarrow> (status\<lparr>gpt_interfaces := obs, gpt_conditions := cs\<rparr>, h2))"

definition DeepCopyInto_ENIPool :: "GoObjectMeta copier \<Rightarrow> Condition copier \<Rightarrow> GoENIPool copier" where
  "DeepCopyInto_ENIPool copyOM copyC pool h =
     (case copyOM (gp_meta pool) h of (om, h1) \<Rightarrow>
       case DeepCopyInto_ENIPoolSpec (gp_spec pool) h1 of (spec, h2) \<Rightarrow>
       case DeepCopyInto_ENIPoolStatus copyC (gp_status pool) h2 of (status, h3) \<Rightarrow>
         (pool\<lparr>gp_type := gp_type pool, gp_meta := om, gp_spec := spec, gp_status := status\<rparr>, h3))"

definition DeepCopyInto_ENIPoolList ::
  "GoObjectMeta copier \<Rightarrow> GoListMeta copier \<Rightarrow> Condition copier \<Rightarrow> GoENIPoolList copier" where
  "DeepCopyInto_ENIPoolList copyOM copyLM copyC pl h =
     (case copyLM (gpl_meta pl) h of (lm, h1) \<Rightarrow>
       case deep_copy_slice ENIPools eniPools 0 (DeepCopyInto_ENIPool copyOM copyC) (gpl_items pl) h1 of
         (items, h2) \<Rightarrow> (pl\<lparr>gpl_type := gpl_type pl, gpl_meta := lm, gpl_items := items\<rparr>, h2))"

section \<open>DeepCopy and DeepCopyObject\<close>

definition DeepCopy_ClusterObjectReference :: "addr option copier" where
  "DeepCopy_ClusterObjectReference =
     deep_copy_ptr ClusterObjectReferences clusterObjectReferences 0 DeepCopyInto_ClusterObjectReference"

definition DeepCopy_NamespacedObjectReference :: "addr option copier" where
  "DeepCopy_NamespacedObjectReference =
     deep_copy_ptr NamespacedObjectReferences namespacedObjectReferences 0 DeepCopyInto_NamespacedObjectReference"

definition DeepCopy_ENIReference :: "addr option copier" where
  "DeepCopy_ENIReference = deep_copy_ptr ENIReferences eniReferences 0 DeepCopyInto_ENIReference"

definition DeepCopy_ENIClaimSpec :: "addr option copier" where
  "DeepCopy_ENIClaimSpec = deep_copy_ptr ENIClaimSpecs eniClaimSpecs 0 DeepCopyInto_ENIClaimSpec"

definition DeepCopy_ENIClaimStatus :: "Condition copier \<Rightarrow> addr option copier" where
  "DeepCopy_ENIClaimStatus copyC =
     deep_copy_ptr ENIClaimStatuses eniClaimStatuses 0 (DeepCopyInto_ENIClaimStatus copyC)"

definition DeepCopy_ENIClaim :: "GoObjectMeta copier \<Rightarrow> Condition copier \<Rightarrow> addr option copier" where
  "DeepCopy_ENIClaim copyOM copyC = deep_copy_ptr ENIClaims eniClaims 0 (DeepCopyInto_ENIClaim copyOM copyC)"

definition DeepCopy_ENIClaimList ::
  "GoObjectMeta copier \<Rightarrow> GoListMeta copier \<Rightarrow> Condition copier \<Rightarrow> addr option copier" where
  "DeepCopy_ENIClaimList copyOM copyLM copyC =
     deep_copy_ptr ENIClaimLists eniClaimLists 0 (DeepCopyInto_ENIClaimList copyOM copyLM copyC)"

definition DeepCopy_ENIObservation :: "addr option copier" where
  "DeepCopy_ENIObservation = deep_copy_ptr ENIObservations eniObservations 0 DeepCopyInto_ENIObservation"

definition DeepCopy_ENIPoolSpec :: "addr option copier" where
  "DeepCopy_ENIPoolSpec = deep_copy_ptr ENIPoolSpecs eniPoolSpecs 0 DeepCopyInto_ENIPoolSpec"

definition DeepCopy_ENIPoolStatus :: "Condition copier \<Rightarrow> addr option copier" where
  "DeepCopy_ENIPoolStatus copyC =
     deep_copy_ptr ENIPoolStatuses eniPoolStatuses 0 (DeepCopyInto_ENIPoolStatus copyC)"

definition DeepCopy_ENIPool :: "GoObjectMeta copier \<Rightarrow> Condition copier \<Rightarrow> addr option copier" where
  "DeepCopy_ENIPool copyOM copyC = deep_copy_ptr ENIPools eniPools 0 (DeepCopyInto_ENIPool copyOM copyC)"

definition DeepCopy_ENIPoolList ::
  "GoObjectMeta copier \<Rightarrow> GoListMeta copier \<Rightarrow> Condition copier \<Rightarrow> addr option copier" where
  "DeepCopy_ENIPoolList copyOM copyLM copyC =
     deep_copy_ptr ENIPoolLists eniPoolLists 0 (DeepCopyInto_ENIPoolList copyOM copyLM copyC)"

text \<open>
  A \<^verbatim>\<open>runtime.Object\<close> is an interface value: nil, or a dynamic type with a pointer, which may itself be
  nil. A nil pointer is returned as the nil interface.
\<close>

type_synonym runtime_Object = "(string \<times> addr option) option"

definition as_object :: "string \<Rightarrow> addr option \<times> heap \<Rightarrow> runtime_Object \<times> heap" where
  "as_object kind r = (case r of (c, h) \<Rightarrow> if c \<noteq> None then (Some (kind, c), h) else (None, h))"

definition DeepCopyObject_ENIClaim where
  "DeepCopyObject_ENIClaim copyOM copyC p h = as_object ''ENIClaim'' (DeepCopy_ENIClaim copyOM copyC p h)"

definition DeepCopyObject_ENIClaimList where
  "DeepCopyObject_ENIClaimList copyOM copyLM copyC p h =
     as_object ''ENIClaimList'' (DeepCopy_ENIClaimList copyOM copyLM copyC p h)"

definition DeepCopyObject_ENIPool where
  "DeepCopyObject_ENIPool copyOM copyC p h = as_object ''ENIPool'' (DeepCopy_ENIPool copyOM copyC p h)"

definition DeepCopyObject_ENIPoolList where
  "DeepCopyObject_ENIPoolList copyOM copyLM copyC p h =
     as_object ''ENIPoolList'' (DeepCopy_ENIPoolList copyOM copyLM copyC p h)"

section \<open>Views\<close>

definition view_ListMeta :: "heap \<Rightarrow> GoListMeta \<Rightarrow> string \<times> int option" where
  "view_ListMeta h m = (glm_resourceVersion m, view_ptr int64s plain_view h (glm_remainingItemCount m))"
definition fp_ListMeta :: "heap \<Rightarrow> GoListMeta \<Rightarrow> addr set" where
  "fp_ListMeta h m = fp_ptr int64s plain_fp h (glm_remainingItemCount m)"
definition ok_ListMeta :: "heap \<Rightarrow> GoListMeta \<Rightarrow> bool" where
  "ok_ListMeta h m \<longleftrightarrow> ok_ptr int64s plain_ok h (glm_remainingItemCount m)"

definition view_ObjectMeta :: "heap \<Rightarrow> GoObjectMeta \<Rightarrow> ObjectMeta" where
  "view_ObjectMeta h m = \<lparr>m_name = gm_name m, m_namespace = gm_namespace m, m_generation = gm_generation m,
     m_creationTimestamp = gm_creationTimestamp m,
     m_deletionTimestamp = view_ptr times plain_view h (gm_deletionTimestamp m),
     m_annotations = view_ptr stringMaps plain_view h (gm_annotations m),
     m_labels = view_ptr stringMaps plain_view h (gm_labels m),
     m_finalizers = view_slice strings plain_view h (gm_finalizers m),
     m_ownerReferences = view_slice ownerReferences plain_view h (gm_ownerReferences m)\<rparr>"
definition fp_ObjectMeta :: "heap \<Rightarrow> GoObjectMeta \<Rightarrow> addr set" where
  "fp_ObjectMeta h m = fp_ptr times plain_fp h (gm_deletionTimestamp m) \<union>
     (fp_ptr stringMaps plain_fp h (gm_annotations m) \<union> (fp_ptr stringMaps plain_fp h (gm_labels m) \<union>
     (fp_slice strings plain_fp h (gm_finalizers m) \<union> fp_slice ownerReferences plain_fp h (gm_ownerReferences m))))"
definition ok_ObjectMeta :: "heap \<Rightarrow> GoObjectMeta \<Rightarrow> bool" where
  "ok_ObjectMeta h m \<longleftrightarrow> ok_ptr times plain_ok h (gm_deletionTimestamp m) \<and>
     ok_ptr stringMaps plain_ok h (gm_annotations m) \<and> ok_ptr stringMaps plain_ok h (gm_labels m) \<and>
     ok_slice strings plain_ok h (gm_finalizers m) \<and> ok_slice ownerReferences plain_ok h (gm_ownerReferences m)"

definition view_ENIClaimStatus :: "heap \<Rightarrow> GoENIClaimStatus \<Rightarrow> ENIClaimStatus" where
  "view_ENIClaimStatus h s = \<lparr>cst_phase = gcs_phase s, cst_privateIP = gcs_privateIP s,
     cst_conditions = view_slice conditions plain_view h (gcs_conditions s)\<rparr>"
definition fp_ENIClaimStatus :: "heap \<Rightarrow> GoENIClaimStatus \<Rightarrow> addr set" where
  "fp_ENIClaimStatus h s = fp_slice conditions plain_fp h (gcs_conditions s)"
definition ok_ENIClaimStatus :: "heap \<Rightarrow> GoENIClaimStatus \<Rightarrow> bool" where
  "ok_ENIClaimStatus h s \<longleftrightarrow> ok_slice conditions plain_ok h (gcs_conditions s)"

definition view_ENIClaim :: "heap \<Rightarrow> GoENIClaim \<Rightarrow> TypeMeta \<times> ENIClaim" where
  "view_ENIClaim h c = (gc_type c, \<lparr>claim_meta = view_ObjectMeta h (gc_meta c), claim_spec = gc_spec c,
     claim_status = view_ENIClaimStatus h (gc_status c)\<rparr>)"
definition fp_ENIClaim :: "heap \<Rightarrow> GoENIClaim \<Rightarrow> addr set" where
  "fp_ENIClaim h c = fp_ObjectMeta h (gc_meta c) \<union> fp_ENIClaimStatus h (gc_status c)"
definition ok_ENIClaim :: "heap \<Rightarrow> GoENIClaim \<Rightarrow> bool" where
  "ok_ENIClaim h c \<longleftrightarrow> ok_ObjectMeta h (gc_meta c) \<and> ok_ENIClaimStatus h (gc_status c)"

definition view_ENIClaimList where
  "view_ENIClaimList h l = (gcl_type l, view_ListMeta h (gcl_meta l), view_slice eniClaims view_ENIClaim h (gcl_items l))"
definition fp_ENIClaimList where
  "fp_ENIClaimList h l = fp_ListMeta h (gcl_meta l) \<union> fp_slice eniClaims fp_ENIClaim h (gcl_items l)"
definition ok_ENIClaimList where
  "ok_ENIClaimList h l \<longleftrightarrow> ok_ListMeta h (gcl_meta l) \<and> ok_slice eniClaims ok_ENIClaim h (gcl_items l)"

definition view_ENIObservation :: "heap \<Rightarrow> GoENIObservation \<Rightarrow> ENIObservation" where
  "view_ENIObservation h b = \<lparr>obs_key = gob_key b, obs_id = gob_id b, obs_availabilityZone = gob_availabilityZone b,
     obs_subnetID = gob_subnetID b, obs_privateIP = gob_privateIP b, obs_state = gob_state b,
     obs_claimRef = view_ptr namespacedObjectReferences plain_view h (gob_claimRef b), obs_message = gob_message b\<rparr>"
definition fp_ENIObservation :: "heap \<Rightarrow> GoENIObservation \<Rightarrow> addr set" where
  "fp_ENIObservation h b = fp_ptr namespacedObjectReferences plain_fp h (gob_claimRef b)"
definition ok_ENIObservation :: "heap \<Rightarrow> GoENIObservation \<Rightarrow> bool" where
  "ok_ENIObservation h b \<longleftrightarrow> ok_ptr namespacedObjectReferences plain_ok h (gob_claimRef b)"

definition view_ENIPoolSpec :: "heap \<Rightarrow> GoENIPoolSpec \<Rightarrow> ENIPoolSpec" where
  "view_ENIPoolSpec h s = \<lparr>ps_region = gps_region s, ps_vpcID = gps_vpcID s,
     ps_interfaces = view_slice eniReferences plain_view h (gps_interfaces s), ps_exhaustionPolicy = gps_exhaustionPolicy s\<rparr>"
definition fp_ENIPoolSpec :: "heap \<Rightarrow> GoENIPoolSpec \<Rightarrow> addr set" where
  "fp_ENIPoolSpec h s = fp_slice eniReferences plain_fp h (gps_interfaces s)"
definition ok_ENIPoolSpec :: "heap \<Rightarrow> GoENIPoolSpec \<Rightarrow> bool" where
  "ok_ENIPoolSpec h s \<longleftrightarrow> ok_slice eniReferences plain_ok h (gps_interfaces s)"

definition view_ENIPoolStatus :: "heap \<Rightarrow> GoENIPoolStatus \<Rightarrow> ENIPoolStatus" where
  "view_ENIPoolStatus h s = \<lparr>pst_observedGeneration = gpt_observedGeneration s,
     pst_interfaces = view_slice eniObservations view_ENIObservation h (gpt_interfaces s),
     pst_conditions = view_slice conditions plain_view h (gpt_conditions s)\<rparr>"
definition fp_ENIPoolStatus :: "heap \<Rightarrow> GoENIPoolStatus \<Rightarrow> addr set" where
  "fp_ENIPoolStatus h s = fp_slice eniObservations fp_ENIObservation h (gpt_interfaces s) \<union>
     fp_slice conditions plain_fp h (gpt_conditions s)"
definition ok_ENIPoolStatus :: "heap \<Rightarrow> GoENIPoolStatus \<Rightarrow> bool" where
  "ok_ENIPoolStatus h s \<longleftrightarrow> ok_slice eniObservations ok_ENIObservation h (gpt_interfaces s) \<and>
     ok_slice conditions plain_ok h (gpt_conditions s)"

definition view_ENIPool :: "heap \<Rightarrow> GoENIPool \<Rightarrow> TypeMeta \<times> ENIPool" where
  "view_ENIPool h p = (gp_type p, \<lparr>pool_meta = view_ObjectMeta h (gp_meta p), pool_spec = view_ENIPoolSpec h (gp_spec p),
     pool_status = view_ENIPoolStatus h (gp_status p)\<rparr>)"
definition fp_ENIPool :: "heap \<Rightarrow> GoENIPool \<Rightarrow> addr set" where
  "fp_ENIPool h p = fp_ObjectMeta h (gp_meta p) \<union> (fp_ENIPoolSpec h (gp_spec p) \<union> fp_ENIPoolStatus h (gp_status p))"
definition ok_ENIPool :: "heap \<Rightarrow> GoENIPool \<Rightarrow> bool" where
  "ok_ENIPool h p \<longleftrightarrow> ok_ObjectMeta h (gp_meta p) \<and> ok_ENIPoolSpec h (gp_spec p) \<and> ok_ENIPoolStatus h (gp_status p)"

definition view_ENIPoolList where
  "view_ENIPoolList h l = (gpl_type l, view_ListMeta h (gpl_meta l), view_slice eniPools view_ENIPool h (gpl_items l))"
definition fp_ENIPoolList where
  "fp_ENIPoolList h l = fp_ListMeta h (gpl_meta l) \<union> fp_slice eniPools fp_ENIPool h (gpl_items l)"
definition ok_ENIPoolList where
  "ok_ENIPoolList h l \<longleftrightarrow> ok_ListMeta h (gpl_meta l) \<and> ok_slice eniPools ok_ENIPool h (gpl_items l)"

section \<open>The generated functions keep the contract\<close>

lemma plain_contract: "deep_copy (\<lambda>v h. (v, h)) plain_view plain_fp plain_ok"
  by (rule deep_copy.intro) (auto simp: live_def)

lemma DeepCopyInto_plain:
  "DeepCopyInto_ClusterObjectReference = (\<lambda>v h. (v, h))" "DeepCopyInto_NamespacedObjectReference = (\<lambda>v h. (v, h))"
  "DeepCopyInto_ENIReference = (\<lambda>v h. (v, h))" "DeepCopyInto_ENIClaimSpec = (\<lambda>v h. (v, h))"
  by (simp_all add: fun_eq_iff DeepCopyInto_ClusterObjectReference_def DeepCopyInto_NamespacedObjectReference_def
    DeepCopyInto_ENIReference_def DeepCopyInto_ENIClaimSpec_def)

interpretation cref: copy_block DeepCopyInto_ClusterObjectReference plain_view plain_fp plain_ok
  ClusterObjectReferences clusterObjectReferences 0
  unfolding DeepCopyInto_plain
  by (intro copy_block.intro plain_contract block.intro) (simp add: block_defs)

interpretation nref: copy_block DeepCopyInto_NamespacedObjectReference plain_view plain_fp plain_ok
  NamespacedObjectReferences namespacedObjectReferences 0
  unfolding DeepCopyInto_plain
  by (intro copy_block.intro plain_contract block.intro) (simp add: block_defs)

interpretation eref: copy_block DeepCopyInto_ENIReference plain_view plain_fp plain_ok ENIReferences eniReferences 0
  unfolding DeepCopyInto_plain
  by (intro copy_block.intro plain_contract block.intro) (simp add: block_defs)

interpretation claim_spec: copy_block DeepCopyInto_ENIClaimSpec plain_view plain_fp plain_ok ENIClaimSpecs eniClaimSpecs 0
  unfolding DeepCopyInto_plain
  by (intro copy_block.intro plain_contract block.intro) (simp add: block_defs)

lemma observation_contract:
  "deep_copy DeepCopyInto_ENIObservation view_ENIObservation fp_ENIObservation ok_ENIObservation"
  by (rule copy_structI [OF nref.ptr.deep_copy_axioms, where parts = gob_claimRef and
      update = "\<lambda>b r. b\<lparr>gob_claimRef := r\<rparr>" and build = "\<lambda>b v. \<lparr>obs_key = gob_key b, obs_id = gob_id b,
        obs_availabilityZone = gob_availabilityZone b, obs_subnetID = gob_subnetID b, obs_privateIP = gob_privateIP b,
        obs_state = gob_state b, obs_claimRef = v, obs_message = gob_message b\<rparr>"])
    (simp_all add: DeepCopyInto_ENIObservation_def view_ENIObservation_def fp_ENIObservation_def ok_ENIObservation_def)

interpretation observation: copy_block DeepCopyInto_ENIObservation view_ENIObservation fp_ENIObservation ok_ENIObservation
  ENIObservations eniObservations 0
  by (intro copy_block.intro observation_contract block.intro) (simp add: block_defs)

lemma pool_spec_contract: "deep_copy DeepCopyInto_ENIPoolSpec view_ENIPoolSpec fp_ENIPoolSpec ok_ENIPoolSpec"
  by (rule copy_structI [OF eref.clone_contract [of 0], where parts = gps_interfaces and
      update = "\<lambda>s r. s\<lparr>gps_interfaces := r\<rparr>" and build = "\<lambda>s v. \<lparr>ps_region = gps_region s, ps_vpcID = gps_vpcID s,
        ps_interfaces = v, ps_exhaustionPolicy = gps_exhaustionPolicy s\<rparr>"])
    (simp_all add: DeepCopyInto_ENIPoolSpec_def view_ENIPoolSpec_def fp_ENIPoolSpec_def ok_ENIPoolSpec_def)

interpretation pool_spec: copy_block DeepCopyInto_ENIPoolSpec view_ENIPoolSpec fp_ENIPoolSpec ok_ENIPoolSpec
  ENIPoolSpecs eniPoolSpecs 0
  by (intro copy_block.intro pool_spec_contract block.intro) (simp add: block_defs)

text \<open>What the copies of apimachinery's structs promise, and with it the other functions.\<close>

locale apimachinery =
  om: deep_copy copyOM view_ObjectMeta fp_ObjectMeta ok_ObjectMeta +
  lm: deep_copy copyLM view_ListMeta fp_ListMeta ok_ListMeta +
  cond: deep_copy copyC plain_view plain_fp plain_ok
  for copyOM :: "GoObjectMeta copier" and copyLM :: "GoListMeta copier" and copyC :: "Condition copier"

sublocale apimachinery \<subseteq> conds: copy_block copyC plain_view plain_fp plain_ok Conditions conditions 0
  by (intro copy_block.intro cond.deep_copy_axioms block.intro) (simp add: block_defs)

context apimachinery
begin

lemma claim_status_contract:
  "deep_copy (DeepCopyInto_ENIClaimStatus copyC) view_ENIClaimStatus fp_ENIClaimStatus ok_ENIClaimStatus"
  by (rule copy_structI [OF conds.slice.deep_copy_axioms, where parts = gcs_conditions and
      update = "\<lambda>s r. s\<lparr>gcs_conditions := r\<rparr>" and build = "\<lambda>s v. \<lparr>cst_phase = gcs_phase s,
        cst_privateIP = gcs_privateIP s, cst_conditions = v\<rparr>"])
    (simp_all add: DeepCopyInto_ENIClaimStatus_def view_ENIClaimStatus_def fp_ENIClaimStatus_def ok_ENIClaimStatus_def)

lemma pool_status_contract:
  "deep_copy (DeepCopyInto_ENIPoolStatus copyC) view_ENIPoolStatus fp_ENIPoolStatus ok_ENIPoolStatus"
  by (rule copy_structI [OF copy_pair [OF observation.slice.deep_copy_axioms conds.slice.deep_copy_axioms],
      where parts = "\<lambda>s. (gpt_interfaces s, gpt_conditions s)" and
      update = "\<lambda>s r. s\<lparr>gpt_interfaces := fst r, gpt_conditions := snd r\<rparr>" and
      build = "\<lambda>s v. \<lparr>pst_observedGeneration = gpt_observedGeneration s, pst_interfaces = fst v, pst_conditions = snd v\<rparr>"])
    (simp_all add: DeepCopyInto_ENIPoolStatus_def view_ENIPoolStatus_def fp_ENIPoolStatus_def ok_ENIPoolStatus_def
      split: prod.split)

lemma claim_contract: "deep_copy (DeepCopyInto_ENIClaim copyOM copyC) view_ENIClaim fp_ENIClaim ok_ENIClaim"
  by (rule copy_structI [OF copy_pair [OF om.deep_copy_axioms claim_status_contract],
      where parts = "\<lambda>c. (gc_meta c, gc_status c)" and update = "\<lambda>c r. c\<lparr>gc_meta := fst r, gc_status := snd r\<rparr>" and
      build = "\<lambda>c v. (gc_type c, \<lparr>claim_meta = fst v, claim_spec = gc_spec c, claim_status = snd v\<rparr>)"])
    (simp_all add: DeepCopyInto_ENIClaim_def view_ENIClaim_def fp_ENIClaim_def ok_ENIClaim_def split: prod.split)

lemma pool_contract: "deep_copy (DeepCopyInto_ENIPool copyOM copyC) view_ENIPool fp_ENIPool ok_ENIPool"
  by (rule copy_structI [OF copy_pair [OF om.deep_copy_axioms copy_pair [OF pool_spec_contract pool_status_contract]],
      where parts = "\<lambda>p. (gp_meta p, gp_spec p, gp_status p)" and
      update = "\<lambda>p r. p\<lparr>gp_meta := fst r, gp_spec := fst (snd r), gp_status := snd (snd r)\<rparr>" and
      build = "\<lambda>p v. (gp_type p, \<lparr>pool_meta = fst v, pool_spec = fst (snd v), pool_status = snd (snd v)\<rparr>)"])
    (simp_all add: DeepCopyInto_ENIPool_def view_ENIPool_def fp_ENIPool_def ok_ENIPool_def split: prod.split)

end

sublocale apimachinery \<subseteq> claim_status: copy_block "DeepCopyInto_ENIClaimStatus copyC" view_ENIClaimStatus
    fp_ENIClaimStatus ok_ENIClaimStatus ENIClaimStatuses eniClaimStatuses 0
  by (intro copy_block.intro claim_status_contract block.intro) (simp add: block_defs)

sublocale apimachinery \<subseteq> pool_status: copy_block "DeepCopyInto_ENIPoolStatus copyC" view_ENIPoolStatus
    fp_ENIPoolStatus ok_ENIPoolStatus ENIPoolStatuses eniPoolStatuses 0
  by (intro copy_block.intro pool_status_contract block.intro) (simp add: block_defs)

sublocale apimachinery \<subseteq> claim: copy_block "DeepCopyInto_ENIClaim copyOM copyC" view_ENIClaim fp_ENIClaim ok_ENIClaim
    ENIClaims eniClaims 0
  by (intro copy_block.intro claim_contract block.intro) (simp add: block_defs)

sublocale apimachinery \<subseteq> pool: copy_block "DeepCopyInto_ENIPool copyOM copyC" view_ENIPool fp_ENIPool ok_ENIPool
    ENIPools eniPools 0
  by (intro copy_block.intro pool_contract block.intro) (simp add: block_defs)

context apimachinery
begin

lemma claim_list_contract:
  "deep_copy (DeepCopyInto_ENIClaimList copyOM copyLM copyC) view_ENIClaimList fp_ENIClaimList ok_ENIClaimList"
  by (rule copy_structI [OF copy_pair [OF lm.deep_copy_axioms claim.slice.deep_copy_axioms],
      where parts = "\<lambda>l. (gcl_meta l, gcl_items l)" and update = "\<lambda>l r. l\<lparr>gcl_meta := fst r, gcl_items := snd r\<rparr>" and
      build = "\<lambda>l v. (gcl_type l, fst v, snd v)"])
    (simp_all add: DeepCopyInto_ENIClaimList_def view_ENIClaimList_def fp_ENIClaimList_def ok_ENIClaimList_def
      split: prod.split)

lemma pool_list_contract:
  "deep_copy (DeepCopyInto_ENIPoolList copyOM copyLM copyC) view_ENIPoolList fp_ENIPoolList ok_ENIPoolList"
  by (rule copy_structI [OF copy_pair [OF lm.deep_copy_axioms pool.slice.deep_copy_axioms],
      where parts = "\<lambda>l. (gpl_meta l, gpl_items l)" and update = "\<lambda>l r. l\<lparr>gpl_meta := fst r, gpl_items := snd r\<rparr>" and
      build = "\<lambda>l v. (gpl_type l, fst v, snd v)"])
    (simp_all add: DeepCopyInto_ENIPoolList_def view_ENIPoolList_def fp_ENIPoolList_def ok_ENIPoolList_def
      split: prod.split)

end

sublocale apimachinery \<subseteq> claim_list: copy_block "DeepCopyInto_ENIClaimList copyOM copyLM copyC" view_ENIClaimList
    fp_ENIClaimList ok_ENIClaimList ENIClaimLists eniClaimLists 0
  by (intro copy_block.intro claim_list_contract block.intro) (simp add: block_defs)

sublocale apimachinery \<subseteq> pool_list: copy_block "DeepCopyInto_ENIPoolList copyOM copyLM copyC" view_ENIPoolList
    fp_ENIPoolList ok_ENIPoolList ENIPoolLists eniPoolLists 0
  by (intro copy_block.intro pool_list_contract block.intro) (simp add: block_defs)

context apimachinery
begin

lemmas pool_copies = pool.ptr.contract
lemmas claim_list_copies = claim_list.ptr.contract

end

section \<open>The contract of apimachinery can be met\<close>

text \<open>
  Copies of \<^verbatim>\<open>ObjectMeta\<close>, \<^verbatim>\<open>ListMeta\<close> and \<^verbatim>\<open>Condition\<close> that keep the contract, for the modelled fields;
  the theorems are applied to them where a concrete instance is wanted.
\<close>

abbreviation (input) "plain_copy \<equiv> \<lambda>v (h::heap). (v, h)"

definition ref_copy_ObjectMeta :: "GoObjectMeta copier" where
  "ref_copy_ObjectMeta m h =
     (case deep_copy_ptr Times times 0 plain_copy (gm_deletionTimestamp m) h of (d, h1) \<Rightarrow>
       case deep_copy_ptr StringMaps stringMaps Map.empty plain_copy (gm_annotations m) h1 of (an, h2) \<Rightarrow>
       case deep_copy_ptr StringMaps stringMaps Map.empty plain_copy (gm_labels m) h2 of (lb, h3) \<Rightarrow>
       case clone_slice Strings strings '''' (gm_finalizers m) h3 of (fs, h4) \<Rightarrow>
       case clone_slice OwnerReferences ownerReferences \<lparr>owner_APIVersion = '''', owner_Kind = '''', owner_Name = ''''\<rparr>
           (gm_ownerReferences m) h4 of (os, h5) \<Rightarrow>
         (m\<lparr>gm_deletionTimestamp := d, gm_annotations := an, gm_labels := lb, gm_finalizers := fs,
            gm_ownerReferences := os\<rparr>, h5))"

definition ref_copy_ListMeta :: "GoListMeta copier" where
  "ref_copy_ListMeta m h =
     (case deep_copy_ptr Int64s int64s 0 plain_copy (glm_remainingItemCount m) h of
        (r, h') \<Rightarrow> (m\<lparr>glm_remainingItemCount := r\<rparr>, h'))"

interpretation time: copy_block plain_copy plain_view plain_fp plain_ok Times times 0
  by (intro copy_block.intro plain_contract block.intro) (simp add: block_defs)

interpretation stringmap: copy_block plain_copy plain_view plain_fp plain_ok StringMaps stringMaps Map.empty
  by (intro copy_block.intro plain_contract block.intro) (simp add: block_defs)

interpretation int64: copy_block plain_copy plain_view plain_fp plain_ok Int64s int64s 0
  by (intro copy_block.intro plain_contract block.intro) (simp add: block_defs)

interpretation strs: block Strings strings
  by (intro block.intro) (simp add: block_defs)

interpretation owners: block OwnerReferences ownerReferences
  by (intro block.intro) (simp add: block_defs)

lemma ref_ObjectMeta_contract: "deep_copy ref_copy_ObjectMeta view_ObjectMeta fp_ObjectMeta ok_ObjectMeta"
  by (rule copy_structI [OF copy_pair [OF time.ptr.deep_copy_axioms copy_pair [OF stringmap.ptr.deep_copy_axioms
        copy_pair [OF stringmap.ptr.deep_copy_axioms copy_pair [OF strs.clone_contract [of "''''"] owners.clone_contract
          [of "\<lparr>owner_APIVersion = '''', owner_Kind = '''', owner_Name = ''''\<rparr>"]]]]],
      where parts = "\<lambda>m. (gm_deletionTimestamp m, gm_annotations m, gm_labels m, gm_finalizers m, gm_ownerReferences m)" and
      update = "\<lambda>m r. m\<lparr>gm_deletionTimestamp := fst r, gm_annotations := fst (snd r), gm_labels := fst (snd (snd r)),
        gm_finalizers := fst (snd (snd (snd r))), gm_ownerReferences := snd (snd (snd (snd r)))\<rparr>" and
      build = "\<lambda>m v. \<lparr>m_name = gm_name m, m_namespace = gm_namespace m, m_generation = gm_generation m,
        m_creationTimestamp = gm_creationTimestamp m, m_deletionTimestamp = fst v, m_annotations = fst (snd v),
        m_labels = fst (snd (snd v)), m_finalizers = fst (snd (snd (snd v))),
        m_ownerReferences = snd (snd (snd (snd v)))\<rparr>"])
    (simp_all add: ref_copy_ObjectMeta_def view_ObjectMeta_def fp_ObjectMeta_def ok_ObjectMeta_def split: prod.split)

lemma ref_ListMeta_contract: "deep_copy ref_copy_ListMeta view_ListMeta fp_ListMeta ok_ListMeta"
  by (rule copy_structI [OF int64.ptr.deep_copy_axioms, where parts = glm_remainingItemCount and
      update = "\<lambda>m r. m\<lparr>glm_remainingItemCount := r\<rparr>" and build = "\<lambda>m v. (glm_resourceVersion m, v)"])
    (simp_all add: ref_copy_ListMeta_def view_ListMeta_def fp_ListMeta_def ok_ListMeta_def)

interpretation machinery: apimachinery ref_copy_ObjectMeta ref_copy_ListMeta plain_copy
  by (intro apimachinery.intro ref_ObjectMeta_contract ref_ListMeta_contract plain_contract)

section \<open>Copies are independent\<close>

text \<open>A pool with two interfaces, one of them observed as claimed, and a condition, as the client decodes it.\<close>

definition ex_pool_heap :: heap where
  "ex_pool_heap = \<lparr>h_next = 5, h_cells = (\<lambda>x.
     if x = 0 then ENIReferences [\<lparr>ref_key = '''', ref_id = ''eni-1'', ref_privateIP = ''10.0.0.1''\<rparr>,
       \<lparr>ref_key = '''', ref_id = ''eni-2'', ref_privateIP = ''10.0.0.2''\<rparr>]
     else if x = 1 then NamespacedObjectReferences [\<lparr>nref_namespace = ''workload'', nref_name = ''a''\<rparr>]
     else if x = 2 then ENIObservations [0, 0\<lparr>gob_claimRef := Some 1\<rparr>]
     else if x = 3 then Conditions [0]
     else if x = 4 then ENIPools [0\<lparr>gp_spec := 0\<lparr>gps_interfaces := Some \<lparr>sl_array = 0, sl_offset = 0, sl_len = 2, sl_cap = 2\<rparr>\<rparr>,
       gp_status := 0\<lparr>gpt_interfaces := Some \<lparr>sl_array = 2, sl_offset = 0, sl_len = 2, sl_cap = 2\<rparr>,
         gpt_conditions := Some \<lparr>sl_array = 3, sl_offset = 0, sl_len = 1, sl_cap = 1\<rparr>\<rparr>\<rparr>]
     else Unused)\<rparr>"

abbreviation live_pool :: "heap \<Rightarrow> addr option \<Rightarrow> bool" where
  "live_pool \<equiv> live (ok_ptr eniPools ok_ENIPool) (fp_ptr eniPools fp_ENIPool)"

lemma ex_pool_live: "live_pool ex_pool_heap (Some 4)"
  by (simp add: live_def ok_ptr_def fp_ptr_def ex_pool_heap_def block_defs ok_ENIPool_def fp_ENIPool_def
    ok_ObjectMeta_def fp_ObjectMeta_def ok_ENIPoolSpec_def fp_ENIPoolSpec_def ok_ENIPoolStatus_def fp_ENIPoolStatus_def
    ok_ENIObservation_def fp_ENIObservation_def ok_slice_def fp_slice_def zero_GoENIPool_ext_def zero_GoObjectMeta_ext_def
    zero_GoENIPoolSpec_ext_def zero_GoENIPoolStatus_ext_def zero_GoENIObservation_ext_def)

text \<open>
  C28: \<^verbatim>\<open>ENIPool.DeepCopy\<close> returns a pointer to a pool of the same value that shares no memory with the
  original: existing blocks are unchanged, the copy lies in new ones, and whatever is later written to
  the one is not seen through the other.
\<close>
theorem DeepCopy_ENIPool_independent:
  assumes "apimachinery copyOM copyLM copyC" and "live_pool h p"
    and "DeepCopy_ENIPool copyOM copyC p h = (q, h')"
  shows "view_ptr eniPools view_ENIPool h' q = view_ptr eniPools view_ENIPool h p \<and>
    same_on {..<h_next h} h h' \<and> fp_ptr eniPools fp_ENIPool h' q \<inter> {..<h_next h} = {} \<and>
    (\<forall>k. same_on (- fp_ptr eniPools fp_ENIPool h' q) h' k \<longrightarrow>
      view_ptr eniPools view_ENIPool k p = view_ptr eniPools view_ENIPool h p) \<and>
    (\<forall>k. same_on (- fp_ptr eniPools fp_ENIPool h' p) h' k \<longrightarrow>
      view_ptr eniPools view_ENIPool k q = view_ptr eniPools view_ENIPool h p)"
  using apimachinery.pool_copies [OF assms(1) assms(2) assms(3) [unfolded DeepCopy_ENIPool_def]] .

theorem DeepCopy_ENIPool_independent_witness:
  "\<exists>q h'. DeepCopy_ENIPool ref_copy_ObjectMeta plain_copy (Some 4) ex_pool_heap = (q, h') \<and>
    view_ptr eniPools view_ENIPool h' q = view_ptr eniPools view_ENIPool ex_pool_heap (Some 4) \<and>
    (\<forall>k. same_on (- fp_ptr eniPools fp_ENIPool h' (Some 4)) h' k \<longrightarrow>
      view_ptr eniPools view_ENIPool k q = view_ptr eniPools view_ENIPool ex_pool_heap (Some 4))"
proof -
  obtain q h' where run: "DeepCopy_ENIPool ref_copy_ObjectMeta plain_copy (Some 4) ex_pool_heap = (q, h')" by force
  from DeepCopy_ENIPool_independent [OF machinery.apimachinery_axioms ex_pool_live run] run show ?thesis by blast
qed

end
