(* ===== verification/Go_Slices.thy ===== *)
theory Go_Slices
  imports Generated_Copies ENIClaim_Controller
begin

text \<open>
  The code that changes slices in place, in Go's memory: \<^verbatim>\<open>removeString\<close> and the two places that change
  \<^verbatim>\<open>claim.Finalizers\<close> between \<^verbatim>\<open>base := claim.DeepCopy()\<close> and \<^verbatim>\<open>client.MergeFrom(base)\<close>
  (\<^verbatim>\<open>internal/controller/eniclaim_controller.go\<close>), and the list of candidates that \<^verbatim>\<open>claimInterface\<close>
  builds from the interfaces of a pool. Each is shown to compute what its value model in
  \<open>ENIClaim_Controller\<close> or \<open>Allocator\<close> says, although \<^verbatim>\<open>values[:0]\<close> and \<^verbatim>\<open>configured[:0]\<close> reuse their
  blocks, and to leave alone what others may still see.
\<close>

section \<open>Changing the finalizers of a claim\<close>

definition removeString_mem :: "(nat \<Rightarrow> nat \<Rightarrow> nat) \<Rightarrow> go_slice \<Rightarrow> string \<Rightarrow> heap \<Rightarrow> go_slice \<times> heap" where
  "removeString_mem grow values unwanted h = (case values of
     None \<Rightarrow> (slice_empty values, h)
   | Some sl \<Rightarrow> filter_into Strings strings '''' grow (\<lambda>value. value \<noteq> unwanted) sl (slice_empty values)
       [0..<sl_len sl] h)"

text \<open>The claim a pointer leads to, and \<^verbatim>\<open>claim.Finalizers = fs\<close>.\<close>

definition claim_at :: "heap \<Rightarrow> addr \<Rightarrow> GoENIClaim" where
  "claim_at h a = eniClaims (h_cells h a) ! 0"

definition set_finalizers :: "addr \<Rightarrow> go_slice \<Rightarrow> heap \<Rightarrow> heap" where
  "set_finalizers a fs h =
     set_cell a (ENIClaims [(claim_at h a)\<lparr>gc_meta := (gc_meta (claim_at h a))\<lparr>gm_finalizers := fs\<rparr>\<rparr>]) h"

text \<open>
  What \<^verbatim>\<open>removeFinalizer\<close> and the step of \<^verbatim>\<open>Reconcile\<close> that adds the finalizer do before their \<^verbatim>\<open>Patch\<close>:
  the pointer \<open>base\<close> they pass to \<^verbatim>\<open>client.MergeFrom\<close> (none if they return early), and the memory, where
  \<open>a\<close> leads to the claim they pass as the object.
\<close>

definition removeFinalizer_mem :: "GoObjectMeta copier \<Rightarrow> Condition copier \<Rightarrow> (nat \<Rightarrow> nat \<Rightarrow> nat) \<Rightarrow> addr \<Rightarrow> heap \<Rightarrow>
    addr option \<times> heap" where
  "removeFinalizer_mem copyOM copyC grow a h =
     (if \<not> containsString (slice_list strings h (gm_finalizers (gc_meta (claim_at h a)))) ClaimFinalizer then (None, h)
      else case DeepCopy_ENIClaim copyOM copyC (Some a) h of (base, h1) \<Rightarrow>
        case removeString_mem grow (gm_finalizers (gc_meta (claim_at h1 a))) ClaimFinalizer h1 of (fs, h2) \<Rightarrow>
          (base, set_finalizers a fs h2))"

definition ensure_finalizer_mem :: "GoObjectMeta copier \<Rightarrow> Condition copier \<Rightarrow> (nat \<Rightarrow> nat \<Rightarrow> nat) \<Rightarrow> addr \<Rightarrow> heap \<Rightarrow>
    addr option \<times> heap" where
  "ensure_finalizer_mem copyOM copyC grow a h =
     (if \<not> containsString (slice_list strings h (gm_finalizers (gc_meta (claim_at h a)))) ClaimFinalizer then
        case DeepCopy_ENIClaim copyOM copyC (Some a) h of (base, h1) \<Rightarrow>
          case append_list Strings strings '''' grow (gm_finalizers (gc_meta (claim_at h1 a))) [ClaimFinalizer] h1 of
            (fs, h2) \<Rightarrow> (base, set_finalizers a fs h2)
      else (None, h))"

text \<open>\<^verbatim>\<open>removeString\<close> works in the block of its argument.\<close>

lemma removeString_mem_correct:
  assumes ok: "slice_ok strings h (Some sl)" and run: "removeString_mem grow (Some sl) unwanted h = (r, h')"
  defines "F \<equiv> removeString (slice_list strings h (Some sl)) unwanted"
  shows "r = Some (sl\<lparr>sl_len := length F\<rparr>)" "slice_list strings h' r = F" "overwrites Strings (sl_array sl) h h'"
    "slice_list strings h' (Some sl) = F @ drop (length F) (slice_list strings h (Some sl))"
proof -
  let ?xs = "slice_list strings h (Some sl)"
  have le: "sl_len sl \<le> sl_cap sl" using ok by simp
  have len: "length F \<le> sl_len sl" using length_filter_le [of _ ?xs] ok by (simp add: F_def removeString_filter)
  have r: "r = Some (sl\<lparr>sl_len := length F\<rparr>)" "overwrites Strings (sl_array sl) h h'"
    "strings (h_cells h' (sl_array sl)) = take (sl_offset sl) (strings (h_cells h (sl_array sl))) @ F @
      drop (sl_offset sl + length F) (strings (h_cells h (sl_array sl)))"
    using strs.filter_into_correct [OF ok ok le _ order_refl, where p = "\<lambda>value. value \<noteq> unwanted" and
        zero = "''''" and grow = grow] run ok
    by (simp_all add: removeString_mem_def slice_empty_def F_def removeString_filter)
  then show "r = Some (sl\<lparr>sl_len := length F\<rparr>)" "slice_list strings h' r = F" "overwrites Strings (sl_array sl) h h'"
    using ok by simp_all
  show "slice_list strings h' (Some sl) = F @ drop (length F) ?xs"
    using r(3) ok len by (simp add: drop_take add.commute)
qed

section \<open>Writes that only concern strings\<close>

text \<open>The value of a claim depends on its own blocks; changing string slices only changes the finalizers.\<close>

definition claim_value :: "heap \<Rightarrow> addr \<Rightarrow> ENIClaim" where
  "claim_value h a = snd (view_ENIClaim h (claim_at h a))"

definition frame :: "heap \<Rightarrow> heap \<Rightarrow> bool" where
  "frame h h' \<longleftrightarrow> (\<forall>x<h_next h. times (h_cells h' x) = times (h_cells h x) \<and>
     stringMaps (h_cells h' x) = stringMaps (h_cells h x) \<and>
     ownerReferences (h_cells h' x) = ownerReferences (h_cells h x) \<and>
     conditions (h_cells h' x) = conditions (h_cells h x))"

lemma view_ptr_cong:
  "(\<And>x. x \<in> fp_ptr sel plain_fp h p \<Longrightarrow> sel (h_cells h' x) = sel (h_cells h x)) \<Longrightarrow>
    view_ptr sel plain_view h' p = view_ptr sel plain_view h p"
  by (cases p) (simp_all add: view_ptr_def fp_ptr_def)

lemma view_slice_cong:
  "(\<And>x. x \<in> fp_slice sel plain_fp h s \<Longrightarrow> sel (h_cells h' x) = sel (h_cells h x)) \<Longrightarrow>
    view_slice sel plain_view h' s = view_slice sel plain_view h s"
  by (cases s) (simp_all add: view_slice_def fp_slice_def)

lemma claim_view_frame:
  assumes "fp_ENIClaim h c \<subseteq> {..<h_next h}" "frame h h'"
  shows "view_ENIClaim h' (c\<lparr>gc_meta := (gc_meta c)\<lparr>gm_finalizers := fs\<rparr>\<rparr>) =
    (gc_type c, with_finalizers (slice_list strings h' fs) (snd (view_ENIClaim h c)))"
proof -
  let ?m = "gc_meta c"
  have fp: "fp_ptr times plain_fp h (gm_deletionTimestamp ?m) \<subseteq> {..<h_next h}"
    "fp_ptr stringMaps plain_fp h (gm_annotations ?m) \<subseteq> {..<h_next h}"
    "fp_ptr stringMaps plain_fp h (gm_labels ?m) \<subseteq> {..<h_next h}"
    "fp_slice ownerReferences plain_fp h (gm_ownerReferences ?m) \<subseteq> {..<h_next h}"
    "fp_slice conditions plain_fp h (gcs_conditions (gc_status c)) \<subseteq> {..<h_next h}"
    using assms(1) by (simp_all add: fp_ENIClaim_def fp_ObjectMeta_def fp_ENIClaimStatus_def)
  have "view_ptr times plain_view h' (gm_deletionTimestamp ?m) = view_ptr times plain_view h (gm_deletionTimestamp ?m)"
    "view_ptr stringMaps plain_view h' (gm_annotations ?m) = view_ptr stringMaps plain_view h (gm_annotations ?m)"
    "view_ptr stringMaps plain_view h' (gm_labels ?m) = view_ptr stringMaps plain_view h (gm_labels ?m)"
    by (rule view_ptr_cong, use assms(2) fp in \<open>auto simp: frame_def\<close>)+
  moreover have "view_slice ownerReferences plain_view h' (gm_ownerReferences ?m) =
      view_slice ownerReferences plain_view h (gm_ownerReferences ?m)"
    "view_slice conditions plain_view h' (gcs_conditions (gc_status c)) =
      view_slice conditions plain_view h (gcs_conditions (gc_status c))"
    by (rule view_slice_cong, use assms(2) fp in \<open>auto simp: frame_def\<close>)+
  ultimately show ?thesis
    by (simp add: view_ENIClaim_def view_ObjectMeta_def view_ENIClaimStatus_def with_finalizers_def view_slice_def)
qed

text \<open>Blocks are typed: a block that shows elements of one type shows none of another.\<close>

lemma strings_cell: "strings c \<noteq> [] \<Longrightarrow> \<exists>xs. c = Strings xs"
  by (cases c) (simp_all add: strings_def)

lemma claims_cell: "eniClaims c \<noteq> [] \<Longrightarrow> \<exists>xs. c = ENIClaims xs"
  by (cases c) (simp_all add: eniClaims_def)

text \<open>
  Between the deep copy and the patch, the strings of the claim or of new blocks are written, then the
  field of the claim. The arguments of the patch are then the claim as it was and with the new
  finalizers.
\<close>

context apimachinery
begin

lemma patch_args:
  assumes live: "live (ok_ptr eniClaims ok_ENIClaim) (fp_ptr eniClaims fp_ENIClaim) h (Some a)"
    and copy: "DeepCopy_ENIClaim copyOM copyC (Some a) h = (base, h1)"
    and step: "\<And>x. x < h_next h1 \<Longrightarrow> h_cells h2 x = h_cells h1 x \<or>
        (x < h_next h \<and> (\<exists>xs ys. h_cells h1 x = Strings xs \<and> h_cells h2 x = Strings ys))"
  shows "\<exists>b. base = Some b \<and> claim_value (set_finalizers a fs h2) b = claim_value h a"
    and "claim_value (set_finalizers a fs h2) a = with_finalizers (slice_list strings h2 fs) (claim_value h a)"
proof -
  let ?h3 = "set_finalizers a fs h2"
  note c = claim.ptr.contract [OF live copy [unfolded DeepCopy_ENIClaim_def]]
  from copy obtain b where b: "base = Some b"
    by (auto simp: DeepCopy_ENIClaim_def deep_copy_ptr_def split: prod.splits)
  have a: "a < h_next h" "ok_ENIClaim h (claim_at h a)" "fp_ENIClaim h (claim_at h a) \<subseteq> {..<h_next h}"
    "eniClaims (h_cells h a) \<noteq> []"
    using live by (auto simp: live_def ok_ptr_def fp_ptr_def claim_at_def)
  then obtain cs where cs: "h_cells h a = ENIClaims cs" using claims_cell by blast
  have old1: "h_cells h1 x = h_cells h x" if "x < h_next h" for x using c that by (simp add: same_on_def)
  have next1: "h_next h \<le> h_next h1"
    using claim.ptr.copies [OF live copy [unfolded DeepCopy_ENIClaim_def]] by (simp add: grows_def)
  then have old2: "h_cells h2 x = h_cells h x \<or> (\<exists>xs ys. h_cells h x = Strings xs \<and> h_cells h2 x = Strings ys)"
    if "x < h_next h" for x using step [of x] old1 [OF that] that by auto
  from old2 [OF a(1)] cs have at2: "h_cells h2 a = ENIClaims cs" by simp
  have "claim_at h2 a = claim_at h a" by (simp add: claim_at_def at2 cs)
  then have at3: "claim_at ?h3 a = (claim_at h a)\<lparr>gc_meta := (gc_meta (claim_at h a))\<lparr>gm_finalizers := fs\<rparr>\<rparr>"
    by (simp add: set_finalizers_def claim_at_def block_defs)
  have cells3: "h_cells ?h3 x = (if x = a then ENIClaims [claim_at ?h3 a] else h_cells h2 x)" for x
    by (simp add: set_finalizers_def claim_at_def block_defs)
  have "frame h ?h3" unfolding frame_def
  proof (intro allI impI)
    fix x assume "x < h_next h"
    with old2 [OF this] cs show "times (h_cells ?h3 x) = times (h_cells h x) \<and>
        stringMaps (h_cells ?h3 x) = stringMaps (h_cells h x) \<and>
        ownerReferences (h_cells ?h3 x) = ownerReferences (h_cells h x) \<and> conditions (h_cells ?h3 x) = conditions (h_cells h x)"
      by (auto simp: cells3 times_def stringMaps_def ownerReferences_def conditions_def)
  qed
  moreover have "strings (h_cells ?h3 x) = strings (h_cells h2 x)" for x using at2 by (simp add: cells3 strings_def)
  then have "slice_list strings ?h3 fs = slice_list strings h2 fs" by (cases fs) simp_all
  ultimately show "claim_value ?h3 a = with_finalizers (slice_list strings h2 fs) (claim_value h a)"
    using claim_view_frame [OF a(3)] by (simp add: claim_value_def at3)
  have "same_on (fp_ptr eniClaims fp_ENIClaim h1 base) h1 ?h3" unfolding same_on_def
  proof
    fix x assume x: "x \<in> fp_ptr eniClaims fp_ENIClaim h1 base"
    then have "\<not> x < h_next h" "x < h_next h1"
      using c claim.ptr.copies [OF live copy [unfolded DeepCopy_ENIClaim_def]] by (auto simp: live_def)
    with step [of x] a(1) show "h_cells ?h3 x = h_cells h1 x" by (auto simp: cells3)
  qed
  from claim.ptr.independent(3) [OF live copy [unfolded DeepCopy_ENIClaim_def] this]
  have "claim_value ?h3 b = claim_value h a" by (simp add: b view_ptr_def claim_value_def claim_at_def)
  with b show "\<exists>b. base = Some b \<and> claim_value ?h3 b = claim_value h a" by simp
qed

end

section \<open>The patches of a claim\<close>

text \<open>The early return, and the patch of \<open>base\<close> to the claim.\<close>

definition patch_of :: "'s ports \<Rightarrow> addr \<Rightarrow> addr \<Rightarrow> heap \<Rightarrow> 's \<Rightarrow> (api_error + ENIClaim) \<times> 's" where
  "patch_of P base a h s = p_patch_claim P (claim_value h base) (claim_value h a) s"

abbreviation live_claim :: "heap \<Rightarrow> addr option \<Rightarrow> bool" where
  "live_claim \<equiv> live (ok_ptr eniClaims ok_ENIClaim) (fp_ptr eniClaims fp_ENIClaim)"

lemma claim_value_finalizers:
  "claim_finalizers (claim_value h a) = slice_list strings h (gm_finalizers (gc_meta (claim_at h a)))"
  by (simp add: claim_value_def view_ENIClaim_def view_ObjectMeta_def view_slice_def)

lemma live_claim_finalizers:
  "live_claim h (Some a) \<Longrightarrow> gm_finalizers (gc_meta (claim_at h a)) = Some sl \<Longrightarrow>
     slice_ok strings h (Some sl) \<and> sl_array sl < h_next h"
  by (auto simp: live_def ok_ptr_def fp_ptr_def claim_at_def ok_ENIClaim_def ok_ObjectMeta_def ok_slice_def
    fp_ENIClaim_def fp_ObjectMeta_def fp_slice_def)

lemma overwrites_strings:
  assumes "overwrites Strings n h1 h2" "strings (h_cells h1 n) \<noteq> []"
  shows "h_cells h2 x = h_cells h1 x \<or> (x = n \<and> (\<exists>xs ys. h_cells h1 x = Strings xs \<and> h_cells h2 x = Strings ys))"
  using assms(1) strings_cell [OF assms(2)] by (cases "x = n") (auto simp: overwrites_def)

context apimachinery
begin

text \<open>Before the slice is written, the deep copy has left the claim and its finalizers as they were.\<close>

lemma after_copy:
  assumes live: "live_claim h (Some a)" and copy: "DeepCopy_ENIClaim copyOM copyC (Some a) h = (base, h1)"
  shows "h_next h \<le> h_next h1" "claim_at h1 a = claim_at h a"
    "\<And>sl. gm_finalizers (gc_meta (claim_at h a)) = Some sl \<Longrightarrow> slice_ok strings h1 (Some sl) \<and> sl_array sl < h_next h \<and>
       slice_list strings h1 (Some sl) = slice_list strings h (Some sl)"
proof -
  have g: "grows h h1" using claim.ptr.copies [OF live copy [unfolded DeepCopy_ENIClaim_def]] by simp
  then show "h_next h \<le> h_next h1" by (simp add: grows_def)
  have same: "h_cells h1 x = h_cells h x" if "x < h_next h" for x using g that by (simp add: grows_def same_on_def)
  have "a < h_next h" using live by (simp add: live_def fp_ptr_def)
  then show "claim_at h1 a = claim_at h a" by (simp add: claim_at_def same)
  show "slice_ok strings h1 (Some sl) \<and> sl_array sl < h_next h \<and>
       slice_list strings h1 (Some sl) = slice_list strings h (Some sl)"
    if "gm_finalizers (gc_meta (claim_at h a)) = Some sl" for sl
    using live_claim_finalizers [OF live that] by (simp add: same)
qed

lemma removeFinalizer_mem_args:
  assumes live: "live_claim h (Some a)" and run: "removeFinalizer_mem copyOM copyC grow a h = (base, h')"
    and "ClaimFinalizer \<in> set (claim_finalizers (claim_value h a))"
  shows "\<exists>b. base = Some b \<and> claim_value h' b = claim_value h a \<and>
    claim_value h' a = with_finalizers (removeString (claim_finalizers (claim_value h a)) ClaimFinalizer) (claim_value h a)"
proof -
  let ?fs = "gm_finalizers (gc_meta (claim_at h a))"
  from assms(3) obtain sl where sl: "?fs = Some sl" "ClaimFinalizer \<in> set (slice_list strings h (Some sl))"
    by (cases ?fs) (simp_all add: claim_value_finalizers)
  obtain h1 where copy: "DeepCopy_ENIClaim copyOM copyC (Some a) h = (base, h1)"
    using run assms(3) by (auto simp: removeFinalizer_mem_def claim_value_finalizers [symmetric] split: prod.splits)
  note after = after_copy [OF live copy]
  obtain r h2 where rm: "removeString_mem grow (Some sl) ClaimFinalizer h1 = (r, h2)" by force
  have h': "h' = set_finalizers a r h2"
    using run sl copy rm after(2) by (simp add: removeFinalizer_mem_def)
  note ok = after(3) [OF sl(1)]
  note r = removeString_mem_correct [OF conjunct1 [OF ok] rm]
  have "strings (h_cells h1 (sl_array sl)) \<noteq> []" using sl(2) ok by auto
  note step = overwrites_strings [OF r(3) this]
  have "h_cells h2 x = h_cells h1 x \<or>
      (x < h_next h \<and> (\<exists>xs ys. h_cells h1 x = Strings xs \<and> h_cells h2 x = Strings ys))" for x
    using step [of x] ok by auto
  note args = patch_args [OF live copy this, of r]
  have "slice_list strings h2 r = removeString (claim_finalizers (claim_value h a)) ClaimFinalizer"
    using r(2) ok sl(1) by (simp add: claim_value_finalizers)
  with args show ?thesis by (auto simp: h')
qed

lemma ensure_finalizer_mem_args:
  assumes live: "live_claim h (Some a)" and run: "ensure_finalizer_mem copyOM copyC grow a h = (base, h')"
    and "ClaimFinalizer \<notin> set (claim_finalizers (claim_value h a))"
  shows "\<exists>b. base = Some b \<and> claim_value h' b = claim_value h a \<and>
    claim_value h' a = with_finalizers (claim_finalizers (claim_value h a) @ [ClaimFinalizer]) (claim_value h a)"
proof -
  let ?fs = "gm_finalizers (gc_meta (claim_at h a))"
  obtain h1 where copy: "DeepCopy_ENIClaim copyOM copyC (Some a) h = (base, h1)"
    using run assms(3) by (auto simp: ensure_finalizer_mem_def claim_value_finalizers [symmetric] split: prod.splits)
  note after = after_copy [OF live copy]
  obtain r h2 where ap: "append_list Strings strings '''' grow ?fs [ClaimFinalizer] h1 = (r, h2)" by force
  have h': "h' = set_finalizers a r h2"
    using run assms(3) copy ap after(2) by (simp add: ensure_finalizer_mem_def claim_value_finalizers [symmetric])
  have ok: "slice_ok strings h1 ?fs" "slice_list strings h1 ?fs = slice_list strings h ?fs"
    using after(3) by (cases ?fs; simp)+
  have "h_cells h2 x = h_cells h1 x \<or>
      (x < h_next h \<and> (\<exists>xs ys. h_cells h1 x = Strings xs \<and> h_cells h2 x = Strings ys))" if x: "x < h_next h1" for x
  proof (cases "\<exists>sl. ?fs = Some sl \<and> sl_len sl < sl_cap sl")
    case True
    then obtain sl where sl: "?fs = Some sl" "sl_len sl < sl_cap sl" by blast
    then have "overwrites Strings (sl_array sl) h1 h2"
      using ap ok(1) by (auto simp: append_list_def Let_def overwrites_def)
    moreover have "strings (h_cells h1 (sl_array sl)) \<noteq> []" using sl ok(1) by auto
    ultimately show ?thesis using overwrites_strings after(3) [OF sl(1)] by blast
  next
    case False
    then have "\<exists>n xs. append_new Strings '''' n xs h1 = (r, h2)"
      using ap ok(1) by (auto simp: append_list_def Let_def split: option.splits if_splits)
    then have "grows h1 h2" using strs.append_new_correct by blast
    with x show ?thesis by (simp add: grows_def same_on_def)
  qed
  note args = patch_args [OF live copy this, of r]
  have "slice_list strings h2 r = claim_finalizers (claim_value h a) @ [ClaimFinalizer]"
    using strs.append_correct(1) [OF ap ok(1)] ok(2) by (simp add: claim_value_finalizers)
  with args show ?thesis by (auto simp: h')
qed

end

text \<open>A claim with three finalizers, in the middle its own, as it comes from the API.\<close>

definition ex_claim_heap :: heap where
  "ex_claim_heap = \<lparr>h_next = 2, h_cells = (\<lambda>x.
     if x = 0 then Strings [''a'', ClaimFinalizer, ''b'']
     else if x = 1 then ENIClaims [\<lparr>gc_type = 0, gc_meta = \<lparr>gm_name = ''eni-0123'', gm_namespace = '''', gm_generation = 1,
       gm_creationTimestamp = 0, gm_deletionTimestamp = None, gm_annotations = None, gm_labels = None,
       gm_finalizers = Some \<lparr>sl_array = 0, sl_offset = 0, sl_len = 3, sl_cap = 3\<rparr>, gm_ownerReferences = None\<rparr>,
       gc_spec = 0, gc_status = \<lparr>gcs_phase = '''', gcs_privateIP = '''', gcs_conditions = None\<rparr>\<rparr>]
     else Unused)\<rparr>"

lemma ex_claim_live: "live_claim ex_claim_heap (Some 1)"
  by (simp add: live_def ok_ptr_def fp_ptr_def ex_claim_heap_def eniClaims_def strings_def ok_ENIClaim_def fp_ENIClaim_def
    ok_ObjectMeta_def fp_ObjectMeta_def ok_ENIClaimStatus_def fp_ENIClaimStatus_def ok_slice_def fp_slice_def)

lemma ex_claim_finalizers: "claim_finalizers (claim_value ex_claim_heap 1) = [''a'', ClaimFinalizer, ''b'']"
  by (simp add: claim_value_finalizers claim_at_def ex_claim_heap_def eniClaims_def strings_def)

text \<open>
  C25: The patches of a claim are what the value model says: although the finalizers are changed in their
  own block, \<^verbatim>\<open>base\<close> still shows the claim as it was read, so the patch removes (or adds) exactly the
  finalizer of the controller.
\<close>
theorem finalizer_patches_refine:
  assumes "apimachinery copyOM copyLM copyC" and "live_claim h (Some a)"
  shows "removeFinalizer P (claim_value h a) s =
      (case removeFinalizer_mem copyOM copyC grow a h of
         (None, _) \<Rightarrow> (None, s)
       | (Some b, h') \<Rightarrow> (case patch_of P b a h' s of (Inl e, s') \<Rightarrow> (Some e, s') | (Inr _, s') \<Rightarrow> (None, s'))) \<and>
    ensure_finalizer P (claim_value h a) s =
      (case ensure_finalizer_mem copyOM copyC grow a h of
         (None, _) \<Rightarrow> (Inr (claim_value h a), s)
       | (Some b, h') \<Rightarrow> patch_of P b a h' s)"
proof (cases "ClaimFinalizer \<in> set (claim_finalizers (claim_value h a))")
  case True
  obtain base h' where run: "removeFinalizer_mem copyOM copyC grow a h = (base, h')" by force
  from apimachinery.removeFinalizer_mem_args [OF assms(1) assms(2) run True] True show ?thesis
    by (auto simp: run removeFinalizer_def ensure_finalizer_def ensure_finalizer_mem_def patch_of_def
      claim_value_finalizers [symmetric])
next
  case False
  obtain base h' where run: "ensure_finalizer_mem copyOM copyC grow a h = (base, h')" by force
  from apimachinery.ensure_finalizer_mem_args [OF assms(1) assms(2) run False] False show ?thesis
    by (auto simp: run removeFinalizer_def ensure_finalizer_def removeFinalizer_mem_def patch_of_def
      claim_value_finalizers [symmetric])
qed

theorem finalizer_patches_refine_witness:
  "case removeFinalizer_mem ref_copy_ObjectMeta plain_copy (\<lambda>_ n. n) 1 ex_claim_heap of
     (base, h') \<Rightarrow> base \<noteq> None \<and> (\<forall>P s. removeFinalizer P (claim_value ex_claim_heap 1) (s::nat) =
       (case patch_of P (the base) 1 h' s of (Inl e, s') \<Rightarrow> (Some e, s') | (Inr _, s') \<Rightarrow> (None, s')))"
proof -
  obtain base h' where run: "removeFinalizer_mem ref_copy_ObjectMeta plain_copy (\<lambda>_ n. n) 1 ex_claim_heap = (base, h')"
    by force
  have "ClaimFinalizer \<in> set (claim_finalizers (claim_value ex_claim_heap 1))"
    unfolding ex_claim_finalizers by simp
  from machinery.removeFinalizer_mem_args [OF ex_claim_live run this] obtain b where b: "base = Some b" by blast
  have "removeFinalizer P (claim_value ex_claim_heap 1) (s::nat) =
      (case patch_of P b 1 h' s of (Inl e, s') \<Rightarrow> (Some e, s') | (Inr _, s') \<Rightarrow> (None, s'))" for P s
    using conjunct1 [OF finalizer_patches_refine [OF machinery.apimachinery_axioms ex_claim_live,
        where P = P and s = s and grow = "\<lambda>_ n. n"]] unfolding run b by (simp del: One_nat_def)
  then show ?thesis by (simp add: run b del: One_nat_def)
qed

text \<open>
  \<^verbatim>\<open>removeString\<close> allocates nothing and stays inside the window of its argument: its result is the
  front of the same block, and the old header afterwards shows the kept strings followed by the old
  contents of the remaining places.
\<close>
theorem removeString_in_place:
  assumes "slice_ok strings h (Some sl)"
    and "removeString_mem grow (Some sl) unwanted h = (r, h')"
  shows "slice_list strings h' r = filter (\<lambda>v. v \<noteq> unwanted) (slice_list strings h (Some sl)) \<and>
    r = Some (sl\<lparr>sl_len := length (slice_list strings h' r)\<rparr>) \<and> length (slice_list strings h' r) \<le> sl_len sl \<and>
    slice_list strings h' (Some sl) =
      slice_list strings h' r @ drop (length (slice_list strings h' r)) (slice_list strings h (Some sl)) \<and>
    h_next h' = h_next h \<and> (\<forall>x. x \<noteq> sl_array sl \<longrightarrow> h_cells h' x = h_cells h x)"
proof -
  note r = removeString_mem_correct [OF assms]
  have "length (removeString (slice_list strings h (Some sl)) unwanted) \<le> sl_len sl"
    using length_filter_le [of "\<lambda>v. v \<noteq> unwanted" "slice_list strings h (Some sl)"] assms(1)
    by (simp add: removeString_filter)
  with r(1,4) show ?thesis
    using overwrites_other [OF r(3)] overwrites_next [OF r(3)] unfolding r(2)
    by (simp add: removeString_filter del: slice_list_simps)
qed

theorem removeString_in_place_witness:
  "\<exists>r h'. removeString_mem (\<lambda>_ n. n) (Some \<lparr>sl_array = 0, sl_offset = 0, sl_len = 3, sl_cap = 3\<rparr>) ClaimFinalizer
      ex_claim_heap = (r, h') \<and> slice_list strings h' r = [''a'', ''b''] \<and>
    slice_list strings h' (Some \<lparr>sl_array = 0, sl_offset = 0, sl_len = 3, sl_cap = 3\<rparr>) = [''a'', ''b'', ''b'']"
proof -
  let ?sl = "\<lparr>sl_array = 0, sl_offset = 0, sl_len = 3, sl_cap = 3\<rparr>"
  obtain r h' where run: "removeString_mem (\<lambda>_ n. n) (Some ?sl) ClaimFinalizer ex_claim_heap = (r, h')" by force
  have ok: "slice_ok strings ex_claim_heap (Some ?sl)" by (simp add: ex_claim_heap_def strings_def)
  have l: "slice_list strings ex_claim_heap (Some ?sl) = [''a'', ClaimFinalizer, ''b'']"
    by (simp add: ex_claim_heap_def strings_def)
  have ne: "''a'' \<noteq> ClaimFinalizer" "''b'' \<noteq> ClaimFinalizer" by (simp_all add: ClaimFinalizer_def)
  from removeString_in_place [OF ok run] have "slice_list strings h' r = [''a'', ''b'']"
    "slice_list strings h' (Some ?sl) = [''a'', ''b'', ''b'']"
    unfolding l by (simp_all add: ne numeral_2_eq_2 del: slice_list_simps)
  with run show ?thesis by blast
qed

section \<open>The candidates of an allocation\<close>

text \<open>
  \<^verbatim>\<open>claimInterface\<close> copies the interfaces of the pool, which may belong to the cache of the client, and
  with a key filters into \<^verbatim>\<open>configured[:0]\<close>; \<^verbatim>\<open>sort.Slice\<close> then sorts the result in place.
\<close>

definition candidates_mem :: "(nat \<Rightarrow> nat \<Rightarrow> nat) \<Rightarrow> string \<Rightarrow> go_slice \<Rightarrow> string \<Rightarrow> heap \<Rightarrow> (error + go_slice) \<times> heap" where
  "candidates_mem grow poolName interfaces interfaceKey h =
     (case append_list ENIReferences eniReferences 0 grow None (slice_list eniReferences h interfaces) h of
        (configured, h1) \<Rightarrow>
          if interfaceKey \<noteq> '''' then
            (case (case interfaces of
                     None \<Rightarrow> (slice_empty configured, h1)
                   | Some sl \<Rightarrow> filter_into ENIReferences eniReferences 0 grow (\<lambda>candidate. ref_key candidate = interfaceKey)
                       sl (slice_empty configured) [0..<sl_len sl] h1) of
               (configured', h2) \<Rightarrow>
                 if slice_list eniReferences h2 configured' = [] then (Inl (NoSuchKey poolName interfaceKey), h2)
                 else (Inr configured', h2))
          else (Inr configured, h1))"

text \<open>
  C29: The candidates are those of the value model, and they lie in memory that did not exist before: the
  interfaces of the pool, and whatever else the client's cache holds, stay as they are, also when the
  candidates are sorted in place.
\<close>
theorem candidates_refine:
  assumes "slice_ok eniReferences h interfaces" and "\<forall>sl. interfaces = Some sl \<longrightarrow> sl_array sl < h_next h"
    and "pool_interfaces pool = slice_list eniReferences h interfaces"
    and "candidates_mem grow (pool_name pool) interfaces interfaceKey h = (r, h')"
  shows "same_on {..<h_next h} h h' \<and>
    (case configured_for pool interfaceKey of
       Inl e \<Rightarrow> r = Inl e
     | Inr cs \<Rightarrow> \<exists>s. r = Inr s \<and> slice_list eniReferences h' s = cs \<and>
         (\<forall>sl. s = Some sl \<longrightarrow> h_next h \<le> sl_array sl))"
proof (cases "slice_list eniReferences h interfaces = []")
  case True
  then have "interfaces = None \<or> (\<exists>sl. interfaces = Some sl \<and> sl_len sl = 0)"
    using assms(1) by (cases interfaces) auto
  then show ?thesis using assms(3,4) True
    by (auto simp: candidates_mem_def append_list_def configured_for_def Let_def slice_empty_def split: if_splits)
next
  case False
  then obtain sl where sl: "interfaces = Some sl" by (cases interfaces) auto
  let ?xs = "slice_list eniReferences h (Some sl)"
  obtain c h1 where c: "append_new ENIReferences 0 (grow 0 (length ?xs)) ?xs h = (c, h1)" by force
  from eref.append_new_correct [OF c] obtain cl where cl: "c = Some cl" "grows h h1" "slice_list eniReferences h1 c = ?xs"
    "slice_ok eniReferences h1 c" "sl_array cl = h_next h" by blast
  have ap: "append_list ENIReferences eniReferences 0 grow None ?xs h = (c, h1)"
    using False sl c by (simp add: append_list_def Let_def)
  have ok: "slice_ok eniReferences h1 (Some sl)" "slice_list eniReferences h1 (Some sl) = ?xs" "sl_array cl \<noteq> sl_array sl"
    using assms(1,2) sl cl(2,5) by (simp_all add: grows_def same_on_def)
  show ?thesis
  proof (cases "interfaceKey = ''''")
    case True
    then show ?thesis using assms(3,4) sl ap cl by (auto simp: candidates_mem_def configured_for_def grows_def)
  next
    case key: False
    let ?p = "\<lambda>candidate. ref_key candidate = interfaceKey"
    obtain c' h2 where f: "filter_into ENIReferences eniReferences 0 grow ?p sl (Some (cl\<lparr>sl_len := 0\<rparr>)) [0..<sl_len sl] h1 = (c', h2)"
      by force
    have cap: "sl_len sl \<le> sl_cap cl"
      using cl(1,3,4) ok(1,2) slice_list_length [OF ok(1)] slice_list_length [of eniReferences h1 cl] by simp
    have out: "c' = Some (cl\<lparr>sl_len := length (filter ?p ?xs)\<rparr>)" "overwrites ENIReferences (sl_array cl) h1 h2"
      "slice_list eniReferences h2 c' = filter ?p ?xs"
      using eref.filter_into_correct [OF ok(1) cl(4) [unfolded cl(1)] cap disjI1 [OF ok(3)] order_refl,
          where p = ?p and zero = 0 and grow = grow] f ok cl by (simp_all add: min_def)
    have "same_on {..<h_next h} h h2"
      using cl(2,5) overwrites_other [OF out(2)] by (simp add: grows_def same_on_def)
    then show ?thesis using assms(3,4) sl ap cl key f out
      by (auto simp: candidates_mem_def configured_for_def Let_def slice_empty_def split: if_splits)
  qed
qed

definition ex_refs_heap :: heap where
  "ex_refs_heap = \<lparr>h_next = 1, h_cells = (\<lambda>x. if x = 0 then ENIReferences [edge_ref, core_ref] else Unused)\<rparr>"

theorem candidates_refine_witness:
  "\<exists>s h'. candidates_mem (\<lambda>_ n. n) ''pool-a'' (Some \<lparr>sl_array = 0, sl_offset = 0, sl_len = 2, sl_cap = 2\<rparr>) ''core-worker-1''
      ex_refs_heap = (Inr s, h') \<and> slice_list eniReferences h' s = [core_ref] \<and>
    h_cells h' 0 = ENIReferences [edge_ref, core_ref]"
proof -
  let ?sl = "\<lparr>sl_array = 0, sl_offset = 0, sl_len = 2, sl_cap = 2\<rparr>"
  obtain r h' where run: "candidates_mem (\<lambda>_ n. n) (pool_name ex_pool) (Some ?sl) ''core-worker-1'' ex_refs_heap = (r, h')"
    by force
  have "configured_for ex_pool ''core-worker-1'' = Inr [core_ref]"
    by (simp add: configured_for_def ex_pool_def edge_ref_def core_ref_def)
  moreover have "slice_ok eniReferences ex_refs_heap (Some ?sl)" "pool_interfaces ex_pool = slice_list eniReferences ex_refs_heap (Some ?sl)"
    by (simp_all add: ex_refs_heap_def eniReferences_def ex_pool_def)
  ultimately have "\<exists>s. r = Inr s \<and> slice_list eniReferences h' s = [core_ref]" "same_on {..<h_next ex_refs_heap} ex_refs_heap h'"
    using candidates_refine [OF _ _ _ run] by (auto simp: ex_refs_heap_def)
  moreover have "pool_name ex_pool = ''pool-a''" by (simp add: ex_pool_def meta_def)
  ultimately show ?thesis using run by (auto simp: same_on_def ex_refs_heap_def)
qed

end
