(* ===== verification/Allocation_Requests.thy ===== *)
theory Allocation_Requests
  imports Example_World
begin

text \<open>
  The CREATE requests that an allocation makes: what the API server's validation says to them, how many
  there are and in which order. The requests are observed through the \<open>create\<close> port that the
  allocation is given: \<open>admitted\<close> puts the validation of the CRD and of the claim webhook before it,
  \<open>logged\<close> keeps the names that were asked for.
\<close>

definition admitted :: "(ENIClaim \<Rightarrow> 's \<Rightarrow> (api_error + ENIClaim) \<times> 's) \<Rightarrow> ENIClaim \<Rightarrow> 's \<Rightarrow> (api_error + ENIClaim) \<times> 's"
where
  "admitted create c s =
     (if crd_ENIClaimSpec (claim_spec c) \<and> ValidateCreate_ENIClaim c = None then create c s
      else (Inl (OtherError ''Invalid''), s))"

definition logged :: "(ENIClaim \<Rightarrow> 's \<Rightarrow> (api_error + ENIClaim) \<times> 's) \<Rightarrow> ENIClaim \<Rightarrow> 's \<times> string list \<Rightarrow>
    (api_error + ENIClaim) \<times> ('s \<times> string list)" where
  "logged create c t = (case create c (fst t) of (r, s) \<Rightarrow> (r, (s, snd t @ [claim_name c])))"

lemma new_claim_admissible:
  "crd_ENIReference r \<Longrightarrow> pool \<noteq> '''' \<Longrightarrow>
    crd_ENIClaimSpec (claim_spec (new_claim m pool r)) \<and> ValidateCreate_ENIClaim (new_claim m pool r) = None"
  by (simp add: new_claim_def crd_ENIClaimSpec_def crd_ENIReference_def ValidateCreate_ENIClaim_def)

lemma create_first_admitted:
  "list_all crd_ENIReference rs \<Longrightarrow> pool \<noteq> '''' \<Longrightarrow>
    create_first (admitted create) m pool rs s = create_first create m pool rs s"
proof (induction rs arbitrary: s)
  case (Cons r rs)
  then have "admitted create (new_claim m pool r) s = create (new_claim m pool r) s"
    using new_claim_admissible [of r pool m] by (simp add: admitted_def)
  with Cons show ?case by (auto split: prod.split sum.split)
qed simp

lemma create_first_logged:
  "create_first (logged create) m pool rs (s, log) = (r, (s', log')) \<Longrightarrow>
    (\<exists>n \<le> length rs. log' = log @ map ref_id (take n rs)) \<and> create_first create m pool rs s = (r, s')"
proof (induction rs arbitrary: s log)
  case (Cons x rs)
  obtain o' t where c: "create (new_claim m pool x) s = (o', t)" by force
  then have l: "logged create (new_claim m pool x) (s, log) = (o', (t, log @ [ref_id x]))" by (simp add: logged_def)
  show ?case
  proof (cases "o' = Inl AlreadyExists")
    case True
    with l Cons.prems have "create_first (logged create) m pool rs (t, log @ [ref_id x]) = (r, (s', log'))" by simp
    from Cons.IH [OF this] obtain n where n: "n \<le> length rs" "log' = (log @ [ref_id x]) @ map ref_id (take n rs)"
      "create_first create m pool rs t = (r, s')" by blast
    with c True show ?thesis by (intro conjI exI [of _ "Suc n"]) simp_all
  next
    case False
    with c l Cons.prems show ?thesis by (intro conjI exI [of _ 1]) (auto split: sum.splits)
  qed
qed simp

text \<open>
  C23: The claims an allocation asks for are well-formed: for a pool that satisfies its CRD, none of its
  requests is rejected by the CRD of the claims or by the claim webhook, so it behaves as if there were no
  validation.
\<close>
theorem allocation_requests_valid:
  assumes "crd_ENIPoolSpec (pool_spec pool)" and "pool_name pool \<noteq> ''''"
  shows "allocate (admitted create) m pool k s = allocate create m pool k s"
proof (cases "configured_for pool k")
  case (Inr cfg)
  have "list_all crd_ENIReference (pool_interfaces pool)" using assms(1) by (simp add: crd_ENIPoolSpec_def)
  then have "list_all crd_ENIReference (sort_Slice ip_less cfg)"
    using configured_for_Inr [OF Inr] by (auto simp: list_all_iff go_sort.set_srt)
  with Inr show ?thesis by (simp add: allocate_def create_first_admitted [OF _ assms(2)])
qed (simp add: allocate_def)

theorem allocation_requests_valid_witness:
  "crd_ENIPoolSpec (pool_spec ex_pool) \<and>
   allocate (admitted srv_create_claim) (ex_ref ''a'') ex_pool '''' ex_world = allocate srv_create_claim (ex_ref ''a'') ex_pool '''' ex_world"
proof -
  have crd: "crd_ENIPoolSpec (pool_spec ex_pool)" by code_simp
  have "pool_name ex_pool \<noteq> ''''" by (simp add: ex_pool_def meta_def)
  then show ?thesis by (intro conjI crd allocation_requests_valid)
qed

text \<open>
  C24: An allocation ends after at most one CREATE for each candidate: on a valid pool the names it asks for
  are the first ones of the candidates in order of their addresses, without repetition, and no more than
  the pool has interfaces.
\<close>
theorem allocation_tries_each_once:
  assumes "allocate (logged create) m pool k (s, []) = (r, (s', log))" and "interfaces_ok (pool_interfaces pool)"
  shows "distinct log \<and> length log \<le> length (pool_interfaces pool) \<and> allocate create m pool k s = (r, s') \<and>
    (\<forall>cfg. configured_for pool k = Inr cfg \<longrightarrow> (\<exists>n. log = map ref_id (take n (sort_Slice ip_less cfg))))"
proof (cases "configured_for pool k")
  case (Inl e)
  with assms(1) show ?thesis by (simp add: allocate_def)
next
  case (Inr cfg)
  have sub: "length cfg \<le> length (pool_interfaces pool)" "distinct (map ref_id cfg)"
    using Inr assms(2) by (auto simp: configured_for_def Let_def interfaces_ok_def distinct_map_filter_key split: if_splits)
  from assms(1) Inr have "create_first (logged create) m (pool_name pool) (sort_Slice ip_less cfg) (s, []) = (r, (s', log))"
    by (simp add: allocate_def)
  from create_first_logged [OF this] obtain n where n: "n \<le> length (sort_Slice ip_less cfg)"
    "log = map ref_id (take n (sort_Slice ip_less cfg))"
    "create_first create m (pool_name pool) (sort_Slice ip_less cfg) s = (r, s')" by auto
  have "distinct (map ref_id (sort_Slice ip_less cfg))" using sub(2) by (simp add: go_sort.distinct_map_srt)
  then have "distinct log" by (simp add: n(2) flip: take_map)
  moreover have "length log \<le> length (pool_interfaces pool)"
    using n(1,2) sub(1) by (simp add: go_sort.length_srt)
  ultimately show ?thesis using n Inr by (auto simp: allocate_def)
qed

theorem allocation_tries_each_once_witness:
  "\<exists>r w log. allocate (logged srv_create_claim) (ex_ref ''a'') ex_pool '''' (ex_world, []) = (r, (w, log)) \<and> distinct log \<and> length log \<le> 2"
proof -
  obtain r w log where run: "allocate (logged srv_create_claim) (ex_ref ''a'') ex_pool '''' (ex_world, []) = (r, (w, log))"
    by (metis surj_pair)
  from allocation_tries_each_once [OF run ex_pool_ok] run show ?thesis by (auto simp: ex_pool_def)
qed

end
