(* ===== verification/Metrics.thy ===== *)
theory Metrics
  imports ENIPool_Controller AWSMachine_Controller
begin

text \<open>
  The metrics (\<^verbatim>\<open>internal/metrics/metrics.go\<close>): the two vectors, their registration when the package is
  initialised, and the updates that the pool reconciler and the machine reconciler make. The Prometheus
  client library is a parameter: \<open>metric_library\<close> states what it documents, \<open>None\<close> being a panic.
\<close>

section \<open>The vectors\<close>

datatype vec_kind = GaugeVec | CounterVec

record vec =
  vec_kind :: vec_kind
  vec_Name :: string
  vec_Help :: string
  vec_labels :: "string list"

definition PoolAvailableInterfaces :: vec where
  "PoolAvailableInterfaces = \<lparr>vec_kind = GaugeVec, vec_Name = ''capa_eni_pool_available_interfaces'',
     vec_Help = ''Number of currently available ENIs in an ENIPool.'', vec_labels = [''pool'', ''region'', ''vpc_id'']\<rparr>"

definition DynamicFallbacks :: vec where
  "DynamicFallbacks = \<lparr>vec_kind = CounterVec, vec_Name = ''capa_eni_dynamic_fallbacks_total'',
     vec_Help = ''Number of AWSMachines released to CAPA dynamic networking.'', vec_labels = [''reason'']\<rparr>"

lemmas vec_defs = PoolAvailableInterfaces_def DynamicFallbacks_def

section \<open>The library\<close>

text \<open>
  \<^verbatim>\<open>MustRegister\<close>, \<^verbatim>\<open>WithLabelValues(...).Set\<close>, \<^verbatim>\<open>WithLabelValues(...).Inc\<close>, and what is read back: the vectors
  that are registered and the value of each series.
\<close>

record 's metric_ops =
  mt_register :: "vec \<Rightarrow> 's \<Rightarrow> 's option"
  mt_set :: "vec \<Rightarrow> string list \<Rightarrow> nat \<Rightarrow> 's \<Rightarrow> 's option"
  mt_inc :: "vec \<Rightarrow> string list \<Rightarrow> 's \<Rightarrow> 's option"
  mt_registered :: "'s \<Rightarrow> vec set"
  mt_series :: "'s \<Rightarrow> string \<times> string list \<Rightarrow> nat"

text \<open>Names as the data model of Prometheus has them; label names have no colons.\<close>

definition name_char :: "char \<Rightarrow> bool" where
  "name_char c \<longleftrightarrow> is_alnum c \<or> c = CHR ''_''"

definition label_name :: "string \<Rightarrow> bool" where
  "label_name s \<longleftrightarrow> s \<noteq> [] \<and> list_all name_char s \<and> \<not> (CHR ''0'' \<le> hd s \<and> hd s \<le> CHR ''9'') \<and> take 2 s \<noteq> ''__''"

definition metric_name :: "string \<Rightarrow> bool" where
  "metric_name s \<longleftrightarrow> s \<noteq> [] \<and> list_all (\<lambda>c. name_char c \<or> c = CHR '':'') s \<and> \<not> (CHR ''0'' \<le> hd s \<and> hd s \<le> CHR ''9'')"

definition well_formed :: "vec \<Rightarrow> bool" where
  "well_formed v \<longleftrightarrow> metric_name (vec_Name v) \<and> list_all label_name (vec_labels v) \<and> distinct (vec_labels v)"

text \<open>
  A well-formed vector of a name that is not in use is registered; an update with one value for each
  label changes the series of these values and no other.
\<close>

locale metric_library =
  fixes M :: "'s metric_ops"
  assumes register_ok: "well_formed v \<Longrightarrow> vec_Name v \<notin> vec_Name ` mt_registered M s \<Longrightarrow>
          \<exists>s'. mt_register M v s = Some s' \<and> mt_registered M s' = insert v (mt_registered M s)"
    and set_ok: "vec_kind v = GaugeVec \<Longrightarrow> length vals = length (vec_labels v) \<Longrightarrow>
          \<exists>s'. mt_set M v vals x s = Some s' \<and> mt_series M s' = (mt_series M s)((vec_Name v, vals) := x)"
    and inc_ok: "vec_kind v = CounterVec \<Longrightarrow> length vals = length (vec_labels v) \<Longrightarrow>
          \<exists>s'. mt_inc M v vals s = Some s' \<and>
            mt_series M s' = (mt_series M s)((vec_Name v, vals) := mt_series M s (vec_Name v, vals) + 1)"

section \<open>The code\<close>

text \<open>\<open>init\<close> of the package, and the two statements of the reconcilers.\<close>

definition init_metrics :: "'s metric_ops \<Rightarrow> 's \<Rightarrow> 's option" where
  "init_metrics M s = Option.bind (mt_register M PoolAvailableInterfaces s) (mt_register M DynamicFallbacks)"

definition set_available :: "'s metric_ops \<Rightarrow> string \<Rightarrow> string \<Rightarrow> string \<Rightarrow> nat \<Rightarrow> 's \<Rightarrow> 's option" where
  "set_available M pool region vpc available s = mt_set M PoolAvailableInterfaces [pool, region, vpc] available s"

definition inc_fallbacks :: "'s metric_ops \<Rightarrow> string \<Rightarrow> 's \<Rightarrow> 's option" where
  "inc_fallbacks M reason s = mt_inc M DynamicFallbacks [reason] s"

text \<open>The state of the metrics: what the gauge and the counter show.\<close>

definition gauge :: "'s metric_ops \<Rightarrow> 's \<Rightarrow> string \<times> string \<times> string \<Rightarrow> nat" where
  "gauge M s = (\<lambda>(p, r, v). mt_series M s (vec_Name PoolAvailableInterfaces, [p, r, v]))"

definition fallbacks :: "'s metric_ops \<Rightarrow> 's \<Rightarrow> string \<Rightarrow> nat" where
  "fallbacks M s = (\<lambda>r. mt_series M s (vec_Name DynamicFallbacks, [r]))"

lemma vectors_well_formed: "well_formed PoolAvailableInterfaces" "well_formed DynamicFallbacks"
  by code_simp+

context metric_library
begin

lemma init_registers:
  assumes "vec_Name PoolAvailableInterfaces \<notin> vec_Name ` mt_registered M s" "vec_Name DynamicFallbacks \<notin> vec_Name ` mt_registered M s"
  shows "\<exists>s'. init_metrics M s = Some s' \<and>
    mt_registered M s' = {PoolAvailableInterfaces, DynamicFallbacks} \<union> mt_registered M s"
proof -
  obtain s1 where s1: "mt_register M PoolAvailableInterfaces s = Some s1"
    "mt_registered M s1 = insert PoolAvailableInterfaces (mt_registered M s)"
    using register_ok [OF vectors_well_formed(1) assms(1)] by blast
  have "vec_Name DynamicFallbacks \<noteq> vec_Name PoolAvailableInterfaces" by (simp add: vec_defs)
  with s1(2) assms(2) have "vec_Name DynamicFallbacks \<notin> vec_Name ` mt_registered M s1" by simp
  from register_ok [OF vectors_well_formed(2) this] s1 show ?thesis by (auto simp: init_metrics_def)
qed

lemma set_available_ok:
  "\<exists>s'. set_available M p r v x s = Some s' \<and> gauge M s' = (gauge M s)((p, r, v) := x) \<and> fallbacks M s' = fallbacks M s"
proof -
  obtain s' where "set_available M p r v x s = Some s'"
    "mt_series M s' = (mt_series M s)((vec_Name PoolAvailableInterfaces, [p, r, v]) := x)"
    using set_ok [of PoolAvailableInterfaces "[p, r, v]" x s] by (auto simp: set_available_def vec_defs)
  then show ?thesis by (auto simp: gauge_def fallbacks_def fun_eq_iff vec_defs)
qed

lemma inc_fallbacks_ok:
  "\<exists>s'. inc_fallbacks M r s = Some s' \<and> fallbacks M s' = (fallbacks M s)(r := fallbacks M s r + 1) \<and> gauge M s' = gauge M s"
proof -
  obtain s' where "inc_fallbacks M r s = Some s'"
    "mt_series M s' = (mt_series M s)((vec_Name DynamicFallbacks, [r]) := mt_series M s (vec_Name DynamicFallbacks, [r]) + 1)"
    using inc_ok [of DynamicFallbacks "[r]" s] by (auto simp: inc_fallbacks_def vec_defs)
  then show ?thesis by (auto simp: gauge_def fallbacks_def fun_eq_iff vec_defs)
qed

end

section \<open>A registry\<close>

text \<open>A registry in memory that behaves as documented.\<close>

record registry =
  rg_vecs :: "vec set"
  rg_series :: "string \<times> string list \<Rightarrow> nat"

definition memory_metrics :: "registry metric_ops" where
  "memory_metrics = \<lparr>
     mt_register = (\<lambda>v s. if well_formed v \<and> vec_Name v \<notin> vec_Name ` rg_vecs s
       then Some (s\<lparr>rg_vecs := insert v (rg_vecs s)\<rparr>) else None),
     mt_set = (\<lambda>v vals x s. if length vals = length (vec_labels v)
       then Some (s\<lparr>rg_series := (rg_series s)((vec_Name v, vals) := x)\<rparr>) else None),
     mt_inc = (\<lambda>v vals s. if length vals = length (vec_labels v)
       then Some (s\<lparr>rg_series := (rg_series s)((vec_Name v, vals) := rg_series s (vec_Name v, vals) + 1)\<rparr>) else None),
     mt_registered = rg_vecs, mt_series = rg_series\<rparr>"

interpretation memory_metrics: metric_library memory_metrics
  by unfold_locales (auto simp: memory_metrics_def)

section \<open>What the reconcilers report\<close>

text \<open>
  The metrics of the reference server are those of the library: its port for the gauge does what the
  statement of the pool reconciler does to the library's state, and so for the counter.
\<close>

lemma ports_are_updates:
  assumes "metric_library M"
  shows "w_available w = gauge M s \<Longrightarrow> \<exists>s'. set_available M p r v x s = Some s' \<and>
      w_available (p_set_available srv_ports p r v x w) = gauge M s'"
    and "w_fallbacks w = fallbacks M s \<Longrightarrow> \<exists>s'. inc_fallbacks M r s = Some s' \<and>
      w_fallbacks (p_inc_fallbacks srv_ports r w) = fallbacks M s'"
  using metric_library.set_available_ok [OF assms, of p r v x s] metric_library.inc_fallbacks_ok [OF assms, of r s]
  by (auto simp: srv_ports_def)

text \<open>
  The program's metrics are registered without a panic, no update panics, and they are kept apart: the
  gauge changes only in the series that is set, the counter only in the series that is increased.
\<close>

theorem metrics_never_panic:
  assumes "metric_library M" and "mt_registered M s = {}"
  shows "(\<exists>s'. init_metrics M s = Some s' \<and> mt_registered M s' = {PoolAvailableInterfaces, DynamicFallbacks}) \<and>
    (\<exists>s'. set_available M p r v x t = Some s' \<and> gauge M s' = (gauge M t)((p, r, v) := x) \<and> fallbacks M s' = fallbacks M t) \<and>
    (\<exists>s'. inc_fallbacks M why t = Some s' \<and> fallbacks M s' = (fallbacks M t)(why := fallbacks M t why + 1) \<and>
       gauge M s' = gauge M t)"
  using metric_library.init_registers [OF assms(1), of s] metric_library.set_available_ok [OF assms(1)]
    metric_library.inc_fallbacks_ok [OF assms(1)] assms(2) by simp

theorem metrics_never_panic_witness:
  "\<exists>s'. init_metrics memory_metrics \<lparr>rg_vecs = {}, rg_series = (\<lambda>_. 0)\<rparr> = Some s' \<and>
     rg_vecs s' = {PoolAvailableInterfaces, DynamicFallbacks}"
  using metrics_never_panic [OF memory_metrics.metric_library_axioms, of "\<lparr>rg_vecs = {}, rg_series = (\<lambda>_. 0)\<rparr>"]
  by (simp add: memory_metrics_def)

lemma pool_gauge:
  "w_available (snd (Reconcile_ENIPool srv_ports n w)) = (case srv_pools w n of
     None \<Rightarrow> w_available w
   | Some pool \<Rightarrow> (w_available w)((n, pool_region pool, pool_vpcID pool) :=
       available_count (claimByENI Map.empty (srv_list_claims w)) pool))"
proof (cases "srv_pools w n")
  case None
  then show ?thesis by (simp add: Reconcile_ENIPool_def srv_get_pool_def srv_pools_def)
next
  case (Some pool)
  have name: "pool_name pool = n" using srv_pool_api.pool_named [OF Some] .
  have get: "p_get_pool srv_ports w n = Inr pool" using Some by (simp add: srv_get_pool_def srv_pools_def)
  have status: "w_available (snd (srv_update_pool_status p u)) = w_available u" for p u
    by (simp add: srv_update_pool_status_def split: option.split)
  let ?u = "p_set_available srv_ports (pool_name pool) (pool_region pool) (pool_vpcID pool)
      (available_count (claimByENI Map.empty (srv_list_claims w)) pool) w"
  let ?p = "pool\<lparr>pool_status := inventory srv_ports (claimByENI Map.empty (srv_list_claims w)) pool\<rparr>"
  obtain e u' where update: "srv_update_pool_status ?p ?u = (e, u')" by (cases "srv_update_pool_status ?p ?u")
  have "snd (Reconcile_ENIPool srv_ports n w) = u'"
    unfolding Reconcile_ENIPool_eq [OF get srv_ports_simps(5)] srv_ports_simps(11) update
    by (simp split: option.split)
  moreover from status [of ?p ?u] update have "w_available u' = w_available ?u" by simp
  ultimately show ?thesis using Some name by (simp add: srv_ports_def)
qed

text \<open>
  C18: On any metrics library that keeps its contract, a pool reconciliation makes one update that does not
  panic: it sets the series of the pool's name, region and VPC to the number of interfaces without a
  claim, and leaves every other series, and the fallback counter, as they are. So the series of a pool that was
  deleted, or of the network a pool had before, is never removed or set to zero again.
\<close>
theorem pool_gauge_exact:
  assumes "metric_library M" and "w_available w = gauge M t" "w_fallbacks w = fallbacks M t" and "srv_pools w n = Some pool"
    and "claims_named (srv_claims w)"
  shows "\<exists>t'. set_available M n (pool_region pool) (pool_vpcID pool)
      (length (filter (\<lambda>x. srv_claims w (ref_id x) = None) (pool_interfaces pool))) t = Some t' \<and>
    w_available (snd (Reconcile_ENIPool srv_ports n w)) = gauge M t' \<and> fallbacks M t' = fallbacks M t \<and>
    (\<forall>series. series \<noteq> (n, pool_region pool, pool_vpcID pool) \<longrightarrow> gauge M t' series = gauge M t series)"
proof -
  have "claimByENI Map.empty (srv_list_claims w) = srv_claims w"
    by (rule claimByENI_claims [OF assms(5) srv_pool_api.claims_listed [OF srv_ports_simps(5)]])
  then have "w_available (snd (Reconcile_ENIPool srv_ports n w)) = (w_available w)((n, pool_region pool, pool_vpcID pool) :=
      length (filter (\<lambda>x. srv_claims w (ref_id x) = None) (pool_interfaces pool)))"
    by (simp add: pool_gauge assms(4) available_count_def)
  moreover obtain t' where "set_available M n (pool_region pool) (pool_vpcID pool)
      (length (filter (\<lambda>x. srv_claims w (ref_id x) = None) (pool_interfaces pool))) t = Some t'"
    "gauge M t' = (gauge M t)((n, pool_region pool, pool_vpcID pool) :=
      length (filter (\<lambda>x. srv_claims w (ref_id x) = None) (pool_interfaces pool)))" "fallbacks M t' = fallbacks M t"
    using metric_library.set_available_ok [OF assms(1)] by blast
  ultimately show ?thesis using assms(2) by auto
qed

theorem pool_gauge_exact_witness:
  "\<exists>t. set_available memory_metrics ''pool-a'' ''ap-northeast-2'' ''vpc-0123'' 2 \<lparr>rg_vecs = {}, rg_series = (\<lambda>_. 0)\<rparr> = Some t \<and>
     w_available (snd (Reconcile_ENIPool srv_ports ''pool-a'' ex_world)) = gauge memory_metrics t"
proof -
  have claims: "srv_claims ex_world = Map.empty" by (simp add: srv_claims_def ex_world_def empty_world_def)
  have w: "w_available ex_world = gauge memory_metrics \<lparr>rg_vecs = {}, rg_series = (\<lambda>_. 0)\<rparr>"
    "w_fallbacks ex_world = fallbacks memory_metrics \<lparr>rg_vecs = {}, rg_series = (\<lambda>_. 0)\<rparr>"
    by (simp_all add: ex_world_def empty_world_def gauge_def fallbacks_def memory_metrics_def fun_eq_iff)
  have pool: "srv_pools ex_world ''pool-a'' = Some ex_pool"
    by (simp add: srv_pools_def ex_world_def lookup_by_def) (simp add: ex_pool_def meta_def)
  have "claims_named (srv_claims ex_world)" by (simp add: claims claims_named_def)
  from pool_gauge_exact [OF memory_metrics.metric_library_axioms w pool this]
  have "\<exists>t. set_available memory_metrics ''pool-a'' (pool_region ex_pool) (pool_vpcID ex_pool)
       (length (filter (\<lambda>x. srv_claims ex_world (ref_id x) = None) (pool_interfaces ex_pool))) \<lparr>rg_vecs = {}, rg_series = (\<lambda>_. 0)\<rparr> = Some t \<and>
     w_available (snd (Reconcile_ENIPool srv_ports ''pool-a'' ex_world)) = gauge memory_metrics t" by auto
  moreover have "pool_region ex_pool = ''ap-northeast-2''" "pool_vpcID ex_pool = ''vpc-0123''"
    "length (filter (\<lambda>x. srv_claims ex_world (ref_id x) = None) (pool_interfaces ex_pool)) = 2"
    by (simp_all add: claims) (simp_all add: ex_pool_def)
  ultimately show ?thesis by simp
qed

text \<open>The gauge of a deleted pool.\<close>

lemma deleted_pool_gauge:
  "let w1 = snd (Reconcile_ENIPool srv_ports ''pool-a'' ex_world);
       w2 = snd (Reconcile_ENIPool srv_ports ''pool-a'' (w1\<lparr>w_pools := []\<rparr>))
   in w_available w2 (''pool-a'', ''ap-northeast-2'', ''vpc-0123'') = 2"
  by code_simp

end
