(* ===== verification/Scheme_Registration.thy ===== *)
theory Scheme_Registration
  imports Startup
begin

text \<open>
  The scheme: which Go types the client and the manager can handle. The package variables of
  \<^verbatim>\<open>api/v1alpha1/groupversion_info.go\<close>, the \<^verbatim>\<open>init\<close> functions of the two files of types, which register
  these, and \<^verbatim>\<open>init\<close> of \<^verbatim>\<open>cmd/main.go\<close>, which fills the scheme of the program or panics. The scheme and its
  builder (apimachinery) and the packages whose types are added (client-go, Cluster API, CAPA) are
  parameters; \<open>scheme_library\<close> and \<open>adds\<close> state what they document.
\<close>

section \<open>Types, kinds and outcomes\<close>

datatype gotype = GoType (gt_package: string) (gt_name: string)

type_synonym group_version = "string \<times> string"
type_synonym gvk = "group_version \<times> string"
type_synonym kinds = "gvk \<rightharpoonup> gotype"

text \<open>A call that changes a scheme returns, returns an error, or panics.\<close>

datatype 's outcome = Returned 's | Failed string | Panicked

fun and_then :: "'s outcome \<Rightarrow> ('s \<Rightarrow> 's outcome) \<Rightarrow> 's outcome" where
  "and_then (Returned s) f = f s"
| "and_then (Failed e) f = Failed e"
| "and_then Panicked f = Panicked"

text \<open>Two sets of kinds agree when no kind has different types in them.\<close>

definition compatible :: "kinds \<Rightarrow> kinds \<Rightarrow> bool" where
  "compatible m k \<longleftrightarrow> (\<forall>x a b. m x = Some a \<and> k x = Some b \<longrightarrow> a = b)"

definition kinds_of :: "group_version \<Rightarrow> gotype list \<Rightarrow> kinds" where
  "kinds_of gv ts = map_of (map (\<lambda>t. ((gv, gt_name t), t)) ts)"

lemma kinds_of_Some:
  assumes "distinct (map gt_name ts)"
  shows "kinds_of gv ts g = Some t \<longleftrightarrow> t \<in> set ts \<and> g = (gv, gt_name t)"
proof -
  have "map fst (map (\<lambda>t. ((gv, gt_name t), t)) ts) = map (Pair gv) (map gt_name ts)" by simp
  then have "distinct (map fst (map (\<lambda>t. ((gv, gt_name t), t)) ts))"
    using assms by (simp only: distinct_map [of "Pair gv"] inj_on_def) simp
  from map_of_eq_Some_iff [OF this] show ?thesis by (auto simp: kinds_of_def)
qed

lemma compatibleD: "compatible m k \<Longrightarrow> m x = Some a \<Longrightarrow> k x = Some b \<Longrightarrow> a = b"
  unfolding compatible_def by blast

lemma compatible_sym: "compatible m k \<Longrightarrow> compatible k m"
  unfolding compatible_def by metis

lemma compatible_empty [simp]: "compatible Map.empty k"
  by (simp add: compatible_def)

lemma add_compatible: "compatible m k \<Longrightarrow> (m ++ k) x = Some t \<longleftrightarrow> m x = Some t \<or> k x = Some t"
  using compatibleD [of m k x] by (cases "k x") (auto simp: map_add_def)

lemma compatible_addI: "compatible m k \<Longrightarrow> compatible n k \<Longrightarrow> compatible (m ++ n) k"
  unfolding compatible_def map_add_Some_iff by blast

lemma compatible_addD:
  assumes "compatible m (k ++ l)" "compatible k l"
  shows "compatible m k" "compatible m l"
  using assms(1) unfolding compatible_def [of m] add_compatible [OF assms(2)] by blast+

section \<open>The libraries\<close>

record ('s, 'b) scheme_ops =
  NewScheme :: 's
  AddKnownTypes :: "group_version \<Rightarrow> gotype list \<Rightarrow> 's \<Rightarrow> 's outcome"
  AddToGroupVersion :: "group_version \<Rightarrow> 's \<Rightarrow> 's outcome"
  known :: "'s \<Rightarrow> kinds"
  NewSchemeBuilder :: "('s \<Rightarrow> 's outcome) \<Rightarrow> 'b"
  Register :: "('s \<Rightarrow> 's outcome) \<Rightarrow> 'b \<Rightarrow> 'b"
  AddToScheme_of :: "'b \<Rightarrow> 's \<Rightarrow> 's outcome"

text \<open>A call that adds kinds to every scheme in which they have no other type.\<close>

definition adds :: "('s, 'b) scheme_ops \<Rightarrow> ('s \<Rightarrow> 's outcome) \<Rightarrow> kinds \<Rightarrow> bool" where
  "adds L f k \<longleftrightarrow> (\<forall>s. compatible (known L s) k \<longrightarrow> (\<exists>s'. f s = Returned s' \<and> known L s' = known L s ++ k))"

lemma addsE:
  assumes "adds L f k" "known L s = m" "compatible m k"
  obtains s' where "f s = Returned s'" "known L s' = m ++ k"
  using assms by (auto simp: adds_def)

text \<open>The kinds of the package \<^verbatim>\<open>meta/v1\<close> that every group version has.\<close>

definition metav1 :: string where "metav1 = ''k8s.io/apimachinery/pkg/apis/meta/v1''"

definition meta_kinds :: "string list" where
  "meta_kinds = [''WatchEvent'', ''ListOptions'', ''GetOptions'', ''DeleteOptions'', ''CreateOptions'', ''UpdateOptions'',
     ''PatchOptions'', ''Status'', ''APIVersions'', ''APIGroup'', ''APIGroupList'', ''APIResourceList'']"

text \<open>
  Types of different names are added under their names, unless the version is missing; a builder applies
  the functions registered with it, in their order, up to the first that fails.
\<close>

locale scheme_library =
  fixes L :: "('s, 'b) scheme_ops" and meta_types :: "group_version \<Rightarrow> kinds"
  assumes new: "known L (NewScheme L) = Map.empty"
    and known_types: "snd gv \<noteq> '''' \<Longrightarrow> distinct (map gt_name ts) \<Longrightarrow> adds L (AddKnownTypes L gv ts) (kinds_of gv ts)"
    and group_version: "adds L (AddToGroupVersion L gv) (meta_types gv)"
    and meta_types: "meta_types gv (gv', kind) = Some t \<Longrightarrow> gt_package t = metav1 \<and> kind \<in> set meta_kinds"
    and builder: "AddToScheme_of L (NewSchemeBuilder L f) s = f s"
    and register: "AddToScheme_of L (Register L g b) s = and_then (AddToScheme_of L b s) g"

lemma adds_and_then:
  assumes "adds L f k" "adds L g l" "compatible k l"
  shows "adds L (\<lambda>s. and_then (f s) g) (k ++ l)"
  unfolding adds_def
proof (intro allI impI)
  fix s
  assume c: "compatible (known L s) (k ++ l)"
  then have k: "compatible (known L s) k" "compatible (known L s) l"
    using compatible_addD [OF c assms(3)] by simp_all
  obtain s1 where s1: "f s = Returned s1" "known L s1 = known L s ++ k" using assms(1) k(1) by (auto simp: adds_def)
  have "compatible (known L s1) l" using compatible_addI [OF k(2) assms(3)] s1(2) by simp
  then obtain s2 where "g s1 = Returned s2" "known L s2 = known L s1 ++ l" using assms(2) by (auto simp: adds_def)
  with s1 show "\<exists>s'. and_then (f s) g = Returned s' \<and> known L s' = known L s ++ (k ++ l)" by simp
qed

section \<open>The package of the API types\<close>

definition v1alpha1 :: string where "v1alpha1 = ''github.com/ssu-dcn/capa-eni-controller/api/v1alpha1''"

definition SchemeGroupVersion :: group_version where
  "SchemeGroupVersion = (''networking.dcn.ssu.ac.kr'', ''v1alpha1'')"

definition GroupVersion :: group_version where
  "GroupVersion = SchemeGroupVersion"

definition SchemeBuilder :: "('s, 'b) scheme_ops \<Rightarrow> 'b" where
  "SchemeBuilder L = NewSchemeBuilder L (\<lambda>s. AddToGroupVersion L SchemeGroupVersion s)"

definition init_eniclaim :: "('s, 'b) scheme_ops \<Rightarrow> 'b \<Rightarrow> 'b" where
  "init_eniclaim L b = Register L (\<lambda>s. AddKnownTypes L SchemeGroupVersion [GoType v1alpha1 ''ENIClaim'', GoType v1alpha1 ''ENIClaimList''] s) b"

definition init_enipool :: "('s, 'b) scheme_ops \<Rightarrow> 'b \<Rightarrow> 'b" where
  "init_enipool L b = Register L (\<lambda>s. AddKnownTypes L SchemeGroupVersion [GoType v1alpha1 ''ENIPool'', GoType v1alpha1 ''ENIPoolList''] s) b"

text \<open>
  The variables of the package are initialised first, then its \<^verbatim>\<open>init\<close> functions run, in the order of the
  files. \<^verbatim>\<open>AddToScheme\<close> is a method value of the address of \<^verbatim>\<open>SchemeBuilder\<close>, made before the functions are
  registered: it applies the builder as it is when it is called.
\<close>

definition init_v1alpha1 :: "('s, 'b) scheme_ops \<Rightarrow> 'b" where
  "init_v1alpha1 L = init_enipool L (init_eniclaim L (SchemeBuilder L))"

definition AddToScheme :: "('s, 'b) scheme_ops \<Rightarrow> 's \<Rightarrow> 's outcome" where
  "AddToScheme L s = AddToScheme_of L (init_v1alpha1 L) s"

section \<open>The scheme of the program\<close>

text \<open>\<^verbatim>\<open>utilruntime.Must\<close> panics on an error; \<open>None\<close> is a panic.\<close>

definition Must :: "'s outcome \<Rightarrow> 's option" where
  "Must r = (case r of Returned s \<Rightarrow> Some s | _ \<Rightarrow> None)"

definition init_main :: "('s, 'b) scheme_ops \<Rightarrow> ('s \<Rightarrow> 's outcome) \<Rightarrow> ('s \<Rightarrow> 's outcome) \<Rightarrow> ('s \<Rightarrow> 's outcome) \<Rightarrow> 's option" where
  "init_main L clientgo clusterv1 infra =
     Option.bind (Must (clientgo (NewScheme L))) (\<lambda>s.
     Option.bind (Must (AddToScheme L s)) (\<lambda>s.
     Option.bind (Must (clusterv1 s)) (\<lambda>s.
     Must (infra s))))"

definition gvks :: "('s, 'b) scheme_ops \<Rightarrow> 's \<Rightarrow> gotype \<Rightarrow> gvk set" where
  "gvks L s t = {g. known L s g = Some t}"

text \<open>The types of the API package, and what \<^verbatim>\<open>AddToScheme\<close> adds.\<close>

definition own_types :: "gotype list" where
  "own_types = [GoType v1alpha1 ''ENIClaim'', GoType v1alpha1 ''ENIClaimList'', GoType v1alpha1 ''ENIPool'', GoType v1alpha1 ''ENIPoolList'']"

lemma own_names: "distinct (map gt_name own_types)"
  by (simp add: own_types_def)

definition own_kinds :: "(group_version \<Rightarrow> kinds) \<Rightarrow> kinds" where
  "own_kinds meta_types = meta_types SchemeGroupVersion ++ kinds_of SchemeGroupVersion own_types"

context scheme_library
begin

lemma meta_apart: "compatible (meta_types SchemeGroupVersion) (kinds_of SchemeGroupVersion own_types)"
proof -
  have "kind \<notin> set meta_kinds" if "kinds_of SchemeGroupVersion own_types (gv, kind) = Some t" for gv kind t
    using map_of_SomeD [OF that [unfolded kinds_of_def]] by (auto simp: own_types_def meta_kinds_def)
  moreover have "kind \<in> set meta_kinds" if "meta_types SchemeGroupVersion (gv, kind) = Some t" for gv kind t
    using meta_types [OF that] by simp
  ultimately show ?thesis unfolding compatible_def split_paired_All by blast
qed

lemma AddToScheme_adds: "adds L (AddToScheme L) (own_kinds meta_types)"
proof -
  let ?claim = "[GoType v1alpha1 ''ENIClaim'', GoType v1alpha1 ''ENIClaimList'']"
  let ?pool = "[GoType v1alpha1 ''ENIPool'', GoType v1alpha1 ''ENIPoolList'']"
  let ?k = "kinds_of SchemeGroupVersion"
  have split: "?k own_types = ?k ?claim ++ ?k ?pool"
    by (rule ext) (simp add: kinds_of_def own_types_def)
  have apart: "compatible (?k ?claim) (?k ?pool)"
    unfolding compatible_def kinds_of_def by simp
  have meta: "compatible (meta_types SchemeGroupVersion) (?k ?claim)" "compatible (meta_types SchemeGroupVersion) (?k ?pool)"
    using compatible_addD [OF _ apart] meta_apart unfolding split by blast+
  have version: "snd SchemeGroupVersion \<noteq> ''''" by (simp add: SchemeGroupVersion_def)
  have claim: "adds L (AddKnownTypes L SchemeGroupVersion ?claim) (?k ?claim)"
    and pool: "adds L (AddKnownTypes L SchemeGroupVersion ?pool) (?k ?pool)"
    using known_types [OF version] by simp_all
  have "AddToScheme L = (\<lambda>s. and_then (and_then (AddToGroupVersion L SchemeGroupVersion s)
      (AddKnownTypes L SchemeGroupVersion ?claim)) (AddKnownTypes L SchemeGroupVersion ?pool))"
    by (rule ext) (simp add: AddToScheme_def init_v1alpha1_def init_enipool_def init_eniclaim_def SchemeBuilder_def builder register)
  moreover have "adds L \<dots> ((meta_types SchemeGroupVersion ++ ?k ?claim) ++ ?k ?pool)"
    by (intro adds_and_then group_version claim pool meta compatible_addI apart)
  ultimately show ?thesis by (simp add: own_kinds_def split)
qed

lemma own_kinds_own: "gt_package t \<noteq> metav1 \<Longrightarrow> own_kinds meta_types g = Some t \<longleftrightarrow> t \<in> set own_types \<and> g = (SchemeGroupVersion, gt_name t)"
  using meta_types [of SchemeGroupVersion "fst g" "snd g" t] kinds_of_Some [of own_types SchemeGroupVersion g t]
  by (auto simp: own_kinds_def add_compatible [OF meta_apart] own_names)

end

section \<open>What the client and the manager are given\<close>

definition clusterv1_package :: string where "clusterv1_package = ''sigs.k8s.io/cluster-api/api/core/v1beta2''"
definition infra_package :: string where "infra_package = ''sigs.k8s.io/cluster-api-provider-aws/v2/api/v1beta2''"

text \<open>The types of the objects and lists that the handlers pass to the client.\<close>

definition cluster_types :: "gotype list" where
  "cluster_types = [GoType clusterv1_package ''Cluster'', GoType clusterv1_package ''Machine'']"

definition infra_types :: "gotype list" where
  "infra_types = [GoType infra_package ''AWSMachine'', GoType infra_package ''AWSCluster'']"

definition client_types :: "gotype list" where
  "client_types = own_types @ cluster_types @ infra_types"

text \<open>The type a controller or webhook is registered for.\<close>

definition registered_type :: "registration \<Rightarrow> gotype" where
  "registered_type r = (let kind = (case r of Controller kind _ \<Rightarrow> kind | Webhook kind _ _ \<Rightarrow> kind)
     in GoType (if kind = ''AWSMachine'' then infra_package else v1alpha1) kind)"

lemmas type_defs = client_types_def own_types_def cluster_types_def infra_types_def registered_type_def

text \<open>
  Each package adds its own types, and those of \<^verbatim>\<open>meta/v1\<close>; none adds kinds to the group of this program,
  and the types the program uses have one kind each.
\<close>

locale scheme_environment = scheme_library L meta_types
  for L :: "('s, 'b) scheme_ops" and meta_types :: "group_version \<Rightarrow> kinds" +
  fixes clientgo clusterv1 infra :: "'s \<Rightarrow> 's outcome" and clientgo_kinds clusterv1_kinds infra_kinds :: kinds
  assumes packages: "adds L clientgo clientgo_kinds" "adds L clusterv1 clusterv1_kinds" "adds L infra infra_kinds"
    and agree: "compatible clientgo_kinds clusterv1_kinds" "compatible clientgo_kinds infra_kinds"
      "compatible clusterv1_kinds infra_kinds" "compatible clientgo_kinds (meta_types gv)"
      "compatible (meta_types gv) clusterv1_kinds" "compatible (meta_types gv) infra_kinds"
    and own_group: "clientgo_kinds (SchemeGroupVersion, kind) = None" "clusterv1_kinds (SchemeGroupVersion, kind) = None"
      "infra_kinds (SchemeGroupVersion, kind) = None"
    and clientgo_packages: "clientgo_kinds g = Some t \<Longrightarrow> gt_package t \<notin> {v1alpha1, clusterv1_package, infra_package}"
    and clusterv1_packages: "clusterv1_kinds g = Some t \<Longrightarrow> gt_package t \<in> {clusterv1_package, metav1}"
    and infra_packages: "infra_kinds g = Some t \<Longrightarrow> gt_package t \<in> {infra_package, metav1}"
    and one_kind: "t \<in> set cluster_types \<Longrightarrow> \<exists>g. {x. clusterv1_kinds x = Some t} = {g}"
      "t \<in> set infra_types \<Longrightarrow> \<exists>g. {x. infra_kinds x = Some t} = {g}"
begin

lemma own_compatible:
  "compatible clientgo_kinds (own_kinds meta_types)" "compatible (own_kinds meta_types) clusterv1_kinds"
  "compatible (own_kinds meta_types) infra_kinds"
proof -
  have own: "compatible (kinds_of SchemeGroupVersion own_types) k" if "\<And>kind. k (SchemeGroupVersion, kind) = None" for k
    unfolding compatible_def kinds_of_Some [OF own_names] using that by auto
  show "compatible clientgo_kinds (own_kinds meta_types)" unfolding own_kinds_def
    by (rule compatible_sym, rule compatible_addI [OF compatible_sym [OF agree(4)] own]) (rule own_group)
  show "compatible (own_kinds meta_types) clusterv1_kinds" "compatible (own_kinds meta_types) infra_kinds"
    unfolding own_kinds_def by (rule compatible_addI [OF agree(5) own], rule own_group)
      (rule compatible_addI [OF agree(6) own], rule own_group)
qed

lemma program_scheme:
  "\<exists>s. init_main L clientgo clusterv1 infra = Some s \<and> (\<forall>g t. known L s g = Some t \<longleftrightarrow>
     clientgo_kinds g = Some t \<or> own_kinds meta_types g = Some t \<or> clusterv1_kinds g = Some t \<or> infra_kinds g = Some t)"
proof -
  let ?k1 = "clientgo_kinds ++ own_kinds meta_types" and ?k2 = "(clientgo_kinds ++ own_kinds meta_types) ++ clusterv1_kinds"
  obtain s1 where s1: "clientgo (NewScheme L) = Returned s1" "known L s1 = clientgo_kinds"
    using addsE [OF packages(1) new compatible_empty] by auto
  obtain s2 where s2: "AddToScheme L s1 = Returned s2" "known L s2 = ?k1"
    using addsE [OF AddToScheme_adds s1(2) own_compatible(1)] by blast
  have c2: "compatible ?k1 clusterv1_kinds" by (rule compatible_addI [OF agree(1) own_compatible(2)])
  obtain s3 where s3: "clusterv1 s2 = Returned s3" "known L s3 = ?k2"
    using addsE [OF packages(2) s2(2) c2] by blast
  have c3: "compatible ?k2 infra_kinds"
    by (rule compatible_addI [OF compatible_addI [OF agree(2) own_compatible(3)] agree(3)])
  obtain s4 where s4: "infra s3 = Returned s4" "known L s4 = ?k2 ++ infra_kinds"
    using addsE [OF packages(3) s3(2) c3] by blast
  have "init_main L clientgo clusterv1 infra = Some s4"
    by (simp add: init_main_def Must_def s1(1) s2(1) s3(1) s4(1))
  then show ?thesis
    using s4(2) add_compatible [OF own_compatible(1)] add_compatible [OF c2] add_compatible [OF c3] by auto
qed

lemma types_registered:
  assumes "init_main L clientgo clusterv1 infra = Some s"
  shows "t \<in> set own_types \<Longrightarrow> gvks L s t = {(SchemeGroupVersion, gt_name t)}"
    and "t \<in> set cluster_types \<union> set infra_types \<Longrightarrow> \<exists>g. gvks L s t = {g}"
proof -
  have known: "known L s g = Some t \<longleftrightarrow> clientgo_kinds g = Some t \<or> own_kinds meta_types g = Some t \<or>
      clusterv1_kinds g = Some t \<or> infra_kinds g = Some t" for g t
    using program_scheme assms by (metis option.inject)
  note packages = clientgo_packages [of _ t] clusterv1_packages [of _ t] infra_packages [of _ t] own_kinds_own [of t]
  have names: "distinct [v1alpha1, clusterv1_package, infra_package, metav1]"
    by (simp add: v1alpha1_def clusterv1_package_def infra_package_def metav1_def)
  show "gvks L s t = {(SchemeGroupVersion, gt_name t)}" if "t \<in> set own_types"
  proof -
    have t: "gt_package t = v1alpha1" using that by (auto simp: own_types_def)
    have "clientgo_kinds g \<noteq> Some t" "clusterv1_kinds g \<noteq> Some t" "infra_kinds g \<noteq> Some t" for g
      using packages(1-3) [of g] names t by auto
    then show ?thesis using that packages(4) names t by (simp add: gvks_def known)
  qed
  have clusters: "gvks L s t = {g. clusterv1_kinds g = Some t}" if "t \<in> set cluster_types"
  proof -
    have "gt_package t = clusterv1_package" using that by (auto simp: cluster_types_def)
    moreover from this have "t \<notin> set own_types" using names by (auto simp: own_types_def)
    ultimately have "clientgo_kinds g \<noteq> Some t" "infra_kinds g \<noteq> Some t" "own_kinds meta_types g \<noteq> Some t" for g
      using packages [of g] names by auto
    then show ?thesis by (simp add: gvks_def known)
  qed
  have infras: "gvks L s t = {g. infra_kinds g = Some t}" if "t \<in> set infra_types"
  proof -
    have "gt_package t = infra_package" using that by (auto simp: infra_types_def)
    moreover from this have "t \<notin> set own_types" using names by (auto simp: own_types_def)
    ultimately have "clientgo_kinds g \<noteq> Some t" "clusterv1_kinds g \<noteq> Some t" "own_kinds meta_types g \<noteq> Some t" for g
      using packages [of g] names by auto
    then show ?thesis by (simp add: gvks_def known)
  qed
  show "\<exists>g. gvks L s t = {g}" if "t \<in> set cluster_types \<union> set infra_types"
    using that clusters infras one_kind by auto
qed

end

lemma registered_types: "SetupWithManager r \<in> set (plan env f) \<Longrightarrow> registered_type r \<in> set client_types"
  by (auto simp: plan_def Let_def type_defs split: if_splits)

section \<open>A scheme in memory\<close>

definition add_kinds :: "(gvk \<times> gotype) list \<Rightarrow> kinds \<Rightarrow> kinds outcome" where
  "add_kinds l m = (if list_all (\<lambda>(g, t). m g = None \<or> m g = Some t) l then Returned (m ++ map_of l) else Panicked)"

definition named :: "group_version \<Rightarrow> gotype list \<Rightarrow> (gvk \<times> gotype) list" where
  "named gv ts = map (\<lambda>t. ((gv, gt_name t), t)) ts"

definition meta_named :: "group_version \<Rightarrow> (gvk \<times> gotype) list" where
  "meta_named gv = named gv (map (GoType metav1) meta_kinds)"

definition memory_scheme :: "(kinds, (kinds \<Rightarrow> kinds outcome) list) scheme_ops" where
  "memory_scheme = \<lparr>NewScheme = Map.empty,
     AddKnownTypes = (\<lambda>gv ts m. if snd gv = '''' then Panicked else add_kinds (named gv ts) m),
     AddToGroupVersion = (\<lambda>gv. add_kinds (meta_named gv)), known = (\<lambda>m. m),
     NewSchemeBuilder = (\<lambda>f. [f]), Register = (\<lambda>f fs. fs @ [f]), AddToScheme_of = (\<lambda>fs m. foldl and_then (Returned m) fs)\<rparr>"

lemma add_kinds_adds:
  assumes "distinct (map fst l)"
  shows "adds memory_scheme (add_kinds l) (map_of l)"
proof -
  have "m g = None \<or> m g = Some t" if "compatible m (map_of l)" "(g, t) \<in> set l" for m g t
    using compatibleD [OF that(1)] map_of_is_SomeI [OF assms that(2)] by (cases "m g") auto
  then have "list_all (\<lambda>(g, t). m g = None \<or> m g = Some t) l" if "compatible m (map_of l)" for m
    using that unfolding list_all_iff by blast
  then show ?thesis by (simp add: adds_def add_kinds_def memory_scheme_def)
qed

lemma named_keys: "distinct (map gt_name ts) \<Longrightarrow> distinct (map fst (named gv ts))"
  by (simp add: named_def distinct_map inj_on_def comp_def)

lemma meta_names: "distinct (map gt_name (map (GoType metav1) meta_kinds))"
  by (simp add: meta_kinds_def)

interpretation memory_scheme: scheme_library memory_scheme "\<lambda>gv. map_of (meta_named gv)"
proof
  show "snd gv \<noteq> '''' \<Longrightarrow> distinct (map gt_name ts) \<Longrightarrow> adds memory_scheme (AddKnownTypes memory_scheme gv ts) (kinds_of gv ts)" for gv ts
    using add_kinds_adds [OF named_keys, of ts gv] by (simp add: memory_scheme_def kinds_of_def named_def)
  from add_kinds_adds [OF named_keys [OF meta_names]]
  show "adds memory_scheme (AddToGroupVersion memory_scheme gv) (map_of (meta_named gv))" for gv
    by (simp add: memory_scheme_def meta_named_def)
  show "map_of (meta_named gv) (gv', kind) = Some t \<Longrightarrow> gt_package t = metav1 \<and> kind \<in> set meta_kinds" for gv gv' kind t
    by (drule map_of_SomeD) (auto simp: meta_named_def named_def)
qed (simp_all add: memory_scheme_def)

definition ex_clientgo :: "(gvk \<times> gotype) list" where
  "ex_clientgo = named ('''', ''v1'') [GoType ''k8s.io/api/core/v1'' ''Pod'', GoType ''k8s.io/api/core/v1'' ''Event'']"
definition ex_clusterv1 :: "(gvk \<times> gotype) list" where
  "ex_clusterv1 = named (''cluster.x-k8s.io'', ''v1beta2'') (cluster_types @ [GoType metav1 ''WatchEvent''])"
definition ex_infra :: "(gvk \<times> gotype) list" where
  "ex_infra = named (''infrastructure.cluster.x-k8s.io'', ''v1beta2'') (infra_types @ [GoType metav1 ''WatchEvent''])"

lemma named_Some:
  assumes "distinct (map gt_name ts)"
  shows "map_of (named gv ts) g = Some t \<longleftrightarrow> t \<in> set ts \<and> g = (gv, gt_name t)"
  using kinds_of_Some [OF assms, of gv g t] by (simp add: kinds_of_def named_def)

lemma ex_names:
  "distinct (map gt_name [GoType ''k8s.io/api/core/v1'' ''Pod'', GoType ''k8s.io/api/core/v1'' ''Event''])"
  "distinct (map gt_name (cluster_types @ [GoType metav1 ''WatchEvent'']))"
  "distinct (map gt_name (infra_types @ [GoType metav1 ''WatchEvent'']))"
  by (simp_all add: cluster_types_def infra_types_def)

lemma named_compatible:
  assumes "list_all (\<lambda>t. list_all (\<lambda>u. gt_name t = gt_name u \<longrightarrow> t = u) us) ts"
  shows "compatible (map_of (named gv ts)) (map_of (named gv' us))"
  using assms by (auto simp: compatible_def named_def list_all_iff dest!: map_of_SomeD)

lemma named_None: "gv \<noteq> gv' \<Longrightarrow> map_of (named gv ts) (gv', kind) = None"
  by (auto simp: named_def map_of_eq_None_iff)

lemma named_package: "map_of (named gv ts) g = Some t \<Longrightarrow> list_all (\<lambda>t. P (gt_package t)) ts \<Longrightarrow> P (gt_package t)"
  by (auto simp: named_def list_all_iff dest!: map_of_SomeD)

lemma ex_Some:
  "map_of ex_clientgo g = Some t \<longleftrightarrow>
     t \<in> {GoType ''k8s.io/api/core/v1'' ''Pod'', GoType ''k8s.io/api/core/v1'' ''Event''} \<and> g = (('''', ''v1''), gt_name t)"
  "map_of ex_clusterv1 g = Some t \<longleftrightarrow>
     t \<in> insert (GoType metav1 ''WatchEvent'') (set cluster_types) \<and> g = ((''cluster.x-k8s.io'', ''v1beta2''), gt_name t)"
  "map_of ex_infra g = Some t \<longleftrightarrow>
     t \<in> insert (GoType metav1 ''WatchEvent'') (set infra_types) \<and> g = ((''infrastructure.cluster.x-k8s.io'', ''v1beta2''), gt_name t)"
  unfolding ex_clientgo_def ex_clusterv1_def ex_infra_def
    named_Some [OF ex_names(1)] named_Some [OF ex_names(2)] named_Some [OF ex_names(3)] by auto

lemma ex_one_kind: "{g. m g = Some t} = {h}" if "\<And>g. m g = Some t \<longleftrightarrow> g = h" for m :: kinds and t h
  using that by simp

interpretation memory_environment: scheme_environment memory_scheme "\<lambda>gv. map_of (meta_named gv)"
  "add_kinds ex_clientgo" "add_kinds ex_clusterv1" "add_kinds ex_infra" "map_of ex_clientgo" "map_of ex_clusterv1" "map_of ex_infra"
proof
  show "adds memory_scheme (add_kinds ex_clientgo) (map_of ex_clientgo)"
    "adds memory_scheme (add_kinds ex_clusterv1) (map_of ex_clusterv1)"
    "adds memory_scheme (add_kinds ex_infra) (map_of ex_infra)"
    unfolding ex_clientgo_def ex_clusterv1_def ex_infra_def by (intro add_kinds_adds named_keys ex_names)+
next
  fix t
  show "t \<in> set cluster_types \<Longrightarrow> \<exists>g. {x. map_of ex_clusterv1 x = Some t} = {g}"
    "t \<in> set infra_types \<Longrightarrow> \<exists>g. {x. map_of ex_infra x = Some t} = {g}"
    by (intro exI, rule ex_one_kind, simp add: ex_Some)+
next
  show "compatible (map_of ex_clientgo) (map_of ex_clusterv1)" "compatible (map_of ex_clientgo) (map_of ex_infra)"
    "compatible (map_of ex_clusterv1) (map_of ex_infra)"
    unfolding ex_clientgo_def ex_clusterv1_def ex_infra_def
    by (rule named_compatible, simp add: cluster_types_def infra_types_def)+
next
  fix gv
  show "compatible (map_of ex_clientgo) (map_of (meta_named gv))" "compatible (map_of (meta_named gv)) (map_of ex_clusterv1)"
    "compatible (map_of (meta_named gv)) (map_of ex_infra)"
    unfolding ex_clientgo_def ex_clusterv1_def ex_infra_def meta_named_def
    by (rule named_compatible, simp add: cluster_types_def infra_types_def meta_kinds_def)+
next
  fix kind
  show "map_of ex_clientgo (SchemeGroupVersion, kind) = None" "map_of ex_clusterv1 (SchemeGroupVersion, kind) = None"
    "map_of ex_infra (SchemeGroupVersion, kind) = None"
    unfolding ex_clientgo_def ex_clusterv1_def ex_infra_def by (rule named_None, simp add: SchemeGroupVersion_def)+
next
  fix g t
  show "map_of ex_clientgo g = Some t \<Longrightarrow> gt_package t \<notin> {v1alpha1, clusterv1_package, infra_package}"
    unfolding ex_clientgo_def
    by (erule named_package) (simp add: v1alpha1_def clusterv1_package_def infra_package_def)
  show "map_of ex_clusterv1 g = Some t \<Longrightarrow> gt_package t \<in> {clusterv1_package, metav1}"
    unfolding ex_clusterv1_def by (erule named_package) (simp add: cluster_types_def)
  show "map_of ex_infra g = Some t \<Longrightarrow> gt_package t \<in> {infra_package, metav1}"
    unfolding ex_infra_def by (erule named_package) (simp add: infra_types_def)
qed

section \<open>The scheme is complete\<close>



end
