(* ===== verification/Permissions.thy ===== *)
theory Permissions
  imports Handler_Runs Scheme_Registration
begin

text \<open>
  What the program asks of the cluster it is deployed to: the permissions and the webhook configuration
  that the markers in the code declare (controller-gen makes the role and the configuration from them),
  compared with the requests of the handlers of \<open>Handler_Runs\<close> and with the registrations of \<open>Startup\<close>.
\<close>

section \<open>Rules\<close>

record rule =
  ru_groups :: "string list"
  ru_resources :: "string list"
  ru_verbs :: "string list"

type_synonym action = "string \<times> string \<times> string"

definition actions :: "rule list \<Rightarrow> action list" where
  "actions rs = concat (map (\<lambda>r. concat (map (\<lambda>g. concat (map (\<lambda>res. map (\<lambda>v. (g, res, v)) (ru_verbs r))
     (ru_resources r))) (ru_groups r))) rs)"

definition permits :: "rule list \<Rightarrow> action \<Rightarrow> bool" where
  "permits rs a \<longleftrightarrow> list_ex (\<lambda>r. case a of (g, res, v) \<Rightarrow>
     List.member (ru_groups r) g \<and> List.member (ru_resources r) res \<and> List.member (ru_verbs r) v) rs"

lemma permits_actions: "permits rs a \<longleftrightarrow> a \<in> set (actions rs)"
  by (cases a) (auto simp: permits_def actions_def list_ex_iff)

definition infra_group :: string where "infra_group = ''infrastructure.cluster.x-k8s.io''"
definition networking_group :: string where "networking_group = fst SchemeGroupVersion"

text \<open>The markers of the three controllers.\<close>

definition AWSMachine_rules :: "rule list" where
  "AWSMachine_rules = [
     \<lparr>ru_groups = [infra_group], ru_resources = [''awsmachines''],
       ru_verbs = [''get'', ''list'', ''watch'', ''create'', ''update'', ''patch'', ''delete'']\<rparr>,
     \<lparr>ru_groups = [infra_group], ru_resources = [''awsmachines/status''], ru_verbs = [''get'', ''update'', ''patch'']\<rparr>,
     \<lparr>ru_groups = [infra_group], ru_resources = [''awsmachines/finalizers''], ru_verbs = [''update'']\<rparr>,
     \<lparr>ru_groups = [''cluster.x-k8s.io''], ru_resources = [''machines'', ''clusters''], ru_verbs = [''get'', ''list'', ''watch'']\<rparr>,
     \<lparr>ru_groups = [infra_group], ru_resources = [''awsclusters''], ru_verbs = [''get'', ''list'', ''watch'']\<rparr>,
     \<lparr>ru_groups = [networking_group], ru_resources = [''enipools''], ru_verbs = [''get'', ''list'', ''watch'']\<rparr>,
     \<lparr>ru_groups = [networking_group], ru_resources = [''eniclaims''],
       ru_verbs = [''get'', ''list'', ''watch'', ''create'', ''delete'']\<rparr>,
     \<lparr>ru_groups = [''''], ru_resources = [''events''], ru_verbs = [''create'', ''patch'']\<rparr>]"

definition ENIClaim_rules :: "rule list" where
  "ENIClaim_rules = [
     \<lparr>ru_groups = [networking_group], ru_resources = [''eniclaims''],
       ru_verbs = [''get'', ''list'', ''watch'', ''create'', ''update'', ''patch'', ''delete'']\<rparr>,
     \<lparr>ru_groups = [networking_group], ru_resources = [''eniclaims/status''], ru_verbs = [''get'', ''update'', ''patch'']\<rparr>,
     \<lparr>ru_groups = [networking_group], ru_resources = [''eniclaims/finalizers''], ru_verbs = [''update'']\<rparr>,
     \<lparr>ru_groups = [networking_group], ru_resources = [''enipools''], ru_verbs = [''get'', ''list'', ''watch'']\<rparr>,
     \<lparr>ru_groups = [infra_group], ru_resources = [''awsmachines''], ru_verbs = [''get'', ''list'', ''watch'']\<rparr>]"

definition ENIPool_rules :: "rule list" where
  "ENIPool_rules = [
     \<lparr>ru_groups = [networking_group], ru_resources = [''enipools''],
       ru_verbs = [''get'', ''list'', ''watch'', ''create'', ''update'', ''patch'', ''delete'']\<rparr>,
     \<lparr>ru_groups = [networking_group], ru_resources = [''enipools/status''], ru_verbs = [''get'', ''update'', ''patch'']\<rparr>,
     \<lparr>ru_groups = [networking_group], ru_resources = [''enipools/finalizers''], ru_verbs = [''update'']\<rparr>]"

text \<open>The role that is deployed, \<^verbatim>\<open>config/rbac/role.yaml\<close>.\<close>

definition manager_role :: "rule list" where
  "manager_role = [
     \<lparr>ru_groups = [''''], ru_resources = [''events''], ru_verbs = [''create'', ''patch'']\<rparr>,
     \<lparr>ru_groups = [''cluster.x-k8s.io''], ru_resources = [''clusters'', ''machines''], ru_verbs = [''get'', ''list'', ''watch'']\<rparr>,
     \<lparr>ru_groups = [''infrastructure.cluster.x-k8s.io''], ru_resources = [''awsclusters''], ru_verbs = [''get'', ''list'', ''watch'']\<rparr>,
     \<lparr>ru_groups = [''infrastructure.cluster.x-k8s.io''], ru_resources = [''awsmachines''],
       ru_verbs = [''create'', ''delete'', ''get'', ''list'', ''patch'', ''update'', ''watch'']\<rparr>,
     \<lparr>ru_groups = [''infrastructure.cluster.x-k8s.io''], ru_resources = [''awsmachines/finalizers''], ru_verbs = [''update'']\<rparr>,
     \<lparr>ru_groups = [''infrastructure.cluster.x-k8s.io''], ru_resources = [''awsmachines/status''],
       ru_verbs = [''get'', ''patch'', ''update'']\<rparr>,
     \<lparr>ru_groups = [''networking.dcn.ssu.ac.kr''], ru_resources = [''eniclaims'', ''enipools''],
       ru_verbs = [''create'', ''delete'', ''get'', ''list'', ''patch'', ''update'', ''watch'']\<rparr>,
     \<lparr>ru_groups = [''networking.dcn.ssu.ac.kr''], ru_resources = [''eniclaims/finalizers'', ''enipools/finalizers''],
       ru_verbs = [''update'']\<rparr>,
     \<lparr>ru_groups = [''networking.dcn.ssu.ac.kr''], ru_resources = [''eniclaims/status'', ''enipools/status''],
       ru_verbs = [''get'', ''patch'', ''update'']\<rparr>]"

lemmas rules_defs = AWSMachine_rules_def ENIClaim_rules_def ENIPool_rules_def infra_group_def networking_group_def
  SchemeGroupVersion_def

lemma actions_append [simp]: "actions (rs @ qs) = actions rs @ actions qs"
  by (simp add: actions_def)

section \<open>Requests\<close>

fun action_of :: "request \<Rightarrow> action" where
  "action_of (Create _) = (networking_group, ''eniclaims'', ''create'')"
| "action_of (PatchMachine _ _) = (infra_group, ''awsmachines'', ''patch'')"
| "action_of (PatchClaim _ _) = (networking_group, ''eniclaims'', ''patch'')"
| "action_of (DeleteClaim _) = (networking_group, ''eniclaims'', ''delete'')"
| "action_of (UpdateClaimStatus _) = (networking_group, ''eniclaims/status'', ''update'')"
| "action_of (UpdatePoolStatus _) = (networking_group, ''enipools/status'', ''update'')"

text \<open>
  The controller whose markers a call runs under; an admission is served by the same process and needs
  what the machine reconciler needs.
\<close>

fun rules_of :: "job \<Rightarrow> rule list" where
  "rules_of (Admit _ _) = AWSMachine_rules"
| "rules_of (ReconcileMachine _ _) = AWSMachine_rules"
| "rules_of (ReconcileClaim _ _) = ENIClaim_rules"
| "rules_of (ReconcilePool _) = ENIPool_rules"

text \<open>The writes of a call, by its job.\<close>

fun writes :: "job \<Rightarrow> action list" where
  "writes (Admit _ _) = [(networking_group, ''eniclaims'', ''create'')]"
| "writes (ReconcileMachine _ _) = [(networking_group, ''eniclaims'', ''create''), (infra_group, ''awsmachines'', ''patch'')]"
| "writes (ReconcileClaim _ _) = [(networking_group, ''eniclaims'', ''patch''), (networking_group, ''eniclaims'', ''delete''),
     (networking_group, ''eniclaims/status'', ''update'')]"
| "writes (ReconcilePool _) = [(networking_group, ''enipools/status'', ''update'')]"

lemma awaited_run:
  assumes "awaits p = Some rq"
  obtains r s' where "run_call script_ports (pr_job p) (script_of p) = (r, s')" "waits s' = Some rq"
  using assms unfolding awaits_def by (metis prod.collapse)

lemma awaited_write:
  assumes "awaits p = Some rq"
  shows "action_of rq \<in> set (writes (pr_job p))"
proof -
  obtain r s' where run: "run_call script_ports (pr_job p) (script_of p) = (r, s')" "waits s' = Some rq"
    using awaited_run [OF assms] .
  show ?thesis
  proof (cases "pr_job p")
    case (Admit request m)
    with run obtain e m' where "Default_AWSMachine (Some script_ports) request m (script_of p) = ((e, m'), s')"
      by (auto split: prod.splits)
    from admission_asks [OF this] run(2) Admit show ?thesis by auto
  next
    case (ReconcileMachine ns n)
    with run obtain x where "Reconcile_AWSMachine script_ports ns n (script_of p) = (x, s')" by (auto simp: map_prod_def split: prod.splits)
    from machine_asks [OF this] run(2) ReconcileMachine show ?thesis by (auto simp: machine_patch_def)
  next
    case (ReconcileClaim now n)
    with run obtain x where "Reconcile_ENIClaim script_ports now n (script_of p) = (x, s')" by (auto simp: map_prod_def split: prod.splits)
    from claim_asks [OF this] run(2) ReconcileClaim show ?thesis by (auto simp: claim_decides_def)
  next
    case (ReconcilePool n)
    with run obtain x where "Reconcile_ENIPool script_ports n (script_of p) = (x, s')" by (auto simp: map_prod_def split: prod.splits)
    from pool_asks [OF this] run(2) ReconcilePool show ?thesis by auto
  qed
qed

lemma writes_permitted_by_rules: "list_all (permits (rules_of j)) (writes j)"
  by (cases j) (simp_all add: permits_def rules_defs)

lemma role_is_markers: "set (actions manager_role) = set (actions (AWSMachine_rules @ ENIClaim_rules @ ENIPool_rules))"
  by (auto simp: actions_def manager_role_def rules_defs)

text \<open>
  C32: Every write a call can wait for, whatever it has read and been answered, is one of the writes of its
  job, and both the markers of its controller and the role that is deployed permit it.
\<close>
theorem writes_permitted:
  assumes "awaits p = Some rq"
  shows "action_of rq \<in> set (writes (pr_job p)) \<and> permits (rules_of (pr_job p)) (action_of rq) \<and>
    permits manager_role (action_of rq)"
proof -
  note a = awaited_write [OF assms]
  then have "permits (rules_of (pr_job p)) (action_of rq)" using writes_permitted_by_rules by (auto simp: list_all_iff)
  moreover have "set (actions (rules_of (pr_job p))) \<subseteq> set (actions manager_role)"
    unfolding role_is_markers by (cases "pr_job p") auto
  ultimately show ?thesis using a by (auto simp: permits_actions)
qed

theorem writes_permitted_witness:
  "\<exists>rq. awaits (begin_call (ReconcilePool ''pool-a'') \<lparr>see_claims = ex_world, see_machines = ex_world, see_rest = ex_world\<rparr>) = Some rq \<and>
     permits manager_role (action_of rq)"
proof -
  let ?p = "begin_call (ReconcilePool ''pool-a'') \<lparr>see_claims = ex_world, see_machines = ex_world, see_rest = ex_world\<rparr>"
  have "p_get_pool script_ports (script_of ?p) ''pool-a'' = Inr ex_pool"
    by (simp add: begin_call_def script_of_def srv_get_pool_def ex_world_def lookup_by_def or_not_found_def ex_pool_def meta_def)
  from Reconcile_ENIPool_eq [OF this script_ports_simps(5)] obtain rq where rq: "awaits ?p = Some rq"
    by (simp add: awaits_def begin_call_def script_of_def ask_done_simps)
  from writes_permitted [OF this] rq show ?thesis by blast
qed

text \<open>
  Each action of the role comes from a marker and each marker is in the role. The role also permits the
  deletion of machines, which no call ever asks for, and it permits no event of the group
  \<^verbatim>\<open>events.k8s.io\<close>, to which a recorder of \<^verbatim>\<open>k8s.io/client-go/tools/events\<close> writes.
\<close>

theorem role_grants_markers: "permits manager_role a \<longleftrightarrow> permits (AWSMachine_rules @ ENIClaim_rules @ ENIPool_rules) a"
  unfolding permits_actions role_is_markers ..

theorem machine_deletion_unused:
  "permits manager_role (infra_group, ''awsmachines'', ''delete'')"
  "awaits p = Some rq \<Longrightarrow> action_of rq = (infra_group, ''awsmachines'', verb) \<Longrightarrow> verb = ''patch''"
proof -
  show "permits manager_role (infra_group, ''awsmachines'', ''delete'')" by (simp add: permits_def manager_role_def infra_group_def)
  show "awaits p = Some rq \<Longrightarrow> action_of rq = (infra_group, ''awsmachines'', verb) \<Longrightarrow> verb = ''patch''"
    by (cases rq) (simp_all add: infra_group_def networking_group_def SchemeGroupVersion_def)
qed

theorem events_not_permitted: "\<not> permits manager_role (''events.k8s.io'', resource, verb)"
  by (simp add: permits_def manager_role_def)

section \<open>Webhooks\<close>

text \<open>The markers of the webhooks, which tell the API server what to send where.\<close>

record hook =
  hk_path :: string
  hk_mutating :: bool
  hk_failurePolicy :: string
  hk_sideEffects :: string
  hk_group :: string
  hk_resource :: string
  hk_verbs :: "string list"
  hk_version :: string
  hk_name :: string

definition AWSMachine_hook :: hook where
  "AWSMachine_hook = \<lparr>hk_path = ''/mutate-infrastructure-cluster-x-k8s-io-v1beta2-awsmachine'', hk_mutating = True,
     hk_failurePolicy = ''fail'', hk_sideEffects = ''NoneOnDryRun'', hk_group = ''infrastructure.cluster.x-k8s.io'',
     hk_resource = ''awsmachines'', hk_verbs = [''create''], hk_version = ''v1beta2'',
     hk_name = ''mawsmachine-v1beta2.eni.dcn.ssu.ac.kr''\<rparr>"

definition ENIPool_default_hook :: hook where
  "ENIPool_default_hook = \<lparr>hk_path = ''/mutate-networking-dcn-ssu-ac-kr-v1alpha1-enipool'', hk_mutating = True,
     hk_failurePolicy = ''fail'', hk_sideEffects = ''None'', hk_group = ''networking.dcn.ssu.ac.kr'',
     hk_resource = ''enipools'', hk_verbs = [''create'', ''update''], hk_version = ''v1alpha1'',
     hk_name = ''menipool-v1alpha1.eni.dcn.ssu.ac.kr''\<rparr>"

definition ENIPool_validate_hook :: hook where
  "ENIPool_validate_hook = \<lparr>hk_path = ''/validate-networking-dcn-ssu-ac-kr-v1alpha1-enipool'', hk_mutating = False,
     hk_failurePolicy = ''fail'', hk_sideEffects = ''None'', hk_group = ''networking.dcn.ssu.ac.kr'',
     hk_resource = ''enipools'', hk_verbs = [''create'', ''update''], hk_version = ''v1alpha1'',
     hk_name = ''venipool-v1alpha1.eni.dcn.ssu.ac.kr''\<rparr>"

definition ENIClaim_hook :: hook where
  "ENIClaim_hook = \<lparr>hk_path = ''/validate-networking-dcn-ssu-ac-kr-v1alpha1-eniclaim'', hk_mutating = False,
     hk_failurePolicy = ''fail'', hk_sideEffects = ''None'', hk_group = ''networking.dcn.ssu.ac.kr'',
     hk_resource = ''eniclaims'', hk_verbs = [''create'', ''update''], hk_version = ''v1alpha1'',
     hk_name = ''veniclaim-v1alpha1.eni.dcn.ssu.ac.kr''\<rparr>"

definition hooks :: "hook list" where
  "hooks = [AWSMachine_hook, ENIPool_default_hook, ENIPool_validate_hook, ENIClaim_hook]"

lemmas hook_defs = hooks_def AWSMachine_hook_def ENIPool_default_hook_def ENIPool_validate_hook_def ENIClaim_hook_def

text \<open>
  What a registration makes the server of controller-runtime serve: a path for the defaulter and one for
  the validator, made from the group, the version and the kind of the type; \<open>path\<close> is how it makes them.
\<close>

definition lower :: "string \<Rightarrow> string" where
  "lower = map (\<lambda>c. if CHR ''A'' \<le> c \<and> c \<le> CHR ''Z'' then char_of (of_char c + (32 :: nat)) else c)"

definition dashed :: "string \<Rightarrow> string" where
  "dashed = map (\<lambda>c. if c = CHR ''.'' then CHR ''-'' else c)"

definition group_version_of :: "gotype \<Rightarrow> group_version" where
  "group_version_of t = (if gt_package t = v1alpha1 then SchemeGroupVersion else (''infrastructure.cluster.x-k8s.io'', ''v1beta2''))"

definition served :: "(string \<Rightarrow> group_version \<Rightarrow> string \<Rightarrow> string) \<Rightarrow> registration \<Rightarrow> (string \<times> bool \<times> group_version \<times> string) list" where
  "served path r = (case r of
     Controller _ _ \<Rightarrow> []
   | Webhook kind validates defaults \<Rightarrow>
       (let gv = group_version_of (registered_type r); resource = lower kind @ ''s''
        in (if defaults then [(path ''mutate'' gv kind, True, gv, resource)] else []) @
           (if validates then [(path ''validate'' gv kind, False, gv, resource)] else [])))"

definition declared :: "hook \<Rightarrow> string \<times> bool \<times> group_version \<times> string" where
  "declared h = (hk_path h, hk_mutating h, (hk_group h, hk_version h), hk_resource h)"

definition paths_documented :: "(string \<Rightarrow> group_version \<Rightarrow> string \<Rightarrow> string) \<Rightarrow> bool" where
  "paths_documented path \<longleftrightarrow> (\<forall>prefix gv kind. path prefix gv kind =
     ''/'' @ prefix @ ''-'' @ dashed (fst gv) @ ''-'' @ snd gv @ ''-'' @ lower kind)"
lemma lower_kinds: "lower ''AWSMachine'' = ''awsmachine''" "lower ''ENIPool'' = ''enipool''" "lower ''ENIClaim'' = ''eniclaim''"
  by code_simp+

lemma group_versions: "group_version_of (registered_type (Webhook ''AWSMachine'' a b)) = (''infrastructure.cluster.x-k8s.io'', ''v1beta2'')"
  "group_version_of (registered_type (Webhook ''ENIPool'' a b)) = SchemeGroupVersion"
  "group_version_of (registered_type (Webhook ''ENIClaim'' a b)) = SchemeGroupVersion"
  by (simp_all add: group_version_of_def registered_type_def v1alpha1_def infra_package_def)

lemma served_declared:
  assumes "paths_documented path"
  shows "served path (Controller kind name) = []"
    and "served path (Webhook ''AWSMachine'' False True) = [declared AWSMachine_hook]"
    and "served path (Webhook ''ENIPool'' True True) = [declared ENIPool_default_hook, declared ENIPool_validate_hook]"
    and "served path (Webhook ''ENIClaim'' True False) = [declared ENIClaim_hook]"
proof -
  have path: "path prefix gv kind = ''/'' @ prefix @ ''-'' @ dashed (fst gv) @ ''-'' @ snd gv @ ''-'' @ lower kind" for prefix gv kind
    using assms unfolding paths_documented_def by blast
  note simps = served_def group_versions Let_def lower_kinds declared_def path dashed_def SchemeGroupVersion_def
  show "served path (Controller kind name) = []" by (simp add: served_def)
  show "served path (Webhook ''AWSMachine'' False True) = [declared AWSMachine_hook]"
    by (simp add: simps AWSMachine_hook_def)
  show "served path (Webhook ''ENIPool'' True True) = [declared ENIPool_default_hook, declared ENIPool_validate_hook]"
    by (simp add: simps ENIPool_default_hook_def ENIPool_validate_hook_def)
  show "served path (Webhook ''ENIClaim'' True False) = [declared ENIClaim_hook]"
    by (simp add: simps ENIClaim_hook_def)
qed

lemma webhooks_of_plan: "env \<noteq> ''false'' \<Longrightarrow> {r. SetupWithManager r \<in> set (plan env f)} =
    {Controller ''ENIPool'' ''enipool'', Controller ''ENIClaim'' ''eniclaim'', Controller ''AWSMachine'' ''awsmachine'',
     Webhook ''AWSMachine'' False True, Webhook ''ENIPool'' True True, Webhook ''ENIClaim'' True False}"
  by (auto simp: plan_def)

text \<open>
  C33: Unless the webhooks are disabled, the program serves exactly the webhooks that its markers declare:
  each declared path is served, for the declared group, version and resource, by a defaulter if it is
  declared mutating and by a validator if not, and nothing else is served. None is sent deletions, the
  machine webhook is sent creations only, and a dry run of it writes nothing, as declared: the call ends
  at once, with the object as it was.
\<close>
theorem webhooks_as_declared:
  assumes "env \<noteq> ''false''" "paths_documented path"
  shows "(\<Union>r \<in> {r. SetupWithManager r \<in> set (plan env f)}. set (served path r)) = set (map declared hooks) \<and>
    (\<forall>h. h \<in> set hooks \<longrightarrow> ''delete'' \<notin> set (hk_verbs h)) \<and> hk_verbs AWSMachine_hook = [''create''] \<and>
    (pr_job p = Admit (Some \<lparr>req_DryRun = Some True\<rparr>) m \<longrightarrow> awaits p = None \<and> returns p = Admitted None m)"
proof -
  have "(\<Union>r \<in> {r. SetupWithManager r \<in> set (plan env f)}. set (served path r)) = set (map declared hooks)"
    unfolding webhooks_of_plan [OF assms(1)] by (simp add: served_declared [OF assms(2)] hooks_def insert_commute)
  moreover have "awaits p = None \<and> returns p = Admitted None m" if "pr_job p = Admit (Some \<lparr>req_DryRun = Some True\<rparr>) m"
    using that by (simp add: awaits_def returns_def Default_not_wanted wants_eni_def)
  ultimately show ?thesis by (auto simp: hook_defs)
qed

theorem webhooks_as_declared_witness:
  "let path = (\<lambda>prefix gv kind. ''/'' @ prefix @ ''-'' @ dashed (fst gv) @ ''-'' @ snd gv @ ''-'' @ lower kind)
   in (\<Union>r \<in> {r. SetupWithManager r \<in> set (plan '''' default_flags)}. set (served path r)) = set (map declared hooks)"
  using webhooks_as_declared [of "''''" "\<lambda>prefix gv kind. ''/'' @ prefix @ ''-'' @ dashed (fst gv) @ ''-'' @ snd gv @ ''-'' @ lower kind"]
  by (simp add: paths_documented_def Let_def)

end
