(* ===== verification/Spec2Isabelle.thy ===== *)
theory Spec2Isabelle
  imports Fair_Runs Running_Program Deployment Go_Slices Allocation_Requests Metrics Permissions
begin

text \<open>
  Verification of the CAPA ENI controller: a Kubernetes controller that hands out pre-created AWS network
  interfaces (ENIs) to the machines of Cluster API Provider AWS (CAPA).

  \<^bold>\<open>The program.\<close> An \<^verbatim>\<open>ENIPool\<close> declares the interfaces of a network (region and VPC); an \<^verbatim>\<open>ENIClaim\<close>, named
  after its ENI, reserves one for an \<^verbatim>\<open>AWSMachine\<close>. The atomic CREATE of the API server on the name of
  the claim is the lock: whoever creates the claim has the ENI. A mutating webhook allocates when an
  opted-in machine is submitted and injects the ENI into the object; a machine that is submitted with the
  pause annotation of the allocator is allocated by the AWSMachine reconciler instead, which then removes
  the pause. The claim reconciler keeps a finalizer on the claims, publishes their phase and reclaims
  those whose machine does not exist 30 seconds after their creation. The pool reconciler publishes the
  inventory. Validating webhooks keep pools consistent and claims named after their ENIs.

  \<^bold>\<open>Theories and source.\<close> Functions keep the names of the code, with the type or \<open>wh_\<close> (webhook) and \<open>rc_\<close>
  (reconciler) added where several have one name.

  \<^item> \<open>Prelude\<close>: Go's maps, durations and the generic facts.
  \<^item> \<open>Api_Types\<close> (\<^verbatim>\<open>api/v1alpha1/*_types.go\<close>, \<^verbatim>\<open>constants.go\<close>): structs as records, open string enums as
    strings, the kubebuilder markers as predicates \<open>crd_...\<close>.
  \<^item> \<open>Ports\<close>: the client, recorder, metrics and library functions as one record \<open>'s ports\<close> over any state
    of the world, with what a proof needs of them as locales (\<open>claim_store\<close>, \<open>claim_lifecycle\<close>,
    \<open>machine_store\<close>, \<open>allocator_api\<close>, \<open>claim_api\<close>, \<open>pool_api\<close>, \<open>condition_setter\<close>).
  \<^item> \<open>Ref_Server\<close>: a small API server that meets all of them, on which the witnesses are evaluated
    (\<open>Example_World\<close>).
  \<^item> \<open>Netip\<close>: \<^verbatim>\<open>netip.ParseAddr\<close>, \<^verbatim>\<open>Compare\<close> and \<^verbatim>\<open>Is4\<close> as the code uses them; addresses are words of 32 and
    128 bits. \<open>Sort_Slice\<close>: the contract of \<^verbatim>\<open>sort.Slice\<close> and a sorter that keeps it.
  \<^item> \<open>Pool_Webhook\<close>, \<open>Claim_Webhook\<close> (\<^verbatim>\<open>internal/webhook/v1alpha1\<close>): defaulter and validators.
  \<^item> \<open>Allocator\<close>: matching of pools, requested key, order of the candidates and the loop of CREATEs, which
    \<^verbatim>\<open>awsmachine_webhook.go\<close> and \<^verbatim>\<open>awsmachine_controller.go\<close> have in common. \<open>AWSMachine_Webhook\<close>,
    \<open>AWSMachine_Controller\<close>, \<open>ENIClaim_Controller\<close>, \<open>ENIPool_Controller\<close>: one theory for each handler, with
    every branch, error and early return; a handler returns \<open>error + Result\<close> and the next state.
  \<^item> \<open>Go_Memory\<close>, \<open>Deep_Copy\<close>, \<open>Generated_Copies\<close> (\<^verbatim>\<open>zz_generated.deepcopy.go\<close>): blocks, slices and
    pointers; the contract of a deep copy as the locale \<open>deep_copy\<close>, closed under slices and pointers;
    every generated function. \<open>Go_Slices\<close>: the slices that the code changes in place.
  \<^item> \<open>Startup\<close> (\<^verbatim>\<open>cmd/main.go\<close> and the \<^verbatim>\<open>Setup...WithManager\<close> functions): flags, options, registrations.
    \<open>Scheme_Registration\<close> (\<^verbatim>\<open>groupversion_info.go\<close>, the \<^verbatim>\<open>init\<close> functions of the types and of \<^verbatim>\<open>main\<close>): the
    scheme, on the locales \<open>scheme_library\<close> and \<open>scheme_environment\<close>. \<open>Metrics\<close> (\<^verbatim>\<open>metrics.go\<close> and its uses):
    the two vectors, on the locale \<open>metric_library\<close>. \<open>Permissions\<close>: the RBAC and webhook markers and
    \<^verbatim>\<open>config/rbac/role.yaml\<close>.
  \<^item> \<open>Validation\<close>, \<open>Allocation_Requests\<close>: what validation and allocation promise each other. \<open>System\<close>: the
    components together, a whole call of a reconciler per step.
  \<^item> \<open>Handler_Runs\<close>, \<open>Isolated_Calls\<close>, \<open>Interleaved\<close>, \<open>Grace_Period\<close>, \<open>Recovery\<close>: the components together, one
    API request per step. The handlers are the same functions, run on the ports of a script: the answers
    so far and what was read with them. A script stops at the first request without an answer, and
    \<open>net_step\<close> answers it.
  \<^item> \<open>Work_Queue\<close>: the queues of the three controllers, filled by the watches and by what the calls return;
    each step is labelled with the key a worker takes. \<open>Fair_Runs\<close>: infinite runs of the queues in which
    time goes on and a key that stays in its queue is worked on some day (the locale \<open>fair_run\<close>).
  \<^item> \<open>Running_Program\<close>: the structs that the handlers are methods of, as \<^verbatim>\<open>main\<close> and the set-up functions fill
    them in, and the events and the counter that an operator sees (the locale \<open>audit\<close>). The defaulter of
    pools and the validator of claims have no fields. \<open>Deployment\<close> (\<^verbatim>\<open>config/manager\<close>, \<^verbatim>\<open>config/default\<close>,
    \<^verbatim>\<open>package/install.yaml\<close>): the container, its patches and the flags the program is started with.

  \<^bold>\<open>What the lemmas show.\<close> The reads of a port look at a state, its writes return the next one, and no
  proof about a handler assumes that a read is fresh or a write succeeds unless the theorem says so.

  \<^item> Each reconciler has an abstract specification and a refinement: \<open>machine_step\<close> (what a call may do to
    claims and machines), \<open>next_claim\<close> and \<open>next_result\<close> (the exact outcome for a claim); from these
    follow that a machine never gets a second claim, that reservations are kept, that orphans are
    reclaimed in two calls, idempotence, the exhaustion policies and the recovery after a lost patch.
  \<^item> The webhook reserves the free candidate with the least address, and rejections leave no trace. An
    allocation makes one CREATE per candidate at most, and every one is well-formed.
  \<^item> The pool validator decides exactly the validity predicate and names the first offence; admitted pools
    make the search for a pool unambiguous and the order of allocation the numeric one.
  \<^item> Deep copies have the value of the original and share nothing with it; with that, the patches and the
    candidates computed in memory are those of the value model, although \<^verbatim>\<open>values[:0]\<close> and
    \<^verbatim>\<open>configured[:0]\<close> overwrite their blocks.
  \<^item> In \<open>System\<close>, whatever the interleaving of admissions, reconcilers, deletions and time, no two stored
    machines share an ENI, if a machine is stored within the grace period of its claim. The proof is an
    invariant (\<open>safe\<close>) preserved by each step; the handler of the webhook is shown to be a run of
    its steps.
  \<^item> In \<open>Interleaved\<close> the requests of all calls interleave, reads come from caches of any age, answers get
    lost and calls crash. Exclusivity is the invariant \<open>net_inv\<close> again, and \<open>Grace_Period\<close> shows when it
    holds: exactly if the time an admission takes and the age of the machines that the claim reconciler
    sees add up to at most the 30 seconds of grace. \<open>Isolated_Calls\<close> shows that a call that runs alone is the
    handler on the reference server, so whole calls are runs. \<open>Recovery\<close>: from every reachable state a
    machine can still be released while an ENI is free for it, and an orphan can still be reclaimed.
  \<^item> No key with work left drops out of a queue (\<open>Work_Queue\<close>), although each controller watches only its own
    kind; only a machine that carries the mark of an exhausted pool does. In every fair run the claim of a
    machine that does not exist is reclaimed, as long as nobody else writes it and its pool exists, and a
    machine that waits for its ENI gets that or another one.
  \<^item> The handlers never meet a nil client. Every release from the pause is accounted for by an event, and
    every fallback by the counter as well.
  \<^item> The program fills its scheme with every type that it uses, registers everything before it starts the
    manager, serves exactly the webhooks it declares, reads back any flags that are written out, and
    disables HTTP/2 on both servers unless asked not to. No write of a handler lacks a permission, and no
    update of a metric panics.

  Some theorems record behaviour that the documentation does not promise: the webhook ignores the
  exhaustion policy, allocates twice for a repeated CREATE and admits machines of an unready network;
  a deleted claim frees its ENI while the machine exists; an orphan claim stays when its pool is
  gone; two concurrent pools of one network are admitted; a machine stored after the grace period
  shares its ENI with another, and so does a machine that is created again while its old claim is
  being deleted, which the reconciler finds and uses; a claim reconciler that starts from a claim of
  another machine deletes the claim of the present one; the gauge of a deleted pool stays; the role
  permits deletions of machines that nobody asks for, and not the events that the recorder sends; a
  fallback whose patch fails is counted and announced again when it is repeated.

  \<^bold>\<open>Bounds and recursion.\<close> All loops of the code run over a list and are structural recursions, so there is no
  fuel; the parser of the command line recurses on the remaining arguments. Durations saturate at 64
  bits as in Go; lengths, counts and generations are unbounded.

  \<^bold>\<open>Not modelled.\<close> The client, the API server beyond its contracts, and the builders of controller-runtime
  are parameters, as are the copies of \<^verbatim>\<open>ObjectMeta\<close>, \<^verbatim>\<open>ListMeta\<close> and \<^verbatim>\<open>Condition\<close>, the flags of zap and
  \<^verbatim>\<open>meta.SetStatusCondition\<close>. Log messages and the texts of errors are left out; an error is its
  constructor with its operands. The pointers that \<^verbatim>\<open>claimByENI\<close> keeps into the list of claims are read as
  values, since nothing writes through them. The scheme, its builder, the Prometheus library and the
  packages whose types are registered are parameters as well; counts are naturals where the metrics have
  floats. Of the manifests, \<open>Deployment\<close> and \<open>Permissions\<close> have what decides how the program starts and what it
  may do; security contexts, resources, network policies, monitoring, build files and the tests say
  nothing about its behaviour. \<open>Interleaved\<close> lets any reconciliation start at any time, so its liveness is
  that a good continuation exists; \<open>Fair_Runs\<close> proves that the goal is reached, but for whole calls on
  coherent reads. That workers are fair is a property of the controller-runtime queues, and assumed.
\<close>

end
